(* ===== verification/Nova_Prelude.thy ===== *)
theory Nova_Prelude
  imports Main "HOL-Library.Word" "HOL-Library.Signed_Division" "HOL-Library.Finite_Map"
    "HOL-Library.Multiset"
begin

text \<open>
  Shared vocabulary of the development: the Go machine types, byte arrays, big-endian
  encodings, signed 64-bit arithmetic, iteration orders of Go maps, and the generic locale of
  systems that are driven by a sequence of operations.

  Go's \<open>uint64\<close> is \<open>64 word\<close>; \<open>int64\<close> (and \<open>int\<close>, 64 bits wide on every platform the node is
  built for) is also \<open>64 word\<close>, read with \<open>sint\<close> and compared with \<open><s\<close> and \<open>\<le>s\<close>.
  A \<open>[32]byte\<close> array is a \<open>256 word\<close>: byte 0 is the most significant one, so \<open>be_bytes 32\<close> is
  the slice \<open>a[:]\<close> and \<open>array32\<close> is \<open>copy(a[:], src)\<close> into a zero array.
  A \<open>time.Time\<close> is an \<open>int\<close> (nanoseconds since the epoch, unbounded as in Go's library),
  \<open>UnixNano\<close> narrows it to an \<open>int64\<close>.
\<close>

unbundle bit_operations_syntax

type_synonym u8 = "8 word"
type_synonym u64 = "64 word"
type_synonym i64 = "64 word"
type_synonym bytes = "8 word list"
type_synonym addr = "256 word"
type_synonym hash = "256 word"
type_synonym time = int

section \<open>Byte arrays and big-endian encodings\<close>

text \<open>\<open>be_bytes n w\<close>: the \<open>n\<close> low bytes of \<open>w\<close>, most significant first
  (\<open>binary.BigEndian.PutUint64\<close> for \<open>n = 8\<close>, \<open>a[:]\<close> of a \<open>[32]byte\<close> for \<open>n = 32\<close>).\<close>

primrec be_bytes :: "nat \<Rightarrow> 'a::len word \<Rightarrow> bytes" where
  "be_bytes 0 w = []"
| "be_bytes (Suc n) w = ucast (drop_bit (8 * n) w) # be_bytes n w"

primrec of_be :: "bytes \<Rightarrow> 'a::len word" where
  "of_be [] = 0"
| "of_be (b # bs) = push_bit (8 * length bs) (ucast b) OR of_be bs"

definition array32 :: "bytes \<Rightarrow> 256 word" where
  "array32 src = of_be (take 32 (src @ replicate 32 0))"

lemma length_be_bytes [simp]: "length (be_bytes n w) = n"
  by (induction n) auto

lemma of_be_be_bytes: "of_be (be_bytes n (w :: 'a::len word)) = take_bit (8 * n) w"
proof (induction n)
  case 0
  then show ?case by simp
next
  case (Suc n)
  have "push_bit (8 * n) (ucast (ucast (drop_bit (8 * n) w) :: u8)) OR take_bit (8 * n) w
      = take_bit (8 * Suc n) w"
    by (rule bit_word_eqI) (auto simp: bit_simps)
  with Suc show ?case by simp
qed

lemma be_bytes_inject:
  fixes w :: "'a::len word"
  assumes "LENGTH('a) \<le> 8 * n" and "be_bytes n w = be_bytes n w'"
  shows "w = w'"
proof -
  have "take_bit (8 * n) w = take_bit (8 * n) w'"
    using assms(2) of_be_be_bytes [of n w] of_be_be_bytes [of n w'] by simp
  with assms(1) show ?thesis
    by (simp add: take_bit_word_eq_self)
qed

lemma be_bytes_cong:
  "take_bit (8 * n) (w :: 'a::len word) = take_bit (8 * n) w' \<Longrightarrow> be_bytes n w = be_bytes n w'"
proof (induction n)
  case (Suc n)
  have b: "bit w i = bit w' i" if "i < 8 * Suc n" for i
    using Suc.prems that by (metis bit_take_bit_iff)
  have "take_bit (8 * n) w = take_bit (8 * n) w'"
    by (rule bit_word_eqI) (auto simp: bit_simps b)
  moreover have "(ucast (drop_bit (8 * n) w) :: u8) = ucast (drop_bit (8 * n) w')"
    by (rule bit_word_eqI) (use b in \<open>auto simp: bit_simps dest: bit_imp_le_length\<close>)
  ultimately show ?case using Suc.IH by simp
qed simp

lemma bit_of_be: "bit (of_be bs :: 'a::len word) i \<Longrightarrow> i < 8 * length bs"
  by (induction bs) (auto simp: bit_simps dest: bit_imp_le_length)

lemma be_bytes_of_be: "8 * length bs \<le> LENGTH('a) \<Longrightarrow> be_bytes (length bs) (of_be bs :: 'a::len word) = bs"
proof (induction bs)
  case (Cons b bs)
  let ?r = "of_be bs :: 'a word" and ?n = "length bs"
  have r: "\<not> bit ?r i" if "8 * ?n \<le> i" for i
    using bit_of_be [of bs i, where ?'a = 'a] that by auto
  have "ucast (drop_bit (8 * ?n) (push_bit (8 * ?n) (ucast b) OR ?r)) = b"
    by (rule bit_word_eqI) (use r Cons.prems in \<open>auto simp: bit_simps\<close>)
  moreover have "be_bytes ?n (push_bit (8 * ?n) (ucast b) OR ?r) = be_bytes ?n ?r"
    by (rule be_bytes_cong) (rule bit_word_eqI, auto simp: bit_simps)
  ultimately show ?case using Cons by simp
qed simp

lemma be_bytes_array32: "length bs = 32 \<Longrightarrow> be_bytes 32 (array32 bs) = bs"
  using be_bytes_of_be [of bs, where ?'a = 256] by (simp add: array32_def)

lemma be_bytes8_inject [simp]: "be_bytes 8 (w :: 64 word) = be_bytes 8 w' \<longleftrightarrow> w = w'"
  by (auto intro: be_bytes_inject)

lemma be_bytes32_inject [simp]: "be_bytes 32 (w :: 256 word) = be_bytes 32 w' \<longleftrightarrow> w = w'"
  by (auto intro: be_bytes_inject)

lemma array32_be_bytes [simp]: "array32 (be_bytes 32 w) = w"
  by (simp add: array32_def of_be_be_bytes take_bit_word_eq_self)

lemma array32_append: "length bs = 32 \<Longrightarrow> array32 (bs @ cs) = array32 bs"
  by (simp add: array32_def)

section \<open>Floating point\<close>

text \<open>A \<open>float64\<close> is kept as the expression that the code evaluates; \<open>F_cap x\<close> is 100 when \<open>x\<close> exceeds it, else \<open>x\<close>.
  Such values are only displayed, and nothing depends on their rounding.\<close>

datatype f64 = F_u64 u64 | F_lit int | F_div f64 f64 | F_mul f64 f64 | F_add f64 f64 | F_cap f64

section \<open>Signed 64-bit arithmetic\<close>

text \<open>Go's signed division truncates towards zero and wraps at \<open>minInt / -1\<close>.\<close>

definition go_sdiv :: "i64 \<Rightarrow> i64 \<Rightarrow> i64" where
  "go_sdiv a b = word_of_int (sint a sdiv sint b)"

definition UnixNano :: "time \<Rightarrow> i64" where
  "UnixNano t = word_of_int t"

lemma sint_i64_bounds: "- (2 ^ 63) \<le> sint (a :: i64)" "sint (a :: i64) < 2 ^ 63"
  using sint_ge [of a] sint_lt [of a] by simp_all

lemma sint_word_of_int_i64:
  assumes "- (2 ^ 63) \<le> k" "k < 2 ^ 63"
  shows "sint (word_of_int k :: i64) = k"
  using assms by (simp add: sint_sbintrunc' signed_take_bit_int_eq_self)

lemma sint_add_i64:
  assumes "- (2 ^ 63) \<le> sint a + sint b" "sint a + sint b < 2 ^ 63"
  shows "sint (a + b :: i64) = sint a + sint b"
  using assms by (simp add: sint_word_add signed_take_bit_int_eq_self)

lemma sint_sub_i64:
  assumes "- (2 ^ 63) \<le> sint a - sint b" "sint a - sint b < 2 ^ 63"
  shows "sint (a - b :: i64) = sint a - sint b"
proof -
  have "sint (a - b) = signed_take_bit 63 (sint a - sint b)"
    by (simp add: sint_word_diff)
  with assms show ?thesis by (simp add: signed_take_bit_int_eq_self)
qed

lemma sdiv_nonneg: "0 \<le> a \<Longrightarrow> 0 < b \<Longrightarrow> a sdiv b = a div (b :: int)"
  by (auto simp: signed_divide_int_def sgn_if)

lemma sdiv_nonpos: "a \<le> 0 \<Longrightarrow> 0 < b \<Longrightarrow> a sdiv b = - ((- a) div (b :: int))"
  by (auto simp: signed_divide_int_def sgn_if)

lemma sint_go_sdiv:
  assumes "0 < sint b"
  shows "sint (go_sdiv a b) = sint a sdiv sint b"
  unfolding go_sdiv_def
proof (rule sint_word_of_int_i64)
  have r: "sint a sdiv sint b \<in> {- \<bar>sint a\<bar>..\<bar>sint a\<bar>}" by (rule sdiv_int_range)
  show "- (2 ^ 63) \<le> sint a sdiv sint b" using r sint_i64_bounds [of a] by auto
  show "sint a sdiv sint b < 2 ^ 63"
  proof (cases "0 \<le> sint a")
    case True
    then show ?thesis using r sint_i64_bounds [of a] by auto
  next
    case False
    then have "sint a sdiv sint b \<le> 0"
      using assms by (simp add: sdiv_nonpos pos_imp_zdiv_nonneg_iff)
    then show ?thesis by simp
  qed
qed

lemma sdiv_mono:
  assumes "a \<le> b" "0 < (c :: int)"
  shows "a sdiv c \<le> b sdiv c"
proof (cases "0 \<le> a")
  case True
  with assms show ?thesis by (simp add: sdiv_nonneg zdiv_mono1)
next
  case False
  show ?thesis
  proof (cases "0 \<le> b")
    case True
    have "0 \<le> (- a) div c" using False assms(2) by (simp add: pos_imp_zdiv_nonneg_iff)
    moreover have "0 \<le> b div c" using True assms(2) by (simp add: pos_imp_zdiv_nonneg_iff)
    ultimately show ?thesis using False True assms(2) by (simp add: sdiv_nonneg sdiv_nonpos)
  next
    case F: False
    have "(- b) div c \<le> (- a) div c" using assms by (intro zdiv_mono1) auto
    with False F assms(2) show ?thesis by (simp add: sdiv_nonpos)
  qed
qed

lemma unat_nonneg_i64:
  assumes "0 \<le> sint (w :: i64)"
  shows "unat w = nat (sint w)"
proof -
  have "uint w = uint (word_of_int (sint w) :: i64)" by simp
  also have "\<dots> = sint w mod 2 ^ 64" by (simp only: uint_word_of_int) simp
  also have "\<dots> = sint w" using assms sint_i64_bounds(2) [of w] by simp
  finally show ?thesis by (metis unat_eq_nat_uint)
qed

lemma sint_small_i64: 
  assumes "unat (w :: i64) < 2 ^ 63"
  shows "sint w = int (unat w)"
proof -
  have "int (unat w) < int (2 ^ 63)" using assms by (simp only: of_nat_less_iff)
  moreover have "- (2 ^ 63) \<le> int (unat w)" by (rule order_trans [of _ 0]) simp_all
  ultimately have "sint (word_of_int (int (unat w)) :: i64) = int (unat w)" by (intro sint_word_of_int_i64) simp_all
  then show ?thesis by simp
qed

lemma unat_add_nonneg_i64:
  assumes "0 \<le> sint (a :: i64)" "0 \<le> sint b"
  shows "unat (a + b) = nat (sint a) + nat (sint b)"
  using assms sint_i64_bounds(2) [of a] sint_i64_bounds(2) [of b]
  by (simp add: unat_word_ariths unat_nonneg_i64)

lemma sint_mult_i64:
  assumes "0 \<le> sint (a :: i64)" "0 \<le> sint b" "sint a * sint b < 2 ^ 63"
  shows "unat (a * b) = nat (sint a) * nat (sint b)" "sint (a * b) = sint a * sint b"
proof -
  have "nat (sint a) * nat (sint b) < 2 ^ 63" using assms by (simp flip: nat_mult_distrib)
  then show 1: "unat (a * b) = nat (sint a) * nat (sint b)"
    using assms by (simp add: unat_word_ariths unat_nonneg_i64)
  show "sint (a * b) = sint a * sint b"
    using sint_small_i64 [of "a * b"] assms 1 by (simp flip: nat_mult_distrib)
qed

lemma add_nonneg_i64:
  assumes "0 \<le> sint (a :: i64)" "0 \<le> sint b"
  shows "0 \<le> sint (a + b) \<longleftrightarrow> sint a + sint b < 2 ^ 63"
    "sint a + sint b < 2 ^ 63 \<Longrightarrow> sint (a + b) = sint a + sint b"
proof -
  note u = unat_add_nonneg_i64 [OF assms]
  show 2: "sint (a + b) = sint a + sint b" if "sint a + sint b < 2 ^ 63"
    using that assms sint_add_i64 by simp
  show "0 \<le> sint (a + b) \<longleftrightarrow> sint a + sint b < 2 ^ 63"
  proof
    assume n: "0 \<le> sint (a + b)"
    then have "unat (a + b) = nat (sint (a + b))" by (rule unat_nonneg_i64)
    then have "sint (a + b) = sint a + sint b" using u n assms by simp
    then show "sint a + sint b < 2 ^ 63" using sint_i64_bounds(2) [of "a + b"] by simp
  qed (use 2 assms in simp)
qed

lemma sint_len_i64:
  assumes "length xs < 2 ^ 62"
  shows "unat (of_nat (length xs) :: i64) = length xs" "sint (of_nat (length xs) :: i64) = int (length xs)"
proof -
  show "unat (of_nat (length xs) :: i64) = length xs" using assms by (simp add: unat_of_nat)
  then show "sint (of_nat (length xs) :: i64) = int (length xs)"
    using assms sint_small_i64 [of "of_nat (length xs)"] by simp
qed

lemma unat_add_u64: "unat (a + b :: u64) = (unat a + unat b) mod 2 ^ 64"
  by (simp add: unat_word_ariths)

lemma unat_u64_less: "unat (a :: u64) < 18446744073709551616"
  using unsigned_less [of a, where ?'a = nat] by simp

lemma unat_u64_le: "unat (a :: u64) \<le> 18446744073709551615"
  using unat_u64_less [of a] by linarith

lemma u64_eq_iff: "(a :: u64) = b \<longleftrightarrow> unat a = unat b"
  by (simp add: word_unat_eq_iff)

text \<open>The sum of a \<open>uint64\<close> quantity over all addresses, without wrap-around.\<close>

definition total_u64 :: "(addr \<Rightarrow> u64) \<Rightarrow> nat" where
  "total_u64 f = (\<Sum>a\<in>UNIV. unat (f a))"

lemma total_u64_upd: "total_u64 (f(a := v)) + unat (f a) = total_u64 f + unat v"
proof -
  have "total_u64 g = unat (g a) + (\<Sum>b\<in>UNIV - {a}. unat (g b))" for g
    unfolding total_u64_def by (rule sum.remove) auto
  from this [of f] this [of "f(a := v)"] show ?thesis by simp
qed

section \<open>Maps and iteration orders\<close>

text \<open>Go ranges over a map in an unspecified order. A loop whose result depends on the order
  takes the order as a list of keys; \<open>map_order m ks\<close> says that \<open>ks\<close> is such an order.\<close>

definition map_order :: "('k, 'v) fmap \<Rightarrow> 'k list \<Rightarrow> bool" where
  "map_order m ks \<longleftrightarrow> distinct ks \<and> set ks = fset (fmdom m)"

definition fmsize :: "('k, 'v) fmap \<Rightarrow> nat" where
  "fmsize m = fcard (fmdom m)"

lemma fmsize_empty [simp]: "fmsize fmempty = 0"
  by (simp add: fmsize_def)

lemma map_order_length: "map_order m ks \<Longrightarrow> length ks = fmsize m"
  unfolding map_order_def fmsize_def fcard.rep_eq using distinct_card by fastforce

lemma map_order_lookup: "map_order m ks \<Longrightarrow> k \<in> set ks \<longleftrightarrow> fmlookup m k \<noteq> None"
  by (auto simp: map_order_def fmlookup_dom_iff)

lemma map_order_exists: "\<exists>ks. map_order m ks"
proof -
  obtain ks where "set ks = fset (fmdom m)" "distinct ks"
    using finite_distinct_list [of "fset (fmdom m)"] by auto
  then show ?thesis by (auto simp: map_order_def)
qed

lemma fmsize_fmupd: "fmsize (fmupd k v m) = (if fmlookup m k = None then Suc (fmsize m) else fmsize m)"
proof (cases "k |\<in>| fmdom m")
  case True
  then have "finsert k (fmdom m) = fmdom m" by auto
  then show ?thesis using True by (auto simp: fmsize_def fmlookup_dom_iff)
next
  case False
  then show ?thesis by (auto simp: fmsize_def fmlookup_dom_iff fcard_finsert_disjoint)
qed

lemma fmsize_fmdrop: "fmlookup m k \<noteq> None \<Longrightarrow> Suc (fmsize (fmdrop k m)) = fmsize m"
  using fcard_Suc_fminus1 [of k "fmdom m"] by (auto simp: fmsize_def fmlookup_dom_iff)

lemma fmsize_filter_le: "fmsize (fmfilter P m) \<le> fmsize m"
  unfolding fmsize_def by (rule fcard_mono) auto

section \<open>Systems driven by operations\<close>

text \<open>
  A component is a state and operations on it; an invariant that each operation keeps holds
  after every sequence of operations. The components interpret this locale on their own step
  functions.
\<close>

locale op_system =
  fixes step :: "'s \<Rightarrow> 'op \<Rightarrow> 's"
    and inv :: "'s \<Rightarrow> bool"
  assumes inv_step: "inv s \<Longrightarrow> inv (step s e)"
begin

lemma inv_run: "inv s \<Longrightarrow> inv (foldl step s es)"
  by (induction es arbitrary: s) (auto intro: inv_step)

end

text \<open>A system every step of which moves the state up in a preorder: so does every run.\<close>

locale monotone_system = op_system step inv
  for step :: "'s \<Rightarrow> 'op \<Rightarrow> 's" and inv :: "'s \<Rightarrow> bool" +
  fixes below :: "'s \<Rightarrow> 's \<Rightarrow> bool"
  assumes below_refl: "below s s"
    and below_trans: "below s t \<Longrightarrow> below t u \<Longrightarrow> below s u"
    and below_step: "inv s \<Longrightarrow> below s (step s e)"
begin

lemma below_run: "inv s \<Longrightarrow> below s (foldl step s es)"
proof (induction es arbitrary: s)
  case (Cons e es)
  have "below (step s e) (foldl step (step s e) es)" using Cons by (intro Cons.IH inv_step)
  with below_step [OF Cons.prems] show ?case by (auto intro: below_trans)
qed (simp add: below_refl)

end

end
