(* ===== verification/Safe_Math.thy ===== *)
theory Safe_Math
  imports Nova_Prelude
begin

text \<open>
  \<open>core/math/safe.go\<close>: checked \<open>uint64\<close> arithmetic. A Go result \<open>(uint64, error)\<close> is a value of
  \<open>MathErr + u64\<close> (\<open>Inl\<close> the error), \<open>(uint64, bool)\<close> a pair, and a panic is \<open>Inl\<close> of the
  panic value. The lemmas say that each check is exact: an error is returned if and only if the
  mathematical result does not fit.
\<close>

datatype MathErr = ErrOverflow | ErrUnderflow | ErrDivZero

definition MaxUint64 :: u64 where
  "MaxUint64 = 18446744073709551615"

definition SafeAdd :: "u64 \<Rightarrow> u64 \<Rightarrow> MathErr + u64" where
  "SafeAdd a b = (if a > MaxUint64 - b then Inl ErrOverflow else Inr (a + b))"

definition SafeSub :: "u64 \<Rightarrow> u64 \<Rightarrow> MathErr + u64" where
  "SafeSub a b = (if b > a then Inl ErrUnderflow else Inr (a - b))"

definition SafeMul :: "u64 \<Rightarrow> u64 \<Rightarrow> MathErr + u64" where
  "SafeMul a b =
     (if a = 0 \<or> b = 0 then Inr 0
      else let result = a * b in
        if result div a \<noteq> b then Inl ErrOverflow else Inr result)"

definition SafeDiv :: "u64 \<Rightarrow> u64 \<Rightarrow> MathErr + u64" where
  "SafeDiv a b = (if b = 0 then Inl ErrDivZero else Inr (a div b))"

definition MustAdd :: "u64 \<Rightarrow> u64 \<Rightarrow> MathErr + u64" where
  "MustAdd a b = (case SafeAdd a b of Inl err \<Rightarrow> Inl err | Inr result \<Rightarrow> Inr result)"

definition MustSub :: "u64 \<Rightarrow> u64 \<Rightarrow> MathErr + u64" where
  "MustSub a b = (case SafeSub a b of Inl err \<Rightarrow> Inl err | Inr result \<Rightarrow> Inr result)"

definition CheckedAdd :: "u64 \<Rightarrow> u64 \<Rightarrow> u64 \<times> bool" where
  "CheckedAdd a b = (if a > MaxUint64 - b then (0, False) else (a + b, True))"

definition CheckedSub :: "u64 \<Rightarrow> u64 \<Rightarrow> u64 \<times> bool" where
  "CheckedSub a b = (if b > a then (0, False) else (a - b, True))"

definition CheckedMul :: "u64 \<Rightarrow> u64 \<Rightarrow> u64 \<times> bool" where
  "CheckedMul a b =
     (if a = 0 \<or> b = 0 then (0, True)
      else let result = a * b in
        if result div a \<noteq> b then (0, False) else (result, True))"

section \<open>The checks are exact\<close>

lemma unat_MaxUint64: "unat MaxUint64 = 2 ^ 64 - 1"
  by (simp add: MaxUint64_def)

lemma add_overflow_iff: "MaxUint64 - b < a \<longleftrightarrow> 2 ^ 64 \<le> unat a + unat b"
proof -
  have "b \<le> MaxUint64"
    using unat_u64_le [of b] by (simp add: word_le_nat_alt unat_MaxUint64)
  then have "unat (MaxUint64 - b) = 2 ^ 64 - 1 - unat b"
    by (simp add: unat_sub unat_MaxUint64)
  then show ?thesis
    using unat_u64_less [of a] unat_u64_less [of b] by (simp add: word_less_nat_alt; arith)
qed

lemma SafeAdd_cases:
  "SafeAdd a b = (if unat a + unat b < 2 ^ 64 then Inr (a + b) else Inl ErrOverflow)"
  by (simp add: SafeAdd_def add_overflow_iff not_less)

lemma SafeAdd_Inr_iff:
  "SafeAdd a b = Inr c \<longleftrightarrow> unat a + unat b < 2 ^ 64 \<and> unat c = unat a + unat b"
proof (cases "unat a + unat b < 2 ^ 64")
  case True
  then have "unat (a + b) = unat a + unat b" by (simp add: unat_add_u64)
  then have "a + b = c \<longleftrightarrow> unat c = unat a + unat b" by (metis u64_eq_iff)
  with True show ?thesis by (simp add: SafeAdd_cases)
qed (simp add: SafeAdd_cases)

lemma SafeSub_cases:
  "SafeSub a b = (if unat b \<le> unat a then Inr (a - b) else Inl ErrUnderflow)"
  by (simp add: SafeSub_def word_less_nat_alt)

lemma SafeSub_Inr_iff:
  "SafeSub a b = Inr c \<longleftrightarrow> unat b \<le> unat a \<and> unat c = unat a - unat b"
proof (cases "unat b \<le> unat a")
  case True
  then have "unat (a - b) = unat a - unat b" by (simp add: unat_sub word_le_nat_alt)
  then have "a - b = c \<longleftrightarrow> unat c = unat a - unat b" by (metis u64_eq_iff)
  with True show ?thesis by (simp add: SafeSub_cases)
qed (simp add: SafeSub_cases)

lemma mul_check_exact:
  fixes a b :: u64
  assumes "a \<noteq> 0"
  shows "a * b div a = b \<longleftrightarrow> unat a * unat b < 2 ^ 64"
proof -
  have pos: "0 < unat a" using assms by (simp add: unat_gt_0)
  have w: "unat (a * b) = (unat a * unat b) mod 2 ^ 64" by (simp add: unat_word_ariths)
  have eq: "a * b div a = b \<longleftrightarrow> unat (a * b) div unat a = unat b"
    by (metis unat_div u64_eq_iff)
  show ?thesis
  proof
    assume "a * b div a = b"
    then have "unat (a * b) div unat a = unat b" by (simp add: eq)
    then have "unat a * unat b \<le> unat (a * b)"
      by (metis div_times_less_eq_dividend mult.commute)
    then show "unat a * unat b < 2 ^ 64"
      using unat_u64_less [of "a * b"] by simp
  next
    assume "unat a * unat b < 2 ^ 64"
    then have "unat (a * b) = unat a * unat b" by (simp add: w)
    with pos show "a * b div a = b" by (simp add: eq)
  qed
qed

lemma SafeMul_cases:
  "SafeMul a b = (if unat a * unat b < 2 ^ 64 then Inr (a * b) else Inl ErrOverflow)"
  by (cases "a = 0"; cases "b = 0") (simp_all add: SafeMul_def mul_check_exact Let_def)

lemma SafeMul_Inr_iff:
  "SafeMul a b = Inr c \<longleftrightarrow> unat a * unat b < 2 ^ 64 \<and> unat c = unat a * unat b"
proof (cases "unat a * unat b < 2 ^ 64")
  case True
  then have "unat (a * b) = unat a * unat b" by (simp add: unat_word_ariths)
  then have "a * b = c \<longleftrightarrow> unat c = unat a * unat b" by (metis u64_eq_iff)
  with True show ?thesis by (simp add: SafeMul_cases)
qed (simp add: SafeMul_cases)

section \<open>Properties\<close>

text \<open>C28: every checked operation of the arithmetic package is exact. \<open>SafeAdd\<close>, \<open>SafeSub\<close> and
  \<open>SafeMul\<close> return \<open>c\<close> without an error if and only if the true sum, difference or product of the
  operands is representable as a \<open>uint64\<close>, and then \<open>c\<close> is that value; otherwise they return the
  overflow or underflow error. For \<open>SafeMul\<close> this is the correctness of the test
  \<open>result / a != b\<close> on the wrapped product.\<close>

theorem safe_arith_exact:
  "(SafeAdd a b = Inr c \<longleftrightarrow> unat a + unat b < 2 ^ 64 \<and> unat c = unat a + unat b)
   \<and> (SafeAdd a b = Inl ErrOverflow \<longleftrightarrow> 2 ^ 64 \<le> unat a + unat b)
   \<and> (SafeSub a b = Inr c \<longleftrightarrow> unat b \<le> unat a \<and> unat c = unat a - unat b)
   \<and> (SafeSub a b = Inl ErrUnderflow \<longleftrightarrow> unat a < unat b)
   \<and> (SafeMul a b = Inr c \<longleftrightarrow> unat a * unat b < 2 ^ 64 \<and> unat c = unat a * unat b)
   \<and> (SafeMul a b = Inl ErrOverflow \<longleftrightarrow> 2 ^ 64 \<le> unat a * unat b)"
  by (intro conjI SafeAdd_Inr_iff SafeSub_Inr_iff SafeMul_Inr_iff)
    (auto simp: SafeAdd_cases SafeSub_cases SafeMul_cases)

text \<open>The \<open>Checked*\<close> variants and the \<open>Safe*\<close> functions agree: the flag is true exactly when no
  error is returned, the value is the same, and it is 0 on failure; the panicking \<open>Must*\<close>
  functions return the same value and panic with the same error.\<close>

theorem checked_equiv_safe:
  "CheckedAdd a b = (case SafeAdd a b of Inl _ \<Rightarrow> (0, False) | Inr c \<Rightarrow> (c, True))
   \<and> CheckedSub a b = (case SafeSub a b of Inl _ \<Rightarrow> (0, False) | Inr c \<Rightarrow> (c, True))
   \<and> CheckedMul a b = (case SafeMul a b of Inl _ \<Rightarrow> (0, False) | Inr c \<Rightarrow> (c, True))
   \<and> MustAdd a b = SafeAdd a b \<and> MustSub a b = SafeSub a b"
  by (auto simp: CheckedAdd_def SafeAdd_def CheckedSub_def SafeSub_def CheckedMul_def SafeMul_def
      MustAdd_def MustSub_def Let_def)

end
