(* ===== verification/Tx_Types.thy ===== *)
theory Tx_Types
  imports Nova_Prelude
begin

text \<open>
  \<open>core/types/transaction.go\<close>: transactions, their expiry test and the canonical byte string that
  is signed. \<open>TxType\<close> is a \<open>uint8\<close> in the source and arrives from the network, so it stays an
  \<open>8 word\<close> with named constants: values without a constant reach the \<open>default\<close> branches.
\<close>

type_synonym TxType = u8

abbreviation TxTransfer :: TxType where "TxTransfer \<equiv> 0"
abbreviation TxStake :: TxType where "TxStake \<equiv> 1"
abbreviation TxUnstake :: TxType where "TxUnstake \<equiv> 2"
abbreviation TxDelegate :: TxType where "TxDelegate \<equiv> 3"
abbreviation TxWithdraw :: TxType where "TxWithdraw \<equiv> 4"
abbreviation TxGrant :: TxType where "TxGrant \<equiv> 5"
abbreviation TxBuyLicense :: TxType where "TxBuyLicense \<equiv> 6"

definition TxMaxAge :: i64 where
  "TxMaxAge = 5 * 60 * 1000000000"

record Transaction =
  txType :: TxType
  txFrom :: addr
  txTo :: addr
  txAmount :: u64
  txFee :: u64
  txNonce :: u64
  txTimestamp :: i64
  txSig :: bytes

definition IsExpired :: "Transaction \<Rightarrow> i64 \<Rightarrow> bool" where
  "IsExpired tx currentTime =
     (if txTimestamp tx = 0 then False
      else let age = currentTime - txTimestamp tx in
        TxMaxAge <s age \<or> age <s - TxMaxAge)"

definition SerializeForSigning :: "Transaction \<Rightarrow> bytes" where
  "SerializeForSigning tx =
     [txType tx]
     @ be_bytes 32 (txFrom tx)
     @ be_bytes 32 (txTo tx)
     @ be_bytes 8 (txAmount tx)
     @ be_bytes 8 (txFee tx)
     @ be_bytes 8 (txNonce tx)
     @ be_bytes 8 (txTimestamp tx)"

section \<open>Properties\<close>

lemma SerializeForSigning_eq_iff:
  "SerializeForSigning tx = SerializeForSigning tx' \<longleftrightarrow>
     txType tx = txType tx' \<and> txFrom tx = txFrom tx' \<and> txTo tx = txTo tx' \<and>
     txAmount tx = txAmount tx' \<and> txFee tx = txFee tx' \<and> txNonce tx = txNonce tx' \<and>
     txTimestamp tx = txTimestamp tx'"
  by (simp add: SerializeForSigning_def)

text \<open>The signed message is canonical. It is always 97 bytes long, and two transactions have
  the same message if and only if they agree in every field but the signature, so a signature
  over the message binds all of them and no field can be moved into another.\<close>

theorem serialize_injective:
  "length (SerializeForSigning tx) = 97
   \<and> (SerializeForSigning tx = SerializeForSigning tx' \<longleftrightarrow>
        tx\<lparr>txSig := []\<rparr> = tx'\<lparr>txSig := []\<rparr>)"
  by (cases tx; cases tx') (auto simp: SerializeForSigning_eq_iff, simp_all add: SerializeForSigning_def)

text \<open>The expiry test is the five-minute window of the documentation, in both directions, in
  spite of the wrap-around of the \<open>int64\<close> difference: for every clock value between 0 and five
  minutes before the end of the \<open>int64\<close> range and every time stamp whatsoever, a transaction is
  expired if and only if it has a time stamp (is not a legacy one) and that time stamp is more than
  300 seconds away from the clock, in the past or in the future.\<close>

theorem is_expired_window:
  assumes "0 \<le> sint now" and "sint now \<le> 2 ^ 63 - 1 - 300000000000"
  shows "IsExpired tx now \<longleftrightarrow>
    txTimestamp tx \<noteq> 0 \<and> 300000000000 < \<bar>sint now - sint (txTimestamp tx)\<bar>"
proof -
  let ?d = "sint now - sint (txTimestamp tx)"
  have b: "- (2 ^ 63) \<le> sint (txTimestamp tx)" "sint (txTimestamp tx) < 2 ^ 63"
    by (rule sint_i64_bounds)+
  have age: "sint (now - txTimestamp tx) = (if ?d < 2 ^ 63 then ?d else ?d - 2 ^ 64)"
  proof (cases "?d < 2 ^ 63")
    case True
    with assms b show ?thesis by (simp add: sint_sub_i64)
  next
    case False
    have "sint (now - txTimestamp tx) = signed_take_bit 63 (?d - 2 ^ 64)"
      by (simp add: sint_word_diff signed_take_bit_eq_iff_take_bit_eq take_bit_eq_mod mod_simps)
    also have "\<dots> = ?d - 2 ^ 64"
      using False assms b by (intro signed_take_bit_int_eq_self) auto
    finally show ?thesis using False by simp
  qed
  have m: "sint TxMaxAge = 300000000000" "sint (- TxMaxAge) = - 300000000000"
    by (simp_all add: TxMaxAge_def)
  show ?thesis
    using assms b by (auto simp: IsExpired_def Let_def word_sless_alt age m split: if_splits)
qed

definition sample_tx :: Transaction where
  "sample_tx = \<lparr>txType = TxTransfer, txFrom = 1, txTo = 2, txAmount = 500, txFee = 1000,
     txNonce = 1, txTimestamp = 1000000000000, txSig = [7, 7]\<rparr>"

theorem is_expired_window_witness:
  "\<not> IsExpired sample_tx 1300000000000 \<and> IsExpired sample_tx 1300000000001"
  using is_expired_window [of 1300000000000 sample_tx] is_expired_window [of 1300000000001 sample_tx]
  by (simp add: sample_tx_def)

end
