(* ===== verification/Ledger_State.thy ===== *)
theory Ledger_State
  imports Nova_Prelude
begin

text \<open>
  \<open>core/execution/state.go\<close>: the account store. A \<open>StateManager\<close> is an in-memory cache of accounts
  in front of the Badger database behind the global \<open>store.DB\<close> (\<open>None\<close> when the node runs
  without a database).

  Badger is a third-party package, so the database is a parameter: an abstract database state
  \<open>'d\<close>, abstract stored values \<open>'b\<close>, and a record \<open>badger\<close> of what the code calls: a read of a
  key inside \<open>View\<close>, an \<open>Update\<close> transaction that sets a list of keys (both may fail, \<open>None\<close>),
  and the gob image of an account. \<open>badger_ok\<close> states the documented behaviour the code relies
  on: a committed transaction is visible to later reads and changes no other key, and decoding
  the image of an account gives the account back.

  Every operation of the source holds the manager's mutex from its first to its last statement,
  so one operation is one atomic step; it takes the manager and returns the updated one.
  A nil delegation map and an empty one are both the empty map: the code initialises it
  before every write and reading either gives 0.
\<close>

section \<open>Data\<close>

record Account =
  accAddress :: addr
  accBalance :: u64
  accStake :: u64
  accGrantStake :: u64
  accUnbondingBalance :: u64
  accUnbondingRelease :: i64
  accNonce :: u64
  accDelegations :: "addr \<rightharpoonup> u64"

record ('d, 'b) badger =
  badger_get :: "'d \<Rightarrow> bytes \<Rightarrow> 'b option"
  badger_update :: "'d \<Rightarrow> (bytes \<times> 'b) list \<Rightarrow> 'd option"
  gob_account :: "Account \<Rightarrow> 'b option"
  ungob_account :: "'b \<Rightarrow> Account option"

record 'd StateManager =
  smAccounts :: "addr \<rightharpoonup> Account"
  storeDB :: "'d option"

datatype StateErr = ErrAccountNotFound | ErrPersistFailed

definition NewStateManager :: "'d option \<Rightarrow> 'd StateManager" where
  "NewStateManager db = \<lparr>smAccounts = Map.empty, storeDB = db\<rparr>"

definition zeroAccount :: Account where
  "zeroAccount = \<lparr>accAddress = 0, accBalance = 0, accStake = 0, accGrantStake = 0,
     accUnbondingBalance = 0, accUnbondingRelease = 0, accNonce = 0, accDelegations = Map.empty\<rparr>"

text \<open>\<open>append([]byte("a:"), addr[:]...)\<close>\<close>

definition account_key :: "addr \<Rightarrow> bytes" where
  "account_key a = [0x61, 0x3A] @ be_bytes 32 a"

section \<open>Operations\<close>

text \<open>Without a database \<open>store_DB_View\<close> reports no error, so the zero account is returned.\<close>

definition loadAccountFromDB :: "('d, 'b) badger \<Rightarrow> 'd StateManager \<Rightarrow> addr \<Rightarrow> Account option" where
  "loadAccountFromDB K sm a =
     (case storeDB sm of
        None \<Rightarrow> Some zeroAccount
      | Some d \<Rightarrow>
          (case badger_get K d (account_key a) of
             None \<Rightarrow> None
           | Some val \<Rightarrow> ungob_account K val))"

definition getOrLoadAccountLocked ::
  "('d, 'b) badger \<Rightarrow> 'd StateManager \<Rightarrow> addr \<Rightarrow> Account option \<times> 'd StateManager" where
  "getOrLoadAccountLocked K sm a =
     (case smAccounts sm a of
        Some acc \<Rightarrow> (Some acc, sm)
      | None \<Rightarrow>
          (case loadAccountFromDB K sm a of
             Some acc \<Rightarrow> (Some acc, sm\<lparr>smAccounts := (smAccounts sm)(a \<mapsto> acc)\<rparr>)
           | None \<Rightarrow> (None, sm)))"

definition getOrCreateAccountLocked ::
  "('d, 'b) badger \<Rightarrow> 'd StateManager \<Rightarrow> addr \<Rightarrow> Account \<times> 'd StateManager" where
  "getOrCreateAccountLocked K sm a =
     (case getOrLoadAccountLocked K sm a of
        (Some acc, sm) \<Rightarrow> (acc, sm)
      | (None, sm) \<Rightarrow>
          let acc = zeroAccount\<lparr>accAddress := a\<rparr> in
          (acc, sm\<lparr>smAccounts := (smAccounts sm)(a \<mapsto> acc)\<rparr>))"

definition persistAccount ::
  "('d, 'b) badger \<Rightarrow> 'd StateManager \<Rightarrow> Account \<Rightarrow> StateErr option \<times> 'd StateManager" where
  "persistAccount K sm acc =
     (case storeDB sm of
        None \<Rightarrow> (None, sm)
      | Some d \<Rightarrow>
          (case gob_account K acc of
             None \<Rightarrow> (Some ErrPersistFailed, sm)
           | Some val \<Rightarrow>
               (case badger_update K d [(account_key (accAddress acc), val)] of
                  None \<Rightarrow> (Some ErrPersistFailed, sm)
                | Some d' \<Rightarrow> (None, sm\<lparr>storeDB := Some d'\<rparr>))))"

text \<open>The common shape of the setters: fetch or create the account, change it in place through
  its pointer, persist it (the result of \<open>persistAccount\<close> is discarded by every caller).\<close>

definition mutateAccount ::
  "('d, 'b) badger \<Rightarrow> 'd StateManager \<Rightarrow> addr \<Rightarrow> (Account \<Rightarrow> Account) \<Rightarrow> 'd StateManager" where
  "mutateAccount K sm a f =
     (let (acc, sm) = getOrCreateAccountLocked K sm a;
          sm = sm\<lparr>smAccounts := (smAccounts sm)(a \<mapsto> f acc)\<rparr>
      in snd (persistAccount K sm (f acc)))"

definition GetBalance :: "('d, 'b) badger \<Rightarrow> 'd StateManager \<Rightarrow> addr \<Rightarrow> u64 \<times> 'd StateManager" where
  "GetBalance K sm a =
     (case getOrLoadAccountLocked K sm a of
        (Some acc, sm) \<Rightarrow> (accBalance acc, sm) | (None, sm) \<Rightarrow> (0, sm))"

definition SetBalance :: "('d, 'b) badger \<Rightarrow> 'd StateManager \<Rightarrow> addr \<Rightarrow> u64 \<Rightarrow> 'd StateManager" where
  "SetBalance K sm a amount = mutateAccount K sm a (\<lambda>acc. acc\<lparr>accBalance := amount\<rparr>)"

definition GetStake :: "('d, 'b) badger \<Rightarrow> 'd StateManager \<Rightarrow> addr \<Rightarrow> u64 \<times> 'd StateManager" where
  "GetStake K sm a =
     (case getOrLoadAccountLocked K sm a of
        (Some acc, sm) \<Rightarrow> (accStake acc, sm) | (None, sm) \<Rightarrow> (0, sm))"

definition SetStake :: "('d, 'b) badger \<Rightarrow> 'd StateManager \<Rightarrow> addr \<Rightarrow> u64 \<Rightarrow> 'd StateManager" where
  "SetStake K sm a amount = mutateAccount K sm a (\<lambda>acc. acc\<lparr>accStake := amount\<rparr>)"

definition GetUnbonding ::
  "('d, 'b) badger \<Rightarrow> 'd StateManager \<Rightarrow> addr \<Rightarrow> (u64 \<times> i64) \<times> 'd StateManager" where
  "GetUnbonding K sm a =
     (case getOrLoadAccountLocked K sm a of
        (Some acc, sm) \<Rightarrow> ((accUnbondingBalance acc, accUnbondingRelease acc), sm)
      | (None, sm) \<Rightarrow> ((0, 0), sm))"

definition SetUnbonding ::
  "('d, 'b) badger \<Rightarrow> 'd StateManager \<Rightarrow> addr \<Rightarrow> u64 \<Rightarrow> i64 \<Rightarrow> 'd StateManager" where
  "SetUnbonding K sm a amount releaseTime = mutateAccount K sm a
     (\<lambda>acc. acc\<lparr>accUnbondingBalance := amount, accUnbondingRelease := releaseTime\<rparr>)"

definition GetGrantStake :: "('d, 'b) badger \<Rightarrow> 'd StateManager \<Rightarrow> addr \<Rightarrow> u64 \<times> 'd StateManager" where
  "GetGrantStake K sm a =
     (case getOrLoadAccountLocked K sm a of
        (Some acc, sm) \<Rightarrow> (accGrantStake acc, sm) | (None, sm) \<Rightarrow> (0, sm))"

definition SetGrantStake :: "('d, 'b) badger \<Rightarrow> 'd StateManager \<Rightarrow> addr \<Rightarrow> u64 \<Rightarrow> 'd StateManager" where
  "SetGrantStake K sm a amount = mutateAccount K sm a (\<lambda>acc. acc\<lparr>accGrantStake := amount\<rparr>)"

definition AddGrantStake :: "('d, 'b) badger \<Rightarrow> 'd StateManager \<Rightarrow> addr \<Rightarrow> u64 \<Rightarrow> 'd StateManager" where
  "AddGrantStake K sm a amount =
     mutateAccount K sm a (\<lambda>acc. acc\<lparr>accGrantStake := accGrantStake acc + amount\<rparr>)"

definition GetDelegation ::
  "('d, 'b) badger \<Rightarrow> 'd StateManager \<Rightarrow> addr \<Rightarrow> addr \<Rightarrow> u64 \<times> 'd StateManager" where
  "GetDelegation K sm delegator validator =
     (case getOrLoadAccountLocked K sm delegator of
        (Some acc, sm) \<Rightarrow> (case accDelegations acc validator of Some v \<Rightarrow> v | None \<Rightarrow> 0, sm)
      | (None, sm) \<Rightarrow> (0, sm))"

definition SetDelegation ::
  "('d, 'b) badger \<Rightarrow> 'd StateManager \<Rightarrow> addr \<Rightarrow> addr \<Rightarrow> u64 \<Rightarrow> 'd StateManager" where
  "SetDelegation K sm delegator validator amount = mutateAccount K sm delegator
     (\<lambda>acc. acc\<lparr>accDelegations := (accDelegations acc)(validator \<mapsto> amount)\<rparr>)"

definition GetNonce :: "('d, 'b) badger \<Rightarrow> 'd StateManager \<Rightarrow> addr \<Rightarrow> u64 \<times> 'd StateManager" where
  "GetNonce K sm a =
     (case getOrLoadAccountLocked K sm a of
        (Some acc, sm) \<Rightarrow> (accNonce acc, sm) | (None, sm) \<Rightarrow> (0, sm))"

definition SetNonce :: "('d, 'b) badger \<Rightarrow> 'd StateManager \<Rightarrow> addr \<Rightarrow> u64 \<Rightarrow> 'd StateManager" where
  "SetNonce K sm a nonce = mutateAccount K sm a (\<lambda>acc. acc\<lparr>accNonce := nonce\<rparr>)"

text \<open>The callback of \<open>IterateDelegations\<close> threads a state of type \<open>'r\<close> and runs over the
  delegations in an order \<open>ks\<close> of the map's keys.\<close>

definition IterateDelegations ::
  "('d, 'b) badger \<Rightarrow> 'd StateManager \<Rightarrow> addr \<Rightarrow> addr list \<Rightarrow> (addr \<Rightarrow> u64 \<Rightarrow> 'r \<Rightarrow> 'r) \<Rightarrow> 'r
     \<Rightarrow> 'r \<times> 'd StateManager" where
  "IterateDelegations K sm delegator ks fn r =
     (case getOrLoadAccountLocked K sm delegator of
        (Some acc, sm) \<Rightarrow>
          (fold (\<lambda>v r. case accDelegations acc v of Some a \<Rightarrow> fn v a r | None \<Rightarrow> r) ks r, sm)
      | (None, sm) \<Rightarrow> (r, sm))"

text \<open>The copy that \<open>GetAccount\<close> makes is the value itself here.\<close>

definition GetAccount ::
  "('d, 'b) badger \<Rightarrow> 'd StateManager \<Rightarrow> addr \<Rightarrow> Account option \<times> 'd StateManager" where
  "GetAccount K sm a = getOrLoadAccountLocked K sm a"

definition AccountExists ::
  "('d, 'b) badger \<Rightarrow> 'd StateManager \<Rightarrow> addr \<Rightarrow> bool \<times> 'd StateManager" where
  "AccountExists K sm a =
     (case getOrLoadAccountLocked K sm a of (acc, sm) \<Rightarrow> (acc \<noteq> None, sm))"

section \<open>The accounts a manager stands for\<close>

text \<open>\<open>view K sm a\<close> is the account every read of address \<open>a\<close> sees: the cached one, else the stored
  one, else a fresh one. \<open>touch\<close> is the only effect of a read: it may fill the cache.\<close>

definition view :: "('d, 'b) badger \<Rightarrow> 'd StateManager \<Rightarrow> addr \<Rightarrow> Account" where
  "view K sm a =
     (case fst (getOrLoadAccountLocked K sm a) of
        Some acc \<Rightarrow> acc | None \<Rightarrow> zeroAccount\<lparr>accAddress := a\<rparr>)"

definition touch :: "('d, 'b) badger \<Rightarrow> 'd StateManager \<Rightarrow> addr \<Rightarrow> 'd StateManager" where
  "touch K sm a = snd (getOrLoadAccountLocked K sm a)"

definition badger_ok :: "('d, 'b) badger \<Rightarrow> bool" where
  "badger_ok K \<longleftrightarrow>
     (\<forall>d ws d' k. badger_update K d ws = Some d' \<longrightarrow>
        badger_get K d' k = (case map_of (rev ws) k of Some v \<Rightarrow> Some v | None \<Rightarrow> badger_get K d k))
     \<and> (\<forall>acc val. gob_account K acc = Some val \<longrightarrow> ungob_account K val = Some acc)"

text \<open>The invariant of a manager over a database: cached and stored accounts carry the address
  they are filed under (\<open>persistAccount\<close> files them by that field).\<close>

definition sm_wf :: "('d, 'b) badger \<Rightarrow> 'd StateManager \<Rightarrow> bool" where
  "sm_wf K sm \<longleftrightarrow>
     (storeDB sm \<noteq> None \<longrightarrow>
        badger_ok K
        \<and> (\<forall>a acc. smAccounts sm a = Some acc \<longrightarrow> accAddress acc = a)
        \<and> (\<forall>a acc. loadAccountFromDB K sm a = Some acc \<longrightarrow> accAddress acc = a))"

lemma account_key_inject [simp]: "account_key a = account_key b \<longleftrightarrow> a = b"
  by (simp add: account_key_def)

lemmas load_defs = view_def touch_def getOrLoadAccountLocked_def

lemma storeDB_touch [simp]: "storeDB (touch K sm a) = storeDB sm"
  by (auto simp: load_defs split: option.splits)

lemma load_touch [simp]: "loadAccountFromDB K (touch K sm a) = loadAccountFromDB K sm"
  by (rule ext) (simp add: loadAccountFromDB_def)

lemma view_touch [simp]: "view K (touch K sm a) = view K sm"
  by (rule ext)
    (auto simp: load_defs loadAccountFromDB_def split: option.splits if_splits)

lemma sm_wf_touch [simp]: "sm_wf K sm \<Longrightarrow> sm_wf K (touch K sm a)"
  unfolding sm_wf_def load_touch storeDB_touch
  by (auto simp: touch_def getOrLoadAccountLocked_def split: option.splits if_splits)

text \<open>Every read is the field of the view, and fills the cache.\<close>

lemma get_eq:
  "GetBalance K sm a = (accBalance (view K sm a), touch K sm a)"
  "GetStake K sm a = (accStake (view K sm a), touch K sm a)"
  "GetGrantStake K sm a = (accGrantStake (view K sm a), touch K sm a)"
  "GetUnbonding K sm a =
     ((accUnbondingBalance (view K sm a), accUnbondingRelease (view K sm a)), touch K sm a)"
  "GetNonce K sm a = (accNonce (view K sm a), touch K sm a)"
  "GetDelegation K sm a v =
     (case accDelegations (view K sm a) v of Some x \<Rightarrow> x | None \<Rightarrow> 0, touch K sm a)"
  by (auto simp: view_def touch_def GetBalance_def GetStake_def GetGrantStake_def GetUnbonding_def
      GetNonce_def GetDelegation_def zeroAccount_def split: prod.splits option.splits)

lemma getOrCreate_eq:
  "fst (getOrCreateAccountLocked K sm a) = view K sm a"
  "smAccounts (snd (getOrCreateAccountLocked K sm a)) = (smAccounts sm)(a \<mapsto> view K sm a)"
  "storeDB (snd (getOrCreateAccountLocked K sm a)) = storeDB sm"
  by (auto simp: getOrCreateAccountLocked_def view_def getOrLoadAccountLocked_def Let_def fun_eq_iff
      split: option.splits)

lemma mutate_accounts:
  "smAccounts (mutateAccount K sm a f) = (smAccounts sm)(a \<mapsto> f (view K sm a))"
  using getOrCreate_eq [of K sm a]
  by (auto simp: mutateAccount_def persistAccount_def Let_def split: prod.splits option.splits)

lemma mutate_storeDB_None: "storeDB (mutateAccount K sm a f) = None \<longleftrightarrow> storeDB sm = None"
  using getOrCreate_eq [of K sm a]
  by (cases "storeDB sm") (auto simp: mutateAccount_def persistAccount_def Let_def split: prod.splits option.splits)

lemma mutate_storeDB:
  assumes "storeDB sm = Some d" and "accAddress (f (view K sm a)) = a"
  shows "storeDB (mutateAccount K sm a f) =
    (case gob_account K (f (view K sm a)) of
       None \<Rightarrow> Some d
     | Some val \<Rightarrow>
         (case badger_update K d [(account_key a, val)] of None \<Rightarrow> Some d | Some d' \<Rightarrow> Some d'))"
  using getOrCreate_eq [of K sm a] assms
  by (auto simp: mutateAccount_def persistAccount_def Let_def split: prod.splits option.splits)

lemma view_address: "sm_wf K sm \<Longrightarrow> storeDB sm \<noteq> None \<Longrightarrow> accAddress (view K sm a) = a"
  by (auto simp: sm_wf_def view_def getOrLoadAccountLocked_def split: option.splits)

lemma load_mutate_cases:
  assumes "sm_wf K sm" and "storeDB sm \<noteq> None" and "\<And>acc. accAddress (f acc) = accAddress acc"
  shows "loadAccountFromDB K (mutateAccount K sm a f) b = loadAccountFromDB K sm b
    \<or> (b = a \<and> loadAccountFromDB K (mutateAccount K sm a f) b = Some (f (view K sm a)))"
proof -
  obtain d where d: "storeDB sm = Some d" using assms(2) by auto
  have ok: "badger_ok K" using assms(1,2) by (simp add: sm_wf_def)
  have addr: "accAddress (f (view K sm a)) = a"
    using assms view_address [of K sm a] by simp
  show ?thesis
    using mutate_storeDB [of sm d f K a, OF d addr] ok d
    by (auto simp: loadAccountFromDB_def badger_ok_def split: option.splits if_splits)
qed

lemma view_mutate:
  assumes "sm_wf K sm" and "\<And>acc. accAddress (f acc) = accAddress acc"
  shows "view K (mutateAccount K sm a f) = (view K sm)(a := f (view K sm a))"
proof
  fix b
  show "view K (mutateAccount K sm a f) b = ((view K sm)(a := f (view K sm a))) b"
  proof (cases "b = a \<or> smAccounts sm b \<noteq> None")
    case True
    then show ?thesis
      by (auto simp: view_def [of K _ b] getOrLoadAccountLocked_def mutate_accounts)
  next
    case False
    then have n: "b \<noteq> a" "smAccounts sm b = None" by auto
    have "loadAccountFromDB K (mutateAccount K sm a f) b = loadAccountFromDB K sm b"
    proof (cases "storeDB sm")
      case None
      then have "storeDB (mutateAccount K sm a f) = None" by (simp add: mutate_storeDB_None)
      with None show ?thesis by (simp add: loadAccountFromDB_def)
    next
      case (Some d)
      then show ?thesis using load_mutate_cases [OF assms(1) _ assms(2), of a b] n by auto
    qed
    with n show ?thesis
      by (simp add: view_def [of K _ b] getOrLoadAccountLocked_def mutate_accounts split: option.splits)
  qed
qed

lemma sm_wf_mutate:
  assumes "sm_wf K sm" and "\<And>acc. accAddress (f acc) = accAddress acc"
  shows "sm_wf K (mutateAccount K sm a f)"
proof (cases "storeDB sm = None")
  case True
  then show ?thesis by (simp add: sm_wf_def mutate_storeDB_None)
next
  case False
  then have v: "accAddress (f (view K sm a)) = a"
    using assms view_address [of K sm a] by simp
  have ok: "badger_ok K" "\<And>b acc. smAccounts sm b = Some acc \<Longrightarrow> accAddress acc = b"
    "\<And>b acc. loadAccountFromDB K sm b = Some acc \<Longrightarrow> accAddress acc = b"
    using assms(1) False by (auto simp: sm_wf_def)
  have "accAddress acc = b" if "loadAccountFromDB K (mutateAccount K sm a f) b = Some acc" for b acc
    using load_mutate_cases [OF assms(1) False assms(2), of a b] that v ok(3) by auto
  then show ?thesis
    using ok v by (auto simp: sm_wf_def mutate_accounts split: if_splits)
qed

text \<open>The effect of the setters on the view, and that they keep the invariant.\<close>

lemma view_set [simp]:
  assumes "sm_wf K sm"
  shows
    "view K (SetBalance K sm a x) = (view K sm)(a := (view K sm a)\<lparr>accBalance := x\<rparr>)"
    "view K (SetStake K sm a x) = (view K sm)(a := (view K sm a)\<lparr>accStake := x\<rparr>)"
    "view K (SetGrantStake K sm a x) = (view K sm)(a := (view K sm a)\<lparr>accGrantStake := x\<rparr>)"
    "view K (AddGrantStake K sm a x) =
       (view K sm)(a := (view K sm a)\<lparr>accGrantStake := accGrantStake (view K sm a) + x\<rparr>)"
    "view K (SetUnbonding K sm a x t) = (view K sm)(a := (view K sm a)
       \<lparr>accUnbondingBalance := x, accUnbondingRelease := t\<rparr>)"
    "view K (SetNonce K sm a x) = (view K sm)(a := (view K sm a)\<lparr>accNonce := x\<rparr>)"
    "view K (SetDelegation K sm a v x) = (view K sm)(a := (view K sm a)
       \<lparr>accDelegations := (accDelegations (view K sm a))(v \<mapsto> x)\<rparr>)"
  using assms
  by (simp_all add: SetBalance_def SetStake_def SetGrantStake_def AddGrantStake_def
      SetUnbonding_def SetNonce_def SetDelegation_def view_mutate)

lemma sm_wf_set [simp]:
  assumes "sm_wf K sm"
  shows "sm_wf K (SetBalance K sm a x)" "sm_wf K (SetStake K sm a x)"
    "sm_wf K (SetGrantStake K sm a x)" "sm_wf K (AddGrantStake K sm a x)"
    "sm_wf K (SetUnbonding K sm a x t)" "sm_wf K (SetNonce K sm a x)"
    "sm_wf K (SetDelegation K sm a v x)"
  using assms
  by (simp_all add: SetBalance_def SetStake_def SetGrantStake_def AddGrantStake_def
      SetUnbonding_def SetNonce_def SetDelegation_def sm_wf_mutate)

section \<open>The interface the executor and the node rely on\<close>

text \<open>
  Each \<open>uint64\<close> field of the accounts is a cell per address with a getter and a setter. The
  contract: a read after a write sees the value written at that address and the old value
  everywhere else, and a write keeps the manager's invariant.
\<close>

locale account_cell =
  fixes get :: "'s \<Rightarrow> addr \<Rightarrow> u64"
    and set :: "'s \<Rightarrow> addr \<Rightarrow> u64 \<Rightarrow> 's"
    and inv :: "'s \<Rightarrow> bool"
  assumes get_set: "inv s \<Longrightarrow> get (set s a v) b = (if b = a then v else get s b)"
    and inv_set: "inv s \<Longrightarrow> inv (set s a v)"
begin

lemma get_set_fun: "inv s \<Longrightarrow> get (set s a v) = (get s)(a := v)"
  by (rule ext) (simp add: get_set)

lemma total_set: "inv s \<Longrightarrow> total_u64 (get (set s a v)) + unat (get s a) = total_u64 (get s) + unat v"
  using total_u64_upd [of "get s" a v] by (simp add: get_set_fun)

end

interpretation balance: account_cell "\<lambda>sm a. fst (GetBalance K sm a)" "SetBalance K" "sm_wf K"
  for K :: "('d, 'b) badger"
  by unfold_locales (simp_all add: get_eq)

interpretation stake: account_cell "\<lambda>sm a. fst (GetStake K sm a)" "SetStake K" "sm_wf K"
  for K :: "('d, 'b) badger"
  by unfold_locales (simp_all add: get_eq)

interpretation grant: account_cell "\<lambda>sm a. fst (GetGrantStake K sm a)" "SetGrantStake K" "sm_wf K"
  for K :: "('d, 'b) badger"
  by unfold_locales (simp_all add: get_eq)

interpretation nonce: account_cell "\<lambda>sm a. fst (GetNonce K sm a)" "SetNonce K" "sm_wf K"
  for K :: "('d, 'b) badger"
  by unfold_locales (simp_all add: get_eq)

section \<open>Durability\<close>

datatype state_op =
    OpSetBalance addr u64
  | OpSetStake addr u64
  | OpSetUnbonding addr u64 i64
  | OpSetGrantStake addr u64
  | OpAddGrantStake addr u64
  | OpSetDelegation addr addr u64
  | OpSetNonce addr u64
  | OpRead addr

fun state_step :: "('d, 'b) badger \<Rightarrow> 'd StateManager \<Rightarrow> state_op \<Rightarrow> 'd StateManager" where
  "state_step K sm (OpSetBalance a x) = SetBalance K sm a x"
| "state_step K sm (OpSetStake a x) = SetStake K sm a x"
| "state_step K sm (OpSetUnbonding a x t) = SetUnbonding K sm a x t"
| "state_step K sm (OpSetGrantStake a x) = SetGrantStake K sm a x"
| "state_step K sm (OpAddGrantStake a x) = AddGrantStake K sm a x"
| "state_step K sm (OpSetDelegation a v x) = SetDelegation K sm a v x"
| "state_step K sm (OpSetNonce a x) = SetNonce K sm a x"
| "state_step K sm (OpRead a) = snd (GetAccount K sm a)"

text \<open>What an operation means for the accounts themselves.\<close>

fun account_effect :: "(addr \<Rightarrow> Account) \<Rightarrow> state_op \<Rightarrow> addr \<Rightarrow> Account" where
  "account_effect A (OpSetBalance a x) = A(a := (A a)\<lparr>accBalance := x\<rparr>)"
| "account_effect A (OpSetStake a x) = A(a := (A a)\<lparr>accStake := x\<rparr>)"
| "account_effect A (OpSetUnbonding a x t) =
     A(a := (A a)\<lparr>accUnbondingBalance := x, accUnbondingRelease := t\<rparr>)"
| "account_effect A (OpSetGrantStake a x) = A(a := (A a)\<lparr>accGrantStake := x\<rparr>)"
| "account_effect A (OpAddGrantStake a x) = A(a := (A a)\<lparr>accGrantStake := accGrantStake (A a) + x\<rparr>)"
| "account_effect A (OpSetDelegation a v x) =
     A(a := (A a)\<lparr>accDelegations := (accDelegations (A a))(v \<mapsto> x)\<rparr>)"
| "account_effect A (OpSetNonce a x) = A(a := (A a)\<lparr>accNonce := x\<rparr>)"
| "account_effect A (OpRead a) = A"

text \<open>A database on which no transaction fails, filled with accounts filed by their address.\<close>

definition reliable_db :: "('d, 'b) badger \<Rightarrow> 'd \<Rightarrow> bool" where
  "reliable_db K d \<longleftrightarrow> badger_ok K
     \<and> (\<forall>acc. gob_account K acc \<noteq> None) \<and> (\<forall>e ws. badger_update K e ws \<noteq> None)
     \<and> (\<forall>a acc. loadAccountFromDB K (NewStateManager (Some d)) a = Some acc \<longrightarrow> accAddress acc = a)"

text \<open>Write-through: what is cached is stored.\<close>

definition synced :: "('d, 'b) badger \<Rightarrow> 'd StateManager \<Rightarrow> bool" where
  "synced K sm \<longleftrightarrow> sm_wf K sm \<and> (\<exists>d. storeDB sm = Some d \<and> reliable_db K d)
     \<and> (\<forall>a acc. smAccounts sm a = Some acc \<longrightarrow> loadAccountFromDB K sm a = Some acc)"

lemma load_new: "loadAccountFromDB K (NewStateManager (storeDB sm)) = loadAccountFromDB K sm"
  by (rule ext) (simp add: loadAccountFromDB_def NewStateManager_def)

lemma synced_new: "reliable_db K d \<Longrightarrow> synced K (NewStateManager (Some d))"
  by (auto simp: synced_def sm_wf_def reliable_db_def NewStateManager_def)

lemma touch_cached:
  "smAccounts (touch K sm a) b = Some acc \<Longrightarrow>
     smAccounts sm b = Some acc \<or> loadAccountFromDB K sm b = Some acc"
  by (auto simp: touch_def getOrLoadAccountLocked_def split: option.splits if_splits)

lemma synced_touch: "synced K sm \<Longrightarrow> synced K (touch K sm a)"
  unfolding synced_def load_touch storeDB_touch using touch_cached by fastforce

lemma synced_mutate:
  assumes "synced K sm" and f: "\<And>acc. accAddress (f acc) = accAddress acc"
  shows "synced K (mutateAccount K sm a f)"
proof -
  from assms obtain d where wf: "sm_wf K sm" and d: "storeDB sm = Some d" and rel: "reliable_db K d"
    and old: "\<And>b acc. smAccounts sm b = Some acc \<Longrightarrow> loadAccountFromDB K sm b = Some acc"
    by (auto simp: synced_def)
  have addr: "accAddress (f (view K sm a)) = a"
    using wf d f view_address [of K sm a] by simp
  obtain val where val: "gob_account K (f (view K sm a)) = Some val"
    using rel unfolding reliable_db_def by blast
  obtain d' where d': "badger_update K d [(account_key a, val)] = Some d'"
    using rel unfolding reliable_db_def by blast
  have db: "storeDB (mutateAccount K sm a f) = Some d'"
    using mutate_storeDB [of sm d f K a, OF d addr] val d' by simp
  have ok: "badger_ok K" using rel by (simp add: reliable_db_def)
  have load: "loadAccountFromDB K (mutateAccount K sm a f) b =
      (if b = a then Some (f (view K sm a)) else loadAccountFromDB K sm b)" for b
    using ok d' val d db by (auto simp: loadAccountFromDB_def badger_ok_def)
  have wf': "sm_wf K (mutateAccount K sm a f)" using wf f by (rule sm_wf_mutate)
  then have "reliable_db K d'"
    using rel db load_new [of K "mutateAccount K sm a f"] by (simp add: reliable_db_def sm_wf_def)
  with wf' db load old show ?thesis by (simp add: synced_def mutate_accounts)
qed

lemmas setter_defs = SetBalance_def SetStake_def SetGrantStake_def AddGrantStake_def
  SetUnbonding_def SetNonce_def SetDelegation_def

lemma synced_step: "synced K sm \<Longrightarrow> synced K (state_step K sm e)"
  by (cases e) (auto simp: setter_defs GetAccount_def synced_touch simp flip: touch_def
      intro!: synced_mutate)

lemma view_state_step: "sm_wf K sm \<Longrightarrow> view K (state_step K sm e) = account_effect (view K sm) e"
  by (cases e) (simp_all add: GetAccount_def flip: touch_def)

lemma sm_wf_state_step: "sm_wf K sm \<Longrightarrow> sm_wf K (state_step K sm e)"
  by (cases e) (simp_all add: GetAccount_def flip: touch_def)

interpretation managed: op_system "state_step K" "sm_wf K" for K :: "('d, 'b) badger"
  by unfold_locales (rule sm_wf_state_step)

interpretation durable: op_system "state_step K" "synced K" for K :: "('d, 'b) badger"
  by unfold_locales (rule synced_step)

lemma view_run: "sm_wf K sm \<Longrightarrow> view K (foldl (state_step K) sm es) = foldl account_effect (view K sm) es"
  by (induction es arbitrary: sm) (simp_all add: view_state_step sm_wf_state_step)

lemma view_restart: "synced K sm \<Longrightarrow> view K (NewStateManager (storeDB sm)) = view K sm"
proof
  fix a
  assume s: "synced K sm"
  have "smAccounts (NewStateManager (storeDB sm)) a = None" by (simp add: NewStateManager_def)
  moreover have "loadAccountFromDB K sm a = Some acc" if "smAccounts sm a = Some acc" for acc
    using s that by (simp add: synced_def)
  ultimately show "view K (NewStateManager (storeDB sm)) a = view K sm a"
    by (cases "smAccounts sm a")
      (simp_all add: view_def getOrLoadAccountLocked_def load_new split: option.splits)
qed

text \<open>C7: the cache in front of the database is transparent, and the account store survives a
  restart. From a fresh manager over any database on which transactions commit, after any sequence
  of setter calls and reads, (1) the accounts seen are those of the plain sequential semantics of
  the operations, with no effect of caching, and (2) a new manager opened over the database as it
  then is sees exactly the same account at every address.\<close>

theorem state_durable:
  assumes "reliable_db K d"
    and "sm = foldl (state_step K) (NewStateManager (Some d)) ops"
  shows "view K sm = foldl account_effect (view K (NewStateManager (Some d))) ops
    \<and> view K (NewStateManager (storeDB sm)) = view K sm"
proof
  have s: "synced K (NewStateManager (Some d))" using assms(1) by (rule synced_new)
  then show "view K sm = foldl account_effect (view K (NewStateManager (Some d))) ops"
    unfolding assms(2) by (simp add: view_run synced_def)
  show "view K (NewStateManager (storeDB sm)) = view K sm"
    unfolding assms(2) using s by (intro view_restart durable.inv_run)
qed

text \<open>A concrete database for the witnesses: a map from keys to accounts, every transaction of
  which commits.\<close>

definition mem_badger :: "(bytes \<rightharpoonup> Account, Account) badger" where
  "mem_badger = \<lparr>badger_get = (\<lambda>d k. d k),
     badger_update = (\<lambda>d ws. Some (d ++ map_of (rev ws))),
     gob_account = Some, ungob_account = Some\<rparr>"

lemma mem_badger_ok [simp]: "badger_ok mem_badger"
  by (auto simp: badger_ok_def mem_badger_def map_add_def split: option.splits)

lemma mem_badger_reliable: "reliable_db mem_badger Map.empty"
  by (simp add: reliable_db_def loadAccountFromDB_def NewStateManager_def)
    (simp add: mem_badger_def)

theorem state_durable_witness:
  "accBalance (view mem_badger (NewStateManager (storeDB (foldl (state_step mem_badger)
     (NewStateManager (Some Map.empty)) [OpSetBalance 1 70, OpRead 2, OpSetStake 2 9]))) 1) = 70"
  using state_durable [OF mem_badger_reliable refl, of "[OpSetBalance 1 70, OpRead 2, OpSetStake 2 9]"]
  by simp

text \<open>Without a database every address has an account, known or not: \<open>loadAccountFromDB\<close> takes the
  absence of an error from the skipped \<open>View\<close> for a stored zero account.\<close>

lemma account_exists_without_db: "storeDB sm = None \<Longrightarrow> fst (AccountExists K sm a)"
  by (auto simp: AccountExists_def getOrLoadAccountLocked_def loadAccountFromDB_def
      split: option.splits)

end
