(* ===== verification/Executor.thy ===== *)
theory Executor
  imports Safe_Math Tx_Types Ledger_State
begin

text \<open>
  \<open>core/execution/executor.go\<close>: the transaction executor. Every handler takes the manager and
  returns the Go result and the updated manager; each \<open>e.State\<close> call is one operation of
  \<open>Ledger_State\<close>, in the order of the source. The \<open>fmt.Printf\<close> lines are not modelled.

  The second part is the abstract ledger: unbounded natural numbers per address, and for each
  transaction type the guard and the effect of the documentation's table. \<open>execute_refines\<close> is
  the refinement: the executor succeeds exactly when the abstract step is enabled, and then its
  accounts are the abstract result; otherwise no account changes.
\<close>

section \<open>The handlers\<close>

definition executeTransfer ::
  "('d, 'b) badger \<Rightarrow> 'd StateManager \<Rightarrow> Transaction \<Rightarrow> bool \<times> 'd StateManager" where
  "executeTransfer K sm tx =
     (if txAmount tx = 0 then (False, sm)
      else if txFrom tx = txTo tx then (False, sm)
      else case SafeAdd (txAmount tx) (txFee tx) of
        Inl err \<Rightarrow> (False, sm)
      | Inr totalCost \<Rightarrow>
          let (senderBal, sm) = GetBalance K sm (txFrom tx) in
          if senderBal < totalCost then (False, sm)
          else case SafeSub senderBal totalCost of
            Inl err \<Rightarrow> (False, sm)
          | Inr newSenderBal \<Rightarrow>
              let sm = SetBalance K sm (txFrom tx) newSenderBal;
                  (receiverBal, sm) = GetBalance K sm (txTo tx) in
              (case SafeAdd receiverBal (txAmount tx) of
                 Inl err \<Rightarrow> (False, SetBalance K sm (txFrom tx) senderBal)
               | Inr newReceiverBal \<Rightarrow> (True, SetBalance K sm (txTo tx) newReceiverBal)))"

text \<open>The halving schedule of \<open>ApplyBlockReward\<close> (its step 1).\<close>

definition baseReward :: "i64 \<Rightarrow> u64" where
  "baseReward timestamp =
     (let tsSeconds = go_sdiv timestamp 1000000000;
          elapsed = tsSeconds - 1735689600;
          elapsed = (if elapsed <s 0 then 0 else elapsed);
          halvings = go_sdiv elapsed 63072000;
          reward = 500 * 1000000;
          reward = (if 0 <s halvings then drop_bit (unat halvings) reward else reward)
      in if reward = 0 then 1 else reward)"

definition ApplyBlockReward ::
  "('d, 'b) badger \<Rightarrow> 'd StateManager \<Rightarrow> addr \<Rightarrow> u64 \<Rightarrow> i64 \<Rightarrow> 'd StateManager" where
  "ApplyBlockReward K sm author collectedFees timestamp =
     (let reward = baseReward timestamp;
          validatorFeeShare = collectedFees div 2;
          totalReward = (case SafeAdd reward validatorFeeShare of Inl err \<Rightarrow> reward | Inr t \<Rightarrow> t);
          (currentBal, sm) = GetBalance K sm author in
      (case SafeAdd currentBal totalReward of
         Inl err \<Rightarrow> sm
       | Inr newBalance \<Rightarrow> SetBalance K sm author newBalance))"

definition executeStake ::
  "('d, 'b) badger \<Rightarrow> 'd StateManager \<Rightarrow> Transaction \<Rightarrow> bool \<times> 'd StateManager" where
  "executeStake K sm tx =
     (if txAmount tx = 0 then (False, sm)
      else let (senderBal, sm) = GetBalance K sm (txFrom tx) in
        if senderBal < txAmount tx then (False, sm)
        else case SafeSub senderBal (txAmount tx) of
          Inl err \<Rightarrow> (False, sm)
        | Inr newBalance \<Rightarrow>
            let (currentStake, sm) = GetStake K sm (txFrom tx) in
            (case SafeAdd currentStake (txAmount tx) of
               Inl err \<Rightarrow> (False, sm)
             | Inr newStake \<Rightarrow>
                 let sm = SetBalance K sm (txFrom tx) newBalance;
                     sm = SetStake K sm (txFrom tx) newStake in
                 (True, sm)))"

text \<open>\<open>(14 * 24 * time.Hour).Nanoseconds()\<close>\<close>

definition UnbondingPeriod :: i64 where
  "UnbondingPeriod = 14 * 24 * 3600000000000"

definition executeUnstake ::
  "('d, 'b) badger \<Rightarrow> 'd StateManager \<Rightarrow> Transaction \<Rightarrow> i64 \<Rightarrow> bool \<times> 'd StateManager" where
  "executeUnstake K sm tx timestamp =
     (if txAmount tx = 0 then (False, sm)
      else let (currentStake, sm) = GetStake K sm (txFrom tx) in
        if currentStake < txAmount tx then (False, sm)
        else case SafeSub currentStake (txAmount tx) of
          Inl err \<Rightarrow> (False, sm)
        | Inr newStake \<Rightarrow>
            let ((currentUnbonding, _), sm) = GetUnbonding K sm (txFrom tx) in
            (case SafeAdd currentUnbonding (txAmount tx) of
               Inl err \<Rightarrow> (False, sm)
             | Inr newUnbonding \<Rightarrow>
                 let releaseTime = timestamp + UnbondingPeriod;
                     sm = SetStake K sm (txFrom tx) newStake;
                     sm = SetUnbonding K sm (txFrom tx) newUnbonding releaseTime in
                 (True, sm)))"

definition executeWithdraw ::
  "('d, 'b) badger \<Rightarrow> 'd StateManager \<Rightarrow> Transaction \<Rightarrow> i64 \<Rightarrow> bool \<times> 'd StateManager" where
  "executeWithdraw K sm tx timestamp =
     (let ((currentUnbonding, releaseTime), sm) = GetUnbonding K sm (txFrom tx) in
      if currentUnbonding = 0 then (False, sm)
      else if timestamp <s releaseTime then (False, sm)
      else let (currentBal, sm) = GetBalance K sm (txFrom tx) in
        (case SafeAdd currentBal currentUnbonding of
           Inl err \<Rightarrow> (False, sm)
         | Inr newBalance \<Rightarrow>
             let sm = SetUnbonding K sm (txFrom tx) 0 0;
                 sm = SetBalance K sm (txFrom tx) newBalance in
             (True, sm)))"

definition MinStakeForGrantAuthority :: u64 where
  "MinStakeForGrantAuthority = 1000000000 * 1000000"

definition executeGrant ::
  "('d, 'b) badger \<Rightarrow> 'd StateManager \<Rightarrow> Transaction \<Rightarrow> bool \<times> 'd StateManager" where
  "executeGrant K sm tx =
     (let (senderStake, sm) = GetStake K sm (txFrom tx);
          (senderGrant, sm) = GetGrantStake K sm (txFrom tx) in
      case SafeAdd senderStake senderGrant of
        Inl err \<Rightarrow> (False, sm)
      | Inr totalSenderStake \<Rightarrow>
          if totalSenderStake < MinStakeForGrantAuthority then (False, sm)
          else if txFrom tx = txTo tx then (False, sm)
          else case SafeAdd (txAmount tx) (txFee tx) of
            Inl err \<Rightarrow> (False, sm)
          | Inr totalCost \<Rightarrow>
              let (senderBal, sm) = GetBalance K sm (txFrom tx) in
              if senderBal < totalCost then (False, sm)
              else case SafeSub senderBal totalCost of
                Inl err \<Rightarrow> (False, sm)
              | Inr newBalance \<Rightarrow>
                  let (currentGrant, sm) = GetGrantStake K sm (txTo tx) in
                  (case SafeAdd currentGrant (txAmount tx) of
                     Inl err \<Rightarrow> (False, sm)
                   | Inr newGrant \<Rightarrow>
                       let sm = SetBalance K sm (txFrom tx) newBalance;
                           sm = SetGrantStake K sm (txTo tx) newGrant in
                       (True, sm)))"

definition executeBuyLicense ::
  "('d, 'b) badger \<Rightarrow> 'd StateManager \<Rightarrow> Transaction \<Rightarrow> bool \<times> 'd StateManager" where
  "executeBuyLicense K sm tx =
     (case SafeAdd (txAmount tx) (txFee tx) of
        Inl err \<Rightarrow> (False, sm)
      | Inr totalCost \<Rightarrow>
          let (senderBal, sm) = GetBalance K sm (txFrom tx) in
          if senderBal < totalCost then (False, sm)
          else case SafeSub senderBal totalCost of
            Inl err \<Rightarrow> (False, sm)
          | Inr newBalance \<Rightarrow>
              let (currentGrant, sm) = GetGrantStake K sm (txFrom tx) in
              (case SafeAdd currentGrant (txAmount tx) of
                 Inl err \<Rightarrow> (False, sm)
               | Inr newGrant \<Rightarrow>
                   let sm = SetBalance K sm (txFrom tx) newBalance;
                       sm = SetGrantStake K sm (txFrom tx) newGrant in
                   (True, sm)))"

definition MinValidatorStakeForDelegation :: u64 where
  "MinValidatorStakeForDelegation = 1000 * 1000000"

definition executeDelegate ::
  "('d, 'b) badger \<Rightarrow> 'd StateManager \<Rightarrow> Transaction \<Rightarrow> bool \<times> 'd StateManager" where
  "executeDelegate K sm tx =
     (if txAmount tx = 0 then (False, sm)
      else if txFrom tx = txTo tx then (False, sm)
      else
       let (validatorStake, sm) = GetStake K sm (txTo tx);
           (validatorGrant, sm) = GetGrantStake K sm (txTo tx) in
       case SafeAdd validatorStake validatorGrant of
         Inl err \<Rightarrow> (False, sm)
       | Inr totalValidatorStake \<Rightarrow>
           if totalValidatorStake < MinValidatorStakeForDelegation then (False, sm)
           else let (senderBal, sm) = GetBalance K sm (txFrom tx) in
           if senderBal < txAmount tx then (False, sm)
           else case SafeSub senderBal (txAmount tx) of
             Inl err \<Rightarrow> (False, sm)
           | Inr newBalance \<Rightarrow>
               let (currentPoolStake, sm) = GetStake K sm (txTo tx) in
               case SafeAdd currentPoolStake (txAmount tx) of
                 Inl err \<Rightarrow> (False, sm)
               | Inr newPoolStake \<Rightarrow>
                   let (currentDelegation, sm) = GetDelegation K sm (txFrom tx) (txTo tx) in
                   (case SafeAdd currentDelegation (txAmount tx) of
                      Inl err \<Rightarrow> (False, sm)
                    | Inr newDelegation \<Rightarrow>
                        let sm = SetBalance K sm (txFrom tx) newBalance;
                            sm = SetStake K sm (txTo tx) newPoolStake;
                            sm = SetDelegation K sm (txFrom tx) (txTo tx) newDelegation in
                        (True, sm)))"

definition dispatch ::
  "('d, 'b) badger \<Rightarrow> 'd StateManager \<Rightarrow> Transaction \<Rightarrow> i64 \<Rightarrow> bool \<times> 'd StateManager" where
  "dispatch K sm tx timestamp =
     (if txType tx = TxTransfer then executeTransfer K sm tx
      else if txType tx = TxStake then executeStake K sm tx
      else if txType tx = TxUnstake then executeUnstake K sm tx timestamp
      else if txType tx = TxDelegate then executeDelegate K sm tx
      else if txType tx = TxWithdraw then executeWithdraw K sm tx timestamp
      else if txType tx = TxGrant then executeGrant K sm tx
      else if txType tx = TxBuyLicense then executeBuyLicense K sm tx
      else (False, sm))"

definition Execute ::
  "('d, 'b) badger \<Rightarrow> 'd StateManager \<Rightarrow> Transaction \<Rightarrow> i64 \<Rightarrow> bool \<times> 'd StateManager" where
  "Execute K sm tx timestamp =
     (let (currentNonce, sm) = GetNonce K sm (txFrom tx);
          expectedNonce = currentNonce + 1 in
      if txNonce tx \<noteq> expectedNonce then (False, sm)
      else let (success, sm) = dispatch K sm tx timestamp in
        if success then (success, SetNonce K sm (txFrom tx) (txNonce tx)) else (success, sm))"

primrec ProcessBatch ::
  "('d, 'b) badger \<Rightarrow> 'd StateManager \<Rightarrow> Transaction list \<Rightarrow> i64 \<Rightarrow> 'd StateManager" where
  "ProcessBatch K sm [] timestamp = sm"
| "ProcessBatch K sm (tx # txs) timestamp =
     (let (_, sm) = Execute K sm tx timestamp in ProcessBatch K sm txs timestamp)"

section \<open>The abstract ledger\<close>

record Ledger =
  Bal :: "addr \<Rightarrow> nat"
  Stk :: "addr \<Rightarrow> nat"
  Grt :: "addr \<Rightarrow> nat"
  Unb :: "addr \<Rightarrow> nat"
  Rel :: "addr \<Rightarrow> int"
  Non :: "addr \<Rightarrow> nat"
  Del :: "addr \<Rightarrow> addr \<Rightarrow> nat"

definition ledger :: "(addr \<Rightarrow> Account) \<Rightarrow> Ledger" where
  "ledger A = \<lparr>
     Bal = (\<lambda>a. unat (accBalance (A a))),
     Stk = (\<lambda>a. unat (accStake (A a))),
     Grt = (\<lambda>a. unat (accGrantStake (A a))),
     Unb = (\<lambda>a. unat (accUnbondingBalance (A a))),
     Rel = (\<lambda>a. sint (accUnbondingRelease (A a))),
     Non = (\<lambda>a. unat (accNonce (A a))),
     Del = (\<lambda>a v. case accDelegations (A a) v of Some x \<Rightarrow> unat x | None \<Rightarrow> 0)\<rparr>"

abbreviation fits :: "nat \<Rightarrow> bool" where
  "fits n \<equiv> n < 2 ^ 64"

definition spec_transfer :: "Ledger \<Rightarrow> addr \<Rightarrow> addr \<Rightarrow> nat \<Rightarrow> nat \<Rightarrow> Ledger option" where
  "spec_transfer L f t amt fee =
     (if 0 < amt \<and> f \<noteq> t \<and> amt + fee \<le> Bal L f \<and> fits (Bal L t + amt)
      then Some (L\<lparr>Bal := (Bal L)(f := Bal L f - (amt + fee), t := Bal L t + amt)\<rparr>) else None)"

definition spec_stake :: "Ledger \<Rightarrow> addr \<Rightarrow> nat \<Rightarrow> Ledger option" where
  "spec_stake L f amt =
     (if 0 < amt \<and> amt \<le> Bal L f \<and> fits (Stk L f + amt)
      then Some (L\<lparr>Bal := (Bal L)(f := Bal L f - amt), Stk := (Stk L)(f := Stk L f + amt)\<rparr>) else None)"

definition spec_unstake :: "Ledger \<Rightarrow> addr \<Rightarrow> nat \<Rightarrow> int \<Rightarrow> Ledger option" where
  "spec_unstake L f amt release =
     (if 0 < amt \<and> amt \<le> Stk L f \<and> fits (Unb L f + amt)
      then Some (L\<lparr>Stk := (Stk L)(f := Stk L f - amt), Unb := (Unb L)(f := Unb L f + amt),
                   Rel := (Rel L)(f := release)\<rparr>) else None)"

definition spec_withdraw :: "Ledger \<Rightarrow> addr \<Rightarrow> int \<Rightarrow> Ledger option" where
  "spec_withdraw L f now =
     (if 0 < Unb L f \<and> Rel L f \<le> now \<and> fits (Bal L f + Unb L f)
      then Some (L\<lparr>Bal := (Bal L)(f := Bal L f + Unb L f), Unb := (Unb L)(f := 0),
                   Rel := (Rel L)(f := 0)\<rparr>) else None)"

definition spec_grant :: "Ledger \<Rightarrow> addr \<Rightarrow> addr \<Rightarrow> nat \<Rightarrow> nat \<Rightarrow> Ledger option" where
  "spec_grant L f t amt fee =
     (if fits (Stk L f + Grt L f) \<and> 10 ^ 15 \<le> Stk L f + Grt L f \<and> f \<noteq> t \<and>
         amt + fee \<le> Bal L f \<and> fits (Grt L t + amt)
      then Some (L\<lparr>Bal := (Bal L)(f := Bal L f - (amt + fee)), Grt := (Grt L)(t := Grt L t + amt)\<rparr>)
      else None)"

definition spec_buy_license :: "Ledger \<Rightarrow> addr \<Rightarrow> nat \<Rightarrow> nat \<Rightarrow> Ledger option" where
  "spec_buy_license L f amt fee =
     (if amt + fee \<le> Bal L f \<and> fits (Grt L f + amt)
      then Some (L\<lparr>Bal := (Bal L)(f := Bal L f - (amt + fee)), Grt := (Grt L)(f := Grt L f + amt)\<rparr>)
      else None)"

definition spec_delegate :: "Ledger \<Rightarrow> addr \<Rightarrow> addr \<Rightarrow> nat \<Rightarrow> Ledger option" where
  "spec_delegate L f t amt =
     (if 0 < amt \<and> f \<noteq> t \<and> fits (Stk L t + Grt L t) \<and> 10 ^ 9 \<le> Stk L t + Grt L t \<and>
         amt \<le> Bal L f \<and> fits (Stk L t + amt) \<and> fits (Del L f t + amt)
      then Some (L\<lparr>Bal := (Bal L)(f := Bal L f - amt), Stk := (Stk L)(t := Stk L t + amt),
                   Del := (Del L)(f := (Del L f)(t := Del L f t + amt))\<rparr>) else None)"

definition spec_effect :: "Ledger \<Rightarrow> Transaction \<Rightarrow> i64 \<Rightarrow> Ledger option" where
  "spec_effect L tx ts =
     (let f = txFrom tx; t = txTo tx; amt = unat (txAmount tx); fee = unat (txFee tx) in
      if txType tx = TxTransfer then spec_transfer L f t amt fee
      else if txType tx = TxStake then spec_stake L f amt
      else if txType tx = TxUnstake then spec_unstake L f amt (sint (ts + UnbondingPeriod))
      else if txType tx = TxDelegate then spec_delegate L f t amt
      else if txType tx = TxWithdraw then spec_withdraw L f (sint ts)
      else if txType tx = TxGrant then spec_grant L f t amt fee
      else if txType tx = TxBuyLicense then spec_buy_license L f amt fee
      else None)"

definition spec_execute :: "Ledger \<Rightarrow> Transaction \<Rightarrow> i64 \<Rightarrow> Ledger option" where
  "spec_execute L tx ts =
     (if unat (txNonce tx) = (Non L (txFrom tx) + 1) mod 2 ^ 64
      then map_option (\<lambda>L'. L'\<lparr>Non := (Non L')(txFrom tx := unat (txNonce tx))\<rparr>) (spec_effect L tx ts)
      else None)"

section \<open>Refinement\<close>

definition implements ::
  "('d, 'b) badger \<Rightarrow> 'd StateManager \<Rightarrow> bool \<times> 'd StateManager \<Rightarrow> Ledger option \<Rightarrow> bool" where
  "implements K sm r spec \<longleftrightarrow> sm_wf K (snd r) \<and>
     (case spec of
        None \<Rightarrow> \<not> fst r \<and> view K (snd r) = view K sm
      | Some L \<Rightarrow> fst r \<and> ledger (view K (snd r)) = L)"

lemma unat_SafeSub: "unat b \<le> unat a \<Longrightarrow> unat (a - b :: u64) = unat a - unat b"
  by (simp add: unat_sub word_le_nat_alt)

lemma unat_add_fits: "fits (unat a + unat b) \<Longrightarrow> unat (a + b :: u64) = unat a + unat b"
  by (simp add: unat_add_u64)

lemmas exec_simps = get_eq Let_def SafeAdd_cases SafeSub_cases word_less_nat_alt
  unat_SafeSub unat_add_fits implements_def not_less not_le

lemma unat_pos_iff: "0 < unat (a :: u64) \<longleftrightarrow> a \<noteq> 0"
  by (simp add: unat_gt_0)

lemma executeTransfer_refines:
  assumes [simp]: "sm_wf K sm"
  shows "implements K sm (executeTransfer K sm tx)
    (spec_transfer (ledger (view K sm)) (txFrom tx) (txTo tx) (unat (txAmount tx)) (unat (txFee tx)))"
  using unat_u64_less [of "accBalance (view K sm (txFrom tx))"]
  by (auto simp: executeTransfer_def exec_simps spec_transfer_def ledger_def unat_pos_iff fun_eq_iff)

lemma executeStake_refines:
  assumes [simp]: "sm_wf K sm"
  shows "implements K sm (executeStake K sm tx)
    (spec_stake (ledger (view K sm)) (txFrom tx) (unat (txAmount tx)))"
  by (auto simp: executeStake_def exec_simps spec_stake_def ledger_def unat_pos_iff fun_eq_iff)

lemma executeUnstake_refines:
  assumes [simp]: "sm_wf K sm"
  shows "implements K sm (executeUnstake K sm tx ts)
    (spec_unstake (ledger (view K sm)) (txFrom tx) (unat (txAmount tx)) (sint (ts + UnbondingPeriod)))"
  by (auto simp: executeUnstake_def exec_simps spec_unstake_def ledger_def unat_pos_iff fun_eq_iff)

lemma executeWithdraw_refines:
  assumes [simp]: "sm_wf K sm"
  shows "implements K sm (executeWithdraw K sm tx ts)
    (spec_withdraw (ledger (view K sm)) (txFrom tx) (sint ts))"
  by (auto simp: executeWithdraw_def exec_simps spec_withdraw_def ledger_def unat_pos_iff fun_eq_iff
      word_sless_alt)

lemma unat_grant_authority: "unat MinStakeForGrantAuthority = 10 ^ 15"
  by (simp add: MinStakeForGrantAuthority_def)

lemma unat_min_delegation: "unat MinValidatorStakeForDelegation = 10 ^ 9"
  by (simp add: MinValidatorStakeForDelegation_def)

lemma executeGrant_refines:
  assumes [simp]: "sm_wf K sm"
  shows "implements K sm (executeGrant K sm tx)
    (spec_grant (ledger (view K sm)) (txFrom tx) (txTo tx) (unat (txAmount tx)) (unat (txFee tx)))"
  using unat_u64_less [of "accBalance (view K sm (txFrom tx))"]
  by (auto simp: executeGrant_def exec_simps unat_grant_authority spec_grant_def ledger_def fun_eq_iff)

lemma executeBuyLicense_refines:
  assumes [simp]: "sm_wf K sm"
  shows "implements K sm (executeBuyLicense K sm tx)
    (spec_buy_license (ledger (view K sm)) (txFrom tx) (unat (txAmount tx)) (unat (txFee tx)))"
  using unat_u64_less [of "accBalance (view K sm (txFrom tx))"]
  by (auto simp: executeBuyLicense_def exec_simps spec_buy_license_def ledger_def fun_eq_iff)

lemma executeDelegate_refines:
  assumes [simp]: "sm_wf K sm"
  shows "implements K sm (executeDelegate K sm tx)
    (spec_delegate (ledger (view K sm)) (txFrom tx) (txTo tx) (unat (txAmount tx)))"
  by (auto simp: executeDelegate_def exec_simps unat_min_delegation spec_delegate_def ledger_def
      unat_pos_iff fun_eq_iff split: option.splits)

lemma implements_False: "sm_wf K sm \<Longrightarrow> implements K sm (False, sm) None"
  by (simp add: implements_def)

lemma dispatch_refines:
  assumes "sm_wf K sm"
  shows "implements K sm (dispatch K sm tx ts) (spec_effect (ledger (view K sm)) tx ts)"
  using assms
  by (simp add: dispatch_def spec_effect_def Let_def executeTransfer_refines executeStake_refines
      executeUnstake_refines executeWithdraw_refines executeGrant_refines executeBuyLicense_refines
      executeDelegate_refines implements_False)

lemma ledger_touch: "implements K (touch K sm a) r spec \<longleftrightarrow> implements K sm r spec"
  by (simp add: implements_def split: option.split)

lemma nonce_check_iff:
  "txNonce tx = accNonce A + 1 \<longleftrightarrow> unat (txNonce tx) = (unat (accNonce A) + 1) mod 2 ^ 64"
  by (simp add: u64_eq_iff unat_add_u64)

lemma execute_refines:
  assumes wf: "sm_wf K sm"
  shows "implements K sm (Execute K sm tx ts) (spec_execute (ledger (view K sm)) tx ts)"
proof (cases "txNonce tx = accNonce (view K sm (txFrom tx)) + 1")
  case False
  then have "spec_execute (ledger (view K sm)) tx ts = None"
    by (simp add: spec_execute_def nonce_check_iff ledger_def)
  with False wf show ?thesis by (simp add: Execute_def get_eq implements_def)
next
  case True
  let ?sm = "touch K sm (txFrom tx)"
  have r: "implements K sm (dispatch K ?sm tx ts) (spec_effect (ledger (view K sm)) tx ts)"
    using dispatch_refines [of K ?sm tx ts] wf by (simp add: ledger_touch)
  have n: "unat (txNonce tx) = (Non (ledger (view K sm)) (txFrom tx) + 1) mod 2 ^ 64"
    using True by (simp add: nonce_check_iff ledger_def)
  obtain ok sm' where d: "dispatch K ?sm tx ts = (ok, sm')" by fastforce
  show ?thesis
    using r True n d
    by (auto simp: Execute_def get_eq spec_execute_def implements_def ledger_def fun_eq_iff
        split: option.splits)
qed

section \<open>Supply\<close>

definition tot :: "(addr \<Rightarrow> nat) \<Rightarrow> nat" where
  "tot f = (\<Sum>a\<in>UNIV. f a)"

definition total_supply :: "Ledger \<Rightarrow> nat" where
  "total_supply L = tot (Bal L) + tot (Stk L) + tot (Grt L) + tot (Unb L)"

text \<open>The part of a successful transaction's fee that leaves the sender's account.\<close>

definition fee_charged :: "Transaction \<Rightarrow> nat" where
  "fee_charged tx = (if txType tx \<in> {TxTransfer, TxGrant, TxBuyLicense} then unat (txFee tx) else 0)"

lemma tot_upd: "tot (f(a := v)) + f a = tot f + v"
proof -
  have "tot g = g a + (\<Sum>b\<in>UNIV - {a}. g b)" for g
    unfolding tot_def by (rule sum.remove) auto
  from this [of f] this [of "f(a := v)"] show ?thesis by simp
qed

lemma tot_debit: "d \<le> f a \<Longrightarrow> tot (f(a := f a - d)) + d = tot f"
  using tot_upd [of f a "f a - d"] by simp

lemma tot_credit: "tot (f(a := f a + d)) = tot f + d"
  using tot_upd [of f a "f a + d"] by simp

lemma tot_clear: "tot (f(a := 0)) + f a = tot f"
  using tot_upd [of f a 0] by simp

lemma spec_transfer_supply:
  assumes "spec_transfer L f t amt fee = Some L'"
  shows "total_supply L' + fee = total_supply L"
proof -
  let ?B = "(Bal L)(f := Bal L f - (amt + fee))"
  from assms have L': "L' = L\<lparr>Bal := ?B(t := ?B t + amt)\<rparr>" and le: "amt + fee \<le> Bal L f"
    by (auto simp: spec_transfer_def split: if_splits)
  have "tot (?B(t := ?B t + amt)) + fee = tot (Bal L)"
    using tot_debit [of "amt + fee" "Bal L" f] le tot_credit [of ?B t amt] by simp
  then show ?thesis by (simp add: L' total_supply_def)
qed

lemma spec_other_supply:
  "spec_stake L f amt = Some L' \<Longrightarrow> total_supply L' = total_supply L"
  "spec_unstake L f amt r = Some L' \<Longrightarrow> total_supply L' = total_supply L"
  "spec_withdraw L f now = Some L' \<Longrightarrow> total_supply L' = total_supply L"
  "spec_delegate L f t amt = Some L' \<Longrightarrow> total_supply L' = total_supply L"
  "spec_grant L f t amt fee = Some L' \<Longrightarrow> total_supply L' + fee = total_supply L"
  "spec_buy_license L f amt fee = Some L' \<Longrightarrow> total_supply L' + fee = total_supply L"
  using tot_debit [of amt "Bal L" f] tot_debit [of amt "Stk L" f] tot_clear [of "Unb L" f]
    tot_debit [of "amt + fee" "Bal L" f]
  by (auto simp: total_supply_def tot_credit spec_stake_def spec_unstake_def spec_withdraw_def
      spec_grant_def spec_buy_license_def spec_delegate_def split: if_splits)

lemma spec_execute_supply:
  assumes "spec_execute L tx ts = Some L'"
  shows "total_supply L' + fee_charged tx = total_supply L"
proof -
  from assms obtain M where M: "spec_effect L tx ts = Some M"
    and L': "L' = M\<lparr>Non := (Non M)(txFrom tx := unat (txNonce tx))\<rparr>"
    by (auto simp: spec_execute_def split: if_splits)
  have "total_supply M + fee_charged tx = total_supply L"
    using M by (auto simp: spec_effect_def Let_def fee_charged_def spec_transfer_supply
        spec_other_supply split: if_splits)
  then show ?thesis by (simp add: L' total_supply_def)
qed

section \<open>Frame, nonces, unbonding\<close>

lemmas spec_defs = spec_effect_def spec_transfer_def spec_stake_def spec_unstake_def
  spec_withdraw_def spec_delegate_def spec_grant_def spec_buy_license_def

text \<open>The abstract account at one address.\<close>

definition ledger_at :: "Ledger \<Rightarrow> addr \<Rightarrow> nat \<times> nat \<times> nat \<times> nat \<times> int \<times> nat \<times> (addr \<Rightarrow> nat)" where
  "ledger_at L a = (Bal L a, Stk L a, Grt L a, Unb L a, Rel L a, Non L a, Del L a)"

lemma spec_execute_frame:
  "spec_execute L tx ts = Some L' \<Longrightarrow> a \<noteq> txFrom tx \<Longrightarrow> a \<noteq> txTo tx \<Longrightarrow> ledger_at L' a = ledger_at L a"
  by (auto simp: spec_execute_def spec_defs Let_def ledger_at_def split: if_splits)

lemma spec_execute_nonce:
  "spec_execute L tx ts = Some L' \<Longrightarrow>
     Non L' = (Non L)(txFrom tx := unat (txNonce tx)) \<and>
     unat (txNonce tx) = (Non L (txFrom tx) + 1) mod 2 ^ 64"
  by (auto simp: spec_execute_def spec_defs Let_def split: if_splits)

lemma implementsD:
  assumes "implements K sm r spec"
  shows "sm_wf K (snd r)" "\<not> fst r \<Longrightarrow> view K (snd r) = view K sm"
    "fst r \<Longrightarrow> spec = Some (ledger (view K (snd r)))" "fst r \<longleftrightarrow> spec \<noteq> None"
  using assms by (auto simp: implements_def split: option.splits)

lemmas executeD = implementsD [OF execute_refines]

text \<open>A run of the executor: transactions with the block time they are executed at.\<close>

definition exec_step :: "('d, 'b) badger \<Rightarrow> 'd StateManager \<Rightarrow> Transaction \<times> i64 \<Rightarrow> 'd StateManager" where
  "exec_step K sm e = snd (Execute K sm (fst e) (snd e))"

interpretation exec: op_system "exec_step K" "sm_wf K" for K :: "('d, 'b) badger"
  by unfold_locales (simp add: exec_step_def executeD(1))

lemma ProcessBatch_run: "ProcessBatch K sm txs ts = foldl (exec_step K) sm (map (\<lambda>tx. (tx, ts)) txs)"
  by (induction txs arbitrary: sm) (simp_all add: exec_step_def split: prod.split)

lemma exec_step_ledger:
  assumes "sm_wf K sm"
  shows "ledger (view K (exec_step K sm e)) =
    (case spec_execute (ledger (view K sm)) (fst e) (snd e) of None \<Rightarrow> ledger (view K sm) | Some L \<Rightarrow> L)"
  using execute_refines [OF assms, of "fst e" "snd e"]
  by (auto simp: exec_step_def implements_def split: option.splits)

lemma nonce_run:
  assumes "sm_wf K sm"
  shows "\<exists>m \<le> length es. accNonce (view K (foldl (exec_step K) sm es) a) = accNonce (view K sm a) + of_nat m"
  using assms
proof (induction es arbitrary: sm)
  case Nil
  then show ?case by simp
next
  case (Cons e es)
  let ?sm = "exec_step K sm e"
  have wf: "sm_wf K ?sm" using Cons.prems by (rule exec.inv_step)
  obtain m where m: "m \<le> length es"
    "accNonce (view K (foldl (exec_step K) ?sm es) a) = accNonce (view K ?sm a) + of_nat m"
    using Cons.IH [OF wf] by auto
  have "accNonce (view K ?sm a) = accNonce (view K sm a) \<or>
        accNonce (view K ?sm a) = accNonce (view K sm a) + 1"
  proof (cases "spec_execute (ledger (view K sm)) (fst e) (snd e)")
    case None
    then have "ledger (view K ?sm) = ledger (view K sm)"
      using exec_step_ledger [OF Cons.prems, of e] by simp
    then have "Non (ledger (view K ?sm)) a = Non (ledger (view K sm)) a" by simp
    then show ?thesis by (simp add: ledger_def u64_eq_iff)
  next
    case (Some L)
    then have "ledger (view K ?sm) = L" using exec_step_ledger [OF Cons.prems, of e] by simp
    with spec_execute_nonce [OF Some] have
      "Non (ledger (view K ?sm)) a = Non (ledger (view K sm)) a \<or>
       Non (ledger (view K ?sm)) a = (Non (ledger (view K sm)) a + 1) mod 2 ^ 64" by auto
    then show ?thesis by (simp add: ledger_def u64_eq_iff unat_add_u64)
  qed
  then show ?case
  proof
    assume "accNonce (view K ?sm a) = accNonce (view K sm a)"
    with m show ?thesis by (auto intro!: exI [of _ m])
  next
    assume "accNonce (view K ?sm a) = accNonce (view K sm a) + 1"
    with m show ?thesis by (auto intro!: exI [of _ "Suc m"])
  qed
qed

text \<open>What stays locked: at least \<open>u\<close> unbonding at \<open>f\<close> with a release time not before \<open>r\<close>.\<close>

definition locked :: "addr \<Rightarrow> nat \<Rightarrow> int \<Rightarrow> Ledger \<Rightarrow> bool" where
  "locked f u r L \<longleftrightarrow> u \<le> Unb L f \<and> r \<le> Rel L f"

lemma locked_step:
  assumes "locked f u r L" "spec_execute L tx ts = Some L'"
    "sint ts < r" "r \<le> sint (ts + UnbondingPeriod)"
  shows "locked f u r L'"
  using assms
  by (auto simp: locked_def spec_execute_def spec_defs Let_def split: if_splits)

lemma locked_start:
  assumes "spec_execute L tx ts = Some L'" "txType tx = TxUnstake"
  shows "locked (txFrom tx) (unat (txAmount tx)) (sint (ts + UnbondingPeriod)) L'"
  using assms by (auto simp: locked_def spec_execute_def spec_defs Let_def split: if_splits)

lemma locked_run:
  assumes "sm_wf K sm" and "locked f u r (ledger (view K sm))"
    and "\<And>e. e \<in> set es \<Longrightarrow> sint (snd e) < r \<and> r \<le> sint (snd e + UnbondingPeriod)"
  shows "locked f u r (ledger (view K (foldl (exec_step K) sm es)))"
  using assms
proof (induction es arbitrary: sm)
  case Nil
  then show ?case by simp
next
  case (Cons e es)
  have "locked f u r (ledger (view K (exec_step K sm e)))"
    using exec_step_ledger [OF Cons.prems(1), of e] locked_step [OF Cons.prems(2), of "fst e" "snd e"]
      Cons.prems(2) Cons.prems(3) [of e] by (auto split: option.splits)
  with Cons.IH [OF exec.inv_step [OF Cons.prems(1)]] Cons.prems(3) show ?case by auto
qed

section \<open>Block rewards\<close>

text \<open>The documented schedule: 500 NVN, halved every 63072000 seconds after 2025-01-01, at least one
  unit.\<close>

definition halvings_at :: "i64 \<Rightarrow> nat" where
  "halvings_at ts = nat (max 0 (sint ts sdiv 1000000000 - 1735689600) div 63072000)"

definition reward_schedule :: "nat \<Rightarrow> nat" where
  "reward_schedule h = max 1 (500000000 div 2 ^ h)"

lemma seconds_bound: "\<bar>sint (ts :: i64) sdiv 1000000000\<bar> \<le> 9223372036"
proof -
  have "- (2 ^ 63) sdiv 1000000000 \<le> sint ts sdiv 1000000000"
    using sint_i64_bounds(1) [of ts] by (rule sdiv_mono) simp
  moreover have "sint ts sdiv 1000000000 \<le> 2 ^ 63 sdiv 1000000000"
    using sint_i64_bounds(2) [of ts] by (intro sdiv_mono) auto
  ultimately show ?thesis by simp
qed

lemma unat_shift_right: "unat (drop_bit n (w :: u64)) = unat w div 2 ^ n"
  by (subst unat_drop_bit_eq) (simp add: drop_bit_eq_div)

lemma baseReward_schedule: "unat (baseReward ts) = reward_schedule (halvings_at ts)"
proof -
  define s where "s = sint ts sdiv 1000000000"
  define e where "e = max 0 (s - 1735689600)"
  have s: "\<bar>s\<bar> \<le> 9223372036" using seconds_bound [of ts] by (simp add: s_def)
  have e: "0 \<le> e" "e \<le> 9223372036" using s by (auto simp: e_def)
  let ?el = "go_sdiv ts 1000000000 - 1735689600"
  let ?el' = "if ?el <s 0 then 0 else ?el"
  have "sint (go_sdiv ts 1000000000) = s" by (simp add: sint_go_sdiv s_def)
  with s have "sint ?el = s - 1735689600" by (simp add: sint_sub_i64)
  then have el': "sint ?el' = e" by (simp add: e_def word_sless_alt)
  let ?h = "go_sdiv ?el' 63072000"
  have "sint ?h = e sdiv 63072000" using sint_go_sdiv [of 63072000 ?el'] el' by simp
  then have h: "sint ?h = e div 63072000" "0 \<le> sint ?h"
    using e by (auto simp: sdiv_nonneg pos_imp_zdiv_nonneg_iff)
  have uh: "unat ?h = halvings_at ts"
    using h by (simp add: unat_nonneg_i64 halvings_at_def e_def s_def)
  define rw :: u64 where "rw = (if 0 <s ?h then drop_bit (unat ?h) 500000000 else 500000000)"
  have "unat rw = 500000000 div 2 ^ halvings_at ts"
    using h unat_nonneg_i64 [of ?h]
    by (auto simp: rw_def word_sless_alt unat_shift_right simp flip: uh)
  moreover have "baseReward ts = (if rw = 0 then 1 else rw)"
    by (simp add: baseReward_def Let_def rw_def)
  ultimately show ?thesis
    by (auto simp: reward_schedule_def max_def unat_gt_0 u64_eq_iff)
qed

lemma reward_schedule_bounds: "1 \<le> reward_schedule h" "reward_schedule h \<le> 500000000"
  by (auto simp: reward_schedule_def intro: order_trans [OF div_le_dividend])

lemma reward_schedule_antimono: "h \<le> h' \<Longrightarrow> reward_schedule h' \<le> reward_schedule h"
  unfolding reward_schedule_def by (intro max.mono div_le_mono2 power_increasing) auto

lemma halvings_mono:
  assumes "sint t \<le> sint t'"
  shows "halvings_at t \<le> halvings_at t'"
proof -
  have "sint t sdiv 1000000000 \<le> sint t' sdiv 1000000000"
    using assms by (rule sdiv_mono) simp
  then show ?thesis unfolding halvings_at_def by (intro nat_mono zdiv_mono1) auto
qed

lemma reward_no_overflow: "SafeAdd (baseReward ts) (fees div 2) = Inr (baseReward ts + fees div 2)"
  using reward_schedule_bounds(2) [of "halvings_at ts"] unat_u64_less [of fees]
  by (simp add: SafeAdd_cases baseReward_schedule unat_div_distrib)

lemma unat_total_reward:
  "unat (baseReward ts + fees div 2) = reward_schedule (halvings_at ts) + unat fees div 2"
  using reward_schedule_bounds(2) [of "halvings_at ts"] unat_u64_less [of fees]
  by (simp add: unat_add_u64 baseReward_schedule unat_div_distrib)

lemma ApplyBlockReward_eq:
  "ApplyBlockReward K sm a fees ts =
     (let cur = accBalance (view K sm a); tr = baseReward ts + fees div 2 in
      if fits (unat cur + unat tr) then SetBalance K (touch K sm a) a (cur + tr) else touch K sm a)"
  unfolding ApplyBlockReward_def Let_def reward_no_overflow get_eq
  by (simp add: SafeAdd_cases)

lemma ApplyBlockReward_wf: "sm_wf K sm \<Longrightarrow> sm_wf K (ApplyBlockReward K sm a fees ts)"
  by (simp add: ApplyBlockReward_def get_eq Let_def split: sum.splits)

section \<open>Properties\<close>

text \<open>C1: the executor implements the documented ledger. On a well-formed account store, for
  every transaction (of any type, known or not) and block time, \<open>Execute\<close> returns true exactly when
  the abstract step over unbounded integers is enabled: the nonce is the successor of the account's
  nonce (modulo 2^64) and the guard of the type's row in the documentation holds with every result
  in range. Then the accounts are exactly the abstract result; otherwise no account changes at all,
  in particular after the rollback of a transfer whose receiver would overflow.\<close>

theorem execute_refinement:
  assumes "sm_wf K sm" and "Execute K sm tx ts = (ok, sm')"
  shows "sm_wf K sm' \<and> (ok \<longleftrightarrow> spec_execute (ledger (view K sm)) tx ts \<noteq> None)
    \<and> ledger (view K sm') = (case spec_execute (ledger (view K sm)) tx ts of
         None \<Rightarrow> ledger (view K sm) | Some L \<Rightarrow> L)
    \<and> (\<not> ok \<longrightarrow> view K sm' = view K sm)"
  using execute_refines [OF assms(1), of tx ts] assms(2)
  by (auto simp: implements_def split: option.splits)

text \<open>A small ledger over the concrete database: address 1 holds 5000, address 2 has a stake of
  2000 NVN.\<close>

definition demo_sm :: "(bytes \<rightharpoonup> Account) StateManager" where
  "demo_sm = foldl (state_step mem_badger) (NewStateManager (Some Map.empty))
     [OpSetBalance 1 5000, OpSetStake 2 2000000000]"

lemma demo_wf: "sm_wf mem_badger demo_sm"
  unfolding demo_sm_def
  using durable.inv_run [OF synced_new [OF mem_badger_reliable]] by (simp only: synced_def)

lemma demo_start: "view mem_badger (NewStateManager (Some Map.empty)) = (\<lambda>a. zeroAccount\<lparr>accAddress := a\<rparr>)"
  by (rule ext) (simp add: view_def getOrLoadAccountLocked_def loadAccountFromDB_def
      NewStateManager_def mem_badger_def)

lemma demo_view:
  "view mem_badger demo_sm = (\<lambda>a. zeroAccount\<lparr>accAddress := a\<rparr>)
     (1 := zeroAccount\<lparr>accAddress := 1, accBalance := 5000\<rparr>,
      2 := zeroAccount\<lparr>accAddress := 2, accStake := 2000000000\<rparr>)"
proof -
  have "sm_wf mem_badger (NewStateManager (Some Map.empty))"
    using synced_new [OF mem_badger_reliable] by (simp add: synced_def)
  then show ?thesis
    unfolding demo_sm_def by (simp add: view_run demo_start fun_eq_iff del: foldl_Cons) simp
qed

lemma demo_transfer: "fst (Execute mem_badger demo_sm sample_tx 0)"
  using executeD(4) [OF demo_wf, of sample_tx 0]
  by (simp add: spec_execute_def spec_defs demo_view sample_tx_def ledger_def zeroAccount_def)

theorem execute_refinement_witness:
  "fst (Execute mem_badger demo_sm sample_tx 0)
   \<and> Bal (ledger (view mem_badger (snd (Execute mem_badger demo_sm sample_tx 0)))) 2 = 500"
proof -
  let ?r = "Execute mem_badger demo_sm sample_tx 0"
  have "ledger (view mem_badger (snd ?r)) =
    (case spec_execute (ledger (view mem_badger demo_sm)) sample_tx 0 of
       None \<Rightarrow> ledger (view mem_badger demo_sm) | Some L \<Rightarrow> L)"
    using execute_refinement [OF demo_wf, of sample_tx 0 "fst ?r" "snd ?r"] by simp
  then show ?thesis using demo_transfer
    by (simp add: spec_execute_def spec_defs demo_view sample_tx_def ledger_def zeroAccount_def)
qed

text \<open>C2: the executor neither creates nor loses money, except for fees. The sum over all addresses
  of balance, stake, licence stake and unbonding funds is unchanged by a failing transaction; a
  successful transfer, grant or licence purchase takes exactly the fee out of it, and the four
  staking transactions (stake, unstake, delegate, withdraw) leave it unchanged: they do not charge
  the fee they carry.\<close>

theorem execute_supply:
  assumes "sm_wf K sm" and "Execute K sm tx ts = (ok, sm')"
  shows "total_supply (ledger (view K sm')) + (if ok then fee_charged tx else 0)
    = total_supply (ledger (view K sm))"
  using executeD(2,3) [OF assms(1), of tx ts] assms(2) spec_execute_supply by fastforce

theorem execute_supply_witness:
  "total_supply (ledger (view mem_badger (snd (Execute mem_badger demo_sm sample_tx 0)))) + 1000
   = total_supply (ledger (view mem_badger demo_sm))"
  using execute_supply [OF demo_wf, of sample_tx 0 "fst (Execute mem_badger demo_sm sample_tx 0)"
      "snd (Execute mem_badger demo_sm sample_tx 0)"] demo_transfer
  by (simp add: fee_charged_def sample_tx_def)

text \<open>C5: a transaction touches its two parties only. Execution, successful or not, leaves every
  component (balance, stake, licence stake, unbonding funds and release time, nonce and
  delegations) of every account other than the sender and the recipient as it was; the recipient's
  nonce, unbonding funds and delegations are unchanged as well when it is not the sender; and the
  sender's nonce becomes the transaction's nonce exactly on success.\<close>

theorem execute_frame:
  assumes "sm_wf K sm" and "Execute K sm tx ts = (ok, sm')"
    and "L = ledger (view K sm)" and "L' = ledger (view K sm')"
  shows "(a \<noteq> txFrom tx \<and> a \<noteq> txTo tx \<longrightarrow> ledger_at L' a = ledger_at L a)
    \<and> (a \<noteq> txFrom tx \<longrightarrow> Non L' a = Non L a \<and> Unb L' a = Unb L a \<and> Del L' a = Del L a)
    \<and> Non L' (txFrom tx) = (if ok then unat (txNonce tx) else Non L (txFrom tx))"
proof (cases ok)
  case True
  then have sp: "spec_execute L tx ts = Some L'"
    using executeD(3) [OF assms(1), of tx ts] assms(2-4) by simp
  have "a \<noteq> txFrom tx \<longrightarrow> Non L' a = Non L a \<and> Unb L' a = Unb L a \<and> Del L' a = Del L a"
    using sp by (auto simp: spec_execute_def spec_defs Let_def split: if_splits)
  with True sp show ?thesis using spec_execute_frame [OF sp, of a] spec_execute_nonce [OF sp] by simp
next
  case False
  then show ?thesis using executeD(2) [OF assms(1), of tx ts] assms(2-4) by simp
qed

theorem execute_frame_witness:
  "ledger_at (ledger (view mem_badger (snd (Execute mem_badger demo_sm sample_tx 0)))) 3
     = ledger_at (ledger (view mem_badger demo_sm)) 3
   \<and> Non (ledger (view mem_badger (snd (Execute mem_badger demo_sm sample_tx 0)))) 1 = 1"
  using execute_frame [OF demo_wf, of sample_tx 0 "fst (Execute mem_badger demo_sm sample_tx 0)"
      "snd (Execute mem_badger demo_sm sample_tx 0)", OF _ refl refl, of 3] demo_transfer
  by (simp add: sample_tx_def)

text \<open>A nonce is spent once: after a transaction has been executed, no transaction of the same sender
  with the same nonce is.\<close>

lemma nonce_spent:
  assumes "sm_wf K sm" and "Execute K sm tx0 ts = (True, sm')" and "length es < 2 ^ 64 - 1"
    and "txFrom tx = txFrom tx0" and "txNonce tx = txNonce tx0"
  shows "\<not> fst (Execute K (foldl (exec_step K) sm' es) tx ts')"
proof
  let ?s = "foldl (exec_step K) sm' es"
  assume ok: "fst (Execute K ?s tx ts')"
  have wf: "sm_wf K sm'" using executeD(1) [OF assms(1), of tx0 ts] assms(2) by simp
  have n: "accNonce (view K sm' (txFrom tx)) = txNonce tx"
    using executeD(3) [OF assms(1), of tx0 ts] spec_execute_nonce assms(2,4,5)
    by (fastforce simp: ledger_def fun_eq_iff u64_eq_iff)
  obtain m where m: "m \<le> length es" "accNonce (view K ?s (txFrom tx)) = txNonce tx + of_nat m"
    using nonce_run [OF wf, of es "txFrom tx"] n by auto
  have "txNonce tx = accNonce (view K ?s (txFrom tx)) + 1"
    using ok by (auto simp: Execute_def get_eq split: if_splits)
  with m(2) have "(of_nat (Suc m) :: u64) = 0" by (simp add: algebra_simps)
  then have "2 ^ 64 dvd Suc m" by (simp only: word_of_nat_eq_0_iff) simp
  then show False using m(1) assms(3) by (auto dest!: dvd_imp_le)
qed

text \<open>C3: replay protection. Once a transaction has been executed, it is never executed again: after
  any further run of fewer than 2^64 - 1 transactions, of any senders and at any block times,
  \<open>Execute\<close> rejects it. (The bound is sharp in kind: nonces wrap around at 2^64.)\<close>

theorem replay_rejected:
  assumes "sm_wf K sm" and "Execute K sm tx ts = (True, sm')" and "length es < 2 ^ 64 - 1"
  shows "\<not> fst (Execute K (foldl (exec_step K) sm' es) tx ts')"
  using nonce_spent [OF assms refl refl] .

theorem replay_rejected_witness:
  "\<not> fst (Execute mem_badger (foldl (exec_step mem_badger)
      (snd (Execute mem_badger demo_sm sample_tx 0)) [(sample_tx, 5)]) sample_tx 7)"
  using replay_rejected [OF demo_wf, of sample_tx 0 "snd (Execute mem_badger demo_sm sample_tx 0)"
      "[(sample_tx, 5)]" 7] demo_transfer by (simp add: prod_eq_iff)

text \<open>C4: the 14-day lock. After a successful unstake at block time \<open>ts\<close>, for any run of executed
  transactions whose block times lie within the following 14 days, the unstaked amount is still
  unbonding and every withdrawal by that account at a block time within the 14 days is rejected.
  (The hypothesis \<open>sint ts + 28 days < 2^63\<close> excludes block times at the end of the \<open>int64\<close> range,
  where the computed release time wraps around.)\<close>

theorem unbonding_lock:
  assumes "sm_wf K sm" and "txType tx = TxUnstake" and "Execute K sm tx ts = (True, sm')"
    and "sint ts + 2 * 1209600000000000 < 2 ^ 63"
    and "\<forall>e\<in>set es. sint ts \<le> sint (snd e) \<and> sint (snd e) < sint ts + 1209600000000000"
    and "sm'' = foldl (exec_step K) sm' es"
  shows "unat (txAmount tx) \<le> Unb (ledger (view K sm'')) (txFrom tx)
    \<and> (txType w = TxWithdraw \<and> txFrom w = txFrom tx \<and> sint t < sint ts + 1209600000000000
         \<longrightarrow> \<not> fst (Execute K sm'' w t))"
proof -
  let ?f = "txFrom tx" and ?u = "unat (txAmount tx)" and ?r = "sint ts + 1209600000000000"
  have p: "sint UnbondingPeriod = 1209600000000000" by (simp add: UnbondingPeriod_def)
  have add: "sint (x + UnbondingPeriod) = sint x + 1209600000000000"
    if "sint x < sint ts + 1209600000000000" for x :: i64
    using that assms(4) sint_i64_bounds [of x] p by (subst sint_add_i64) auto
  have wf: "sm_wf K sm'" using executeD(1) [OF assms(1), of tx ts] assms(3) by simp
  have "spec_execute (ledger (view K sm)) tx ts = Some (ledger (view K sm'))"
    using executeD(3) [OF assms(1), of tx ts] assms(3) by simp
  then have "locked ?f ?u ?r (ledger (view K sm'))"
    using locked_start [OF _ assms(2), of "ledger (view K sm)" ts] add [of ts] by simp
  then have l: "locked ?f ?u ?r (ledger (view K sm''))"
    unfolding assms(6) using assms(5) add by (intro locked_run wf) auto
  have "\<not> fst (Execute K sm'' w t)"
    if "txType w = TxWithdraw" "txFrom w = ?f" "sint t < ?r"
    using that l executeD(4) [of K sm'' w t] exec.inv_run [OF wf, of es]
    by (auto simp: assms(6) locked_def spec_execute_def spec_defs)
  with l show ?thesis by (auto simp: locked_def)
qed

definition demo_unstake :: Transaction where
  "demo_unstake = \<lparr>txType = TxUnstake, txFrom = 2, txTo = 0, txAmount = 700, txFee = 0,
     txNonce = 1, txTimestamp = 0, txSig = []\<rparr>"

definition demo_withdraw :: Transaction where
  "demo_withdraw = demo_unstake\<lparr>txType := TxWithdraw, txNonce := 2\<rparr>"

theorem unbonding_lock_witness:
  "\<not> fst (Execute mem_badger (foldl (exec_step mem_badger)
      (snd (Execute mem_badger demo_sm demo_unstake 0)) [(sample_tx, 86400000000000)])
      demo_withdraw 1209599999999999)"
proof -
  let ?r = "Execute mem_badger demo_sm demo_unstake 0"
  have "fst ?r" using executeD(4) [OF demo_wf, of demo_unstake 0]
    by (simp add: spec_execute_def spec_defs demo_view demo_unstake_def ledger_def zeroAccount_def)
  then have "?r = (True, snd ?r)" by (simp add: prod_eq_iff)
  from unbonding_lock [OF demo_wf _ this _ _ refl, of "[(sample_tx, 86400000000000)]" demo_withdraw
      1209599999999999]
  show ?thesis by (simp add: demo_withdraw_def demo_unstake_def)
qed

text \<open>C6: the block reward is exactly the documented one. The author's balance grows by the base reward
  of the schedule plus the integer half of the collected fees (the rest is burned), and no other
  account or field changes, unless the author's balance would leave the \<open>uint64\<close> range, when nothing
  changes; the branch for an overflowing reward is never taken. The sum of all balances grows by exactly
  what the author is paid. The base reward never exceeds
  500 NVN, is never below one unit, and does not increase with the block time.\<close>

theorem block_reward:
  assumes "sm_wf K sm"
    and "R = reward_schedule (halvings_at ts) + unat fees div 2"
    and "b = unat (accBalance (view K sm author))"
  shows "view K (ApplyBlockReward K sm author fees ts) =
      (if fits (b + R) then (view K sm)(author := (view K sm author)\<lparr>accBalance := of_nat (b + R)\<rparr>)
       else view K sm)
    \<and> total_u64 (\<lambda>a. accBalance (view K (ApplyBlockReward K sm author fees ts) a))
        = total_u64 (\<lambda>a. accBalance (view K sm a)) + (if fits (b + R) then R else 0)
    \<and> unat (baseReward ts) = reward_schedule (halvings_at ts)
    \<and> 1 \<le> unat (baseReward ts) \<and> unat (baseReward ts) \<le> 500000000
    \<and> (sint ts \<le> sint ts' \<longrightarrow> unat (baseReward ts') \<le> unat (baseReward ts))"
proof -
  let ?tr = "baseReward ts + fees div 2"
  have tr: "unat ?tr = R" unfolding assms(2) by (rule unat_total_reward)
  have bal: "accBalance (view K sm author) + ?tr = of_nat (b + R)"
    using tr unfolding assms(3) by (simp flip: tr)
  have "view K (ApplyBlockReward K sm author fees ts) =
      (if fits (b + R) then (view K sm)(author := (view K sm author)\<lparr>accBalance := of_nat (b + R)\<rparr>)
       else view K sm)"
    unfolding ApplyBlockReward_eq Let_def bal tr assms(3) [symmetric] using assms(1) by simp
  moreover have "total_u64 (\<lambda>a. accBalance (view K (ApplyBlockReward K sm author fees ts) a))
      = total_u64 (\<lambda>a. accBalance (view K sm a)) + (if fits (b + R) then R else 0)"
  proof -
    have "unat (accBalance (view K sm author) + ?tr) = b + R" if "fits (b + R)"
      using unat_add_fits [of "accBalance (view K sm author)" ?tr] that by (simp add: tr assms(3))
    then show ?thesis
      using balance.total_set [of K "touch K sm author" author "accBalance (view K sm author) + ?tr"] assms(1)
      by (auto simp: ApplyBlockReward_eq get_eq tr Let_def simp flip: assms(3))
  qed
  ultimately show ?thesis
    using reward_schedule_bounds [of "halvings_at ts"] halvings_mono [of ts ts']
      reward_schedule_antimono by (auto simp: baseReward_schedule)
qed

theorem block_reward_witness:
  "accBalance (view mem_badger (ApplyBlockReward mem_badger demo_sm 1 2001 1735689600000000000) 1)
     = 500006000"
  using block_reward [OF demo_wf refl refl, where ts = 1735689600000000000 and fees = 2001 and author = 1]
  by (simp add: demo_view zeroAccount_def halvings_at_def reward_schedule_def)

end
