(* ===== verification/Hex_Codec.thy ===== *)
theory Hex_Codec
  imports Nova_Prelude
begin

text \<open>
  Go's \<open>encoding/hex\<close>, as far as the node uses it: addresses, hashes and node identifiers are lower
  case hexadecimal strings. \<open>DecodeString\<close> returns the bytes decoded before the first error and
  a flag that is false on an error (an odd length or a character that is no hexadecimal digit);
  some callers of the node drop the error and use the bytes.
\<close>

definition hexDigit :: "nat \<Rightarrow> char" where
  "hexDigit n = ''0123456789abcdef'' ! n"

definition fromHexChar :: "char \<Rightarrow> u8 option" where
  "fromHexChar c =
     (let k = of_char c :: nat in
      if 48 \<le> k \<and> k \<le> 57 then Some (of_nat (k - 48))
      else if 97 \<le> k \<and> k \<le> 102 then Some (of_nat (k - 97 + 10))
      else if 65 \<le> k \<and> k \<le> 70 then Some (of_nat (k - 65 + 10))
      else None)"

primrec EncodeToString :: "bytes \<Rightarrow> string" where
  "EncodeToString [] = []"
| "EncodeToString (b # bs) =
     hexDigit (unat (drop_bit 4 b)) # hexDigit (unat (b AND 15)) # EncodeToString bs"

fun DecodeString :: "string \<Rightarrow> bytes \<times> bool" where
  "DecodeString [] = ([], True)"
| "DecodeString [c] = ([], False)"
| "DecodeString (p # q # rest) =
     (case (fromHexChar p, fromHexChar q) of
        (Some a, Some b) \<Rightarrow>
          (let (bs, ok) = DecodeString rest in ((push_bit 4 a OR b) # bs, ok))
      | _ \<Rightarrow> ([], False))"

lemma length_EncodeToString [simp]: "length (EncodeToString bs) = 2 * length bs"
  by (induction bs) auto

lemma nibble_cases: "(n :: nat) < 16 \<Longrightarrow> n \<in> {0, 1, 2, 3, 4, 5, 6, 7, 8, 9, 10, 11, 12, 13, 14, 15}"
  by (simp, presburger)

lemma fromHexChar_hexDigit: "n < 16 \<Longrightarrow> fromHexChar (hexDigit n) = Some (of_nat n)"
  by (drule nibble_cases, elim insertE emptyE)
    (simp_all add: fromHexChar_def hexDigit_def Let_def)

lemma high_nibble: "unat (drop_bit 4 (b :: u8)) < 16"
proof -
  have "unat b < 256" using unsigned_less [of b, where ?'a = nat] by simp
  then show ?thesis by (subst unat_drop_bit_eq) (simp add: drop_bit_eq_div)
qed

lemma low_nibble: "unat (b AND (15 :: u8)) < 16"
proof -
  have "unat (b AND 15) \<le> unat (15 :: u8)" by (rule word_and_le1 [THEN word_le_nat_alt [THEN iffD1]])
  then show ?thesis by simp
qed

lemma nibbles_join: "push_bit 4 (drop_bit 4 b) OR (b AND 15) = (b :: u8)"
proof -
  have "b AND 15 = take_bit 4 b" by (simp add: take_bit_eq_mask mask_eq_exp_minus_1)
  moreover have "push_bit 4 (drop_bit 4 b) OR take_bit 4 b = b"
    by (rule bit_word_eqI) (auto simp: bit_simps)
  ultimately show ?thesis by simp
qed

lemma DecodeString_EncodeToString [simp]: "DecodeString (EncodeToString bs) = (bs, True)"
  by (induction bs)
    (simp_all add: fromHexChar_hexDigit [OF high_nibble] fromHexChar_hexDigit [OF low_nibble] nibbles_join)

lemma EncodeToString_inject [simp]: "EncodeToString bs = EncodeToString cs \<longleftrightarrow> bs = cs"
  by (metis DecodeString_EncodeToString prod.inject)

end
