(* ===== verification/Merkle_Crypto.thy ===== *)
theory Merkle_Crypto
  imports Nova_Prelude Hex_Codec
begin

text \<open>
  \<open>core/crypto\<close>: Merkle roots (\<open>merkle.go\<close>) and key pairs (\<open>keys.go\<close>).

  SHA-256 and Ed25519 are parameters: the record \<open>crypto\<close> holds the hash function, whose result
  type fixes the 32 bytes of a digest, the verification function on a 32-byte public key, the
  signing function on a private key, and the key derivation from a seed. Nothing is assumed of
  them unless a theorem says so; \<open>ed25519_ok\<close> is the documented correctness of the signature
  scheme (a signature made with a derived private key verifies under its public key and is 64
  bytes long). Go's \<open>NewKeyFromSeed\<close> panics on a seed that is not 32 bytes long; here it is a total function,
  and every modelled caller has a seed of 32 bytes: it is read from a 32-byte array or hash, or its
  length is tested first.
\<close>

record crypto =
  sha256 :: "bytes \<Rightarrow> hash"
  ed_verify :: "addr \<Rightarrow> bytes \<Rightarrow> bytes \<Rightarrow> bool"
  ed_sign :: "bytes \<Rightarrow> bytes \<Rightarrow> bytes"
  ed_key_from_seed :: "bytes \<Rightarrow> bytes"
  ed_public :: "bytes \<Rightarrow> addr"

definition ed25519_ok :: "crypto \<Rightarrow> bool" where
  "ed25519_ok C \<longleftrightarrow>
     (\<forall>seed msg. let priv = ed_key_from_seed C seed in
        ed_verify C (ed_public C priv) msg (ed_sign C priv msg)
        \<and> length (ed_sign C priv msg) = 64)"

section \<open>Key pairs\<close>

record KeyPair =
  kpPublicKey :: bytes
  kpPrivateKey :: bytes

text \<open>\<open>ed25519.GenerateKey(rand.Reader)\<close>: the entropy source yields a seed, or fails.\<close>

definition GenerateKeyPair :: "crypto \<Rightarrow> bytes option \<Rightarrow> KeyPair option" where
  "GenerateKeyPair C entropy =
     (case entropy of
        None \<Rightarrow> None
      | Some seed \<Rightarrow>
          let priv = ed_key_from_seed C seed in
          Some \<lparr>kpPublicKey = be_bytes 32 (ed_public C priv), kpPrivateKey = priv\<rparr>)"

definition KeyPair_Sign :: "crypto \<Rightarrow> KeyPair \<Rightarrow> bytes \<Rightarrow> bytes" where
  "KeyPair_Sign C kp msg = ed_sign C (kpPrivateKey kp) msg"

definition Verify :: "crypto \<Rightarrow> bytes \<Rightarrow> bytes \<Rightarrow> bytes \<Rightarrow> bool" where
  "Verify C pubKey msg sig =
     (if length pubKey \<noteq> 32 then False else ed_verify C (array32 pubKey) msg sig)"

definition KeyPair_Address :: "KeyPair \<Rightarrow> string" where
  "KeyPair_Address kp = EncodeToString (kpPublicKey kp)"

lemma keypair_sign_verify:
  "ed25519_ok C \<Longrightarrow> GenerateKeyPair C (Some seed) = Some kp \<Longrightarrow>
     Verify C (kpPublicKey kp) msg (KeyPair_Sign C kp msg)"
  by (auto simp: GenerateKeyPair_def Verify_def KeyPair_Sign_def ed25519_ok_def Let_def)

section \<open>Merkle roots\<close>

text \<open>One level: hash the concatenation of each pair of neighbours (the caller made the number of
  leaves even).\<close>

fun nextLevel :: "crypto \<Rightarrow> bytes list \<Rightarrow> bytes list" where
  "nextLevel C (left # right # rest) = be_bytes 32 (sha256 C (left @ right)) # nextLevel C rest"
| "nextLevel C _ = []"

lemma length_nextLevel [simp]: "length (nextLevel C hs) = length hs div 2"
  by (induction C hs rule: nextLevel.induct) auto

function MerkleRoot :: "crypto \<Rightarrow> bytes list \<Rightarrow> bytes" where
  "MerkleRoot C txHashes =
     (if txHashes = [] then []
      else if length txHashes = 1 then hd txHashes
      else let txHashes = (if odd (length txHashes) then txHashes @ [last txHashes] else txHashes)
        in MerkleRoot C (nextLevel C txHashes))"
  by pat_completeness auto
termination
proof (relation "measure (\<lambda>(C, hs). length hs)", goal_cases)
  case 1
  show ?case by simp
next
  case (2 C hs x)
  then have "2 \<le> length hs" by (cases hs) (auto simp: Suc_le_eq)
  then show ?case unfolding 2(3) by (auto elim!: oddE)
qed

declare MerkleRoot.simps [simp del]

definition padEven :: "bytes list \<Rightarrow> bytes list" where
  "padEven hs = (if odd (length hs) then hs @ [last hs] else hs)"

lemma even_padEven: "even (length (padEven hs))"
  by (simp add: padEven_def)

lemma MerkleRoot_step: "2 \<le> length hs \<Longrightarrow> MerkleRoot C hs = MerkleRoot C (nextLevel C (padEven hs))"
  by (subst MerkleRoot.simps) (auto simp: padEven_def)

lemma MerkleRoot_one [simp]: "MerkleRoot C [h] = h"
  by (subst MerkleRoot.simps) simp

lemma MerkleRoot_Nil [simp]: "MerkleRoot C [] = []"
  by (subst MerkleRoot.simps) simp

text \<open>The inputs that one level gives to the hash function, and those of a whole computation.\<close>

fun levelInputs :: "bytes list \<Rightarrow> bytes set" where
  "levelInputs (left # right # rest) = insert (left @ right) (levelInputs rest)"
| "levelInputs _ = {}"

function hashInputs :: "crypto \<Rightarrow> bytes list \<Rightarrow> bytes set" where
  "hashInputs C hs =
     (if length hs < 2 then {}
      else levelInputs (padEven hs) \<union> hashInputs C (nextLevel C (padEven hs)))"
  by pat_completeness auto
termination
  by (relation "measure (\<lambda>(C, hs). length hs)") (auto simp: padEven_def elim!: oddE)

declare hashInputs.simps [simp del]

definition collision :: "crypto \<Rightarrow> bytes set \<Rightarrow> bytes set \<Rightarrow> bool" where
  "collision C X Y \<longleftrightarrow> (\<exists>x\<in>X. \<exists>y\<in>Y. x \<noteq> y \<and> sha256 C x = sha256 C y)"

lemma collision_mono: "collision C X Y \<Longrightarrow> X \<subseteq> X' \<Longrightarrow> Y \<subseteq> Y' \<Longrightarrow> collision C X' Y'"
  by (auto simp: collision_def)

lemma nextLevel_inject:
  assumes "nextLevel C xs = nextLevel C ys" and "length xs = length ys" and "even (length xs)"
    and "\<forall>x\<in>set xs. length x = n" and "\<forall>y\<in>set ys. length y = n"
  shows "xs = ys \<or> collision C (levelInputs xs) (levelInputs ys)"
  using assms
proof (induction C xs arbitrary: ys rule: nextLevel.induct)
  case (1 C l r rest)
  then obtain l' r' rest' where ys: "ys = l' # r' # rest'"
    by (cases ys; cases "tl ys") auto
  have IH: "rest = rest' \<or> collision C (levelInputs rest) (levelInputs rest')"
    using 1 ys by auto
  have h: "sha256 C (l @ r) = sha256 C (l' @ r')" using "1.prems"(1) ys by simp
  show ?case
  proof (cases "l @ r = l' @ r'")
    case True
    then have "l = l' \<and> r = r'" using "1.prems"(4,5) ys by simp
    with IH ys show ?thesis by (auto intro: collision_mono)
  next
    case False
    with h ys show ?thesis by (auto simp: collision_def)
  qed
qed auto

lemma padEven_inject: "length xs = length ys \<Longrightarrow> padEven xs = padEven ys \<Longrightarrow> xs = ys"
  by (auto simp: padEven_def split: if_splits)

lemma set_padEven: "hs \<noteq> [] \<Longrightarrow> set (padEven hs) = set hs"
  by (auto simp: padEven_def)

lemma length_set_nextLevel: "h \<in> set (nextLevel C hs) \<Longrightarrow> length h = 32"
  by (induction C hs rule: nextLevel.induct) auto

lemma merkle_binding_aux:
  assumes "MerkleRoot C xs = MerkleRoot C ys" and "length xs = length ys"
    and "\<forall>x\<in>set xs. length x = n" and "\<forall>y\<in>set ys. length y = n"
  shows "xs = ys \<or> collision C (hashInputs C xs) (hashInputs C ys)"
  using assms
proof (induction "length xs" arbitrary: xs ys n rule: less_induct)
  case less
  show ?case
  proof (cases "length xs < 2")
    case True
    then consider "xs = []" | x where "xs = [x]" by (cases xs; cases "tl xs") auto
    then show ?thesis
    proof cases
      case 2
      then obtain y where "ys = [y]" using less.prems(2) by (cases ys) auto
      with 2 less.prems(1) show ?thesis by simp
    qed (use less.prems(2) in simp)
  next
    case False
    let ?X = "nextLevel C (padEven xs)" and ?Y = "nextLevel C (padEven ys)"
    have ne: "xs \<noteq> []" "ys \<noteq> []" using False less.prems(2) by auto
    have len: "length (padEven xs) = length (padEven ys)"
      using less.prems(2) by (simp add: padEven_def)
    have inp: "hashInputs C zs = levelInputs (padEven zs) \<union> hashInputs C (nextLevel C (padEven zs))"
      if "length zs = length xs" for zs
      using False that by (subst hashInputs.simps) simp
    have "?X = ?Y \<or> collision C (hashInputs C ?X) (hashInputs C ?Y)"
    proof (rule less.hyps)
      show "length ?X < length xs" using False by (auto simp: padEven_def elim!: oddE)
      show "MerkleRoot C ?X = MerkleRoot C ?Y"
        using less.prems(1,2) False by (simp add: MerkleRoot_step)
    qed (use len length_set_nextLevel in auto)
    then show ?thesis
    proof
      assume "?X = ?Y"
      then have "padEven xs = padEven ys \<or> collision C (levelInputs (padEven xs)) (levelInputs (padEven ys))"
        using len even_padEven less.prems(3,4) ne by (intro nextLevel_inject) (auto simp: set_padEven)
      then show ?thesis
        using padEven_inject [OF less.prems(2)] inp [of xs] inp [of ys] less.prems(2)
        by (auto intro: collision_mono)
    next
      assume "collision C (hashInputs C ?X) (hashInputs C ?Y)"
      then show ?thesis using inp [of xs] inp [of ys] less.prems(2) by (auto intro: collision_mono)
    qed
  qed
qed

section \<open>Properties of Merkle roots\<close>

text \<open>C29: a Merkle root commits to its leaves. If two lists of equally many leaves, all of the same
  byte length (the miner uses 64-byte signatures), have the same root, then the lists are equal, or
  the two computations themselves exhibit a SHA-256 collision: two different inputs, one hashed
  while computing each root, with the same digest.\<close>

theorem merkle_binding:
  assumes "MerkleRoot C xs = MerkleRoot C ys" and "length xs = length ys"
    and "\<forall>x\<in>set xs. length x = n" and "\<forall>y\<in>set ys. length y = n"
  shows "xs = ys \<or> collision C (hashInputs C xs) (hashInputs C ys)"
  using assms by (rule merkle_binding_aux)

definition demo_crypto :: crypto where
  "demo_crypto = \<lparr>sha256 = (\<lambda>bs. array32 bs),
     ed_verify = (\<lambda>pk msg sig. sig = be_bytes 32 pk @ be_bytes 32 (array32 msg)),
     ed_sign = (\<lambda>priv msg. be_bytes 32 (array32 (drop 32 priv)) @ be_bytes 32 (array32 msg)),
     ed_key_from_seed = (\<lambda>seed. be_bytes 32 (array32 seed) @ be_bytes 32 (array32 seed)),
     ed_public = (\<lambda>priv. array32 (drop 32 priv))\<rparr>"

lemma demo_crypto_ok: "ed25519_ok demo_crypto"
  by (simp add: ed25519_ok_def demo_crypto_def)

theorem merkle_binding_witness:
  "replicate 2 (replicate 64 7) = [replicate 64 7, replicate 64 (7 :: u8)]
   \<or> collision demo_crypto (hashInputs demo_crypto (replicate 2 (replicate 64 7)))
       (hashInputs demo_crypto [replicate 64 7, replicate 64 7])"
  by (rule merkle_binding [where n = 64]) (simp_all add: numeral_2_eq_2)

text \<open>The root does not commit to the number of leaves. For every odd number of at least
  three leaves, repeating the last leaf gives the same root, because \<open>MerkleRoot\<close> itself pads an odd
  level by repeating its last node; so a block and the same block with its last transaction doubled
  have the same Merkle root.\<close>

theorem merkle_duplicate_leaf:
  assumes "odd (length hs)" and "3 \<le> length hs"
  shows "MerkleRoot C (hs @ [last hs]) = MerkleRoot C hs"
proof -
  have "padEven (hs @ [last hs]) = padEven hs" using assms(1) by (simp add: padEven_def)
  then show ?thesis using assms(2) by (simp add: MerkleRoot_step)
qed

theorem merkle_duplicate_leaf_witness:
  "MerkleRoot demo_crypto [[1], [2], [3], [3]] = MerkleRoot demo_crypto [[1], [2], [3]]"
  using merkle_duplicate_leaf [of "[[1], [2], [3]]" demo_crypto] by simp

end
