(* ===== verification/Pulse_Vertex.thy ===== *)
theory Pulse_Vertex
  imports Nova_Prelude Merkle_Crypto
begin

text \<open>
  \<open>core/pulse/vertex.go\<close>: the vertex of the DAG (the node's block), its construction and its hash.
  The signature is \<open>None\<close> for a nil slice. The clock reading of \<open>NewVertex\<close> is an argument.
\<close>

record Vertex =
  vTimestamp :: i64
  vParents :: "hash list"
  vAuthor :: addr
  vTxPayload :: bytes
  vMerkleRoot :: "256 word"
  vRound :: u64
  vSignature :: "bytes option"
  vHash :: hash

definition hashPreimage :: "Vertex \<Rightarrow> bytes" where
  "hashPreimage v =
     be_bytes 32 (vAuthor v) @ vTxPayload v @ be_bytes 32 (vMerkleRoot v)
     @ be_bytes 8 (vTimestamp v) @ concat (map (be_bytes 32) (vParents v))"

definition ComputeHash :: "crypto \<Rightarrow> Vertex \<Rightarrow> hash" where
  "ComputeHash C v = sha256 C (hashPreimage v)"

definition Hash_String :: "hash \<Rightarrow> string" where
  "Hash_String h = EncodeToString (be_bytes 32 h)"

definition NewVertex ::
  "crypto \<Rightarrow> time \<Rightarrow> hash list \<Rightarrow> addr \<Rightarrow> bytes \<Rightarrow> bytes \<Rightarrow> 256 word \<Rightarrow> Vertex" where
  "NewVertex C now parents author privKey payload merkleRoot =
     (let v = \<lparr>vTimestamp = UnixNano now, vParents = parents, vAuthor = author,
               vTxPayload = payload, vMerkleRoot = merkleRoot, vRound = 0,
               vSignature = None, vHash = 0\<rparr>;
          v = v\<lparr>vHash := ComputeHash C v\<rparr>
      in v\<lparr>vSignature := Some (ed_sign C privKey (be_bytes 32 (vHash v)))\<rparr>)"

section \<open>What the hash commits to\<close>

lemma concat_hashes_inject:
  "length hs = length hs' \<Longrightarrow>
     concat (map (be_bytes 32) hs) = concat (map (be_bytes 32) (hs' :: hash list)) \<longleftrightarrow> hs = hs'"
proof (induction hs arbitrary: hs')
  case (Cons h hs)
  then obtain h' hs'' where "hs' = h' # hs''" by (cases hs') auto
  with Cons show ?case by auto
qed simp

lemma length_concat_hashes [simp]: "length (concat (map (be_bytes 32) (hs :: hash list))) = 32 * length hs"
  by (induction hs) auto

lemma hashPreimage_inject:
  assumes "hashPreimage v = hashPreimage w" and "length (vParents v) = length (vParents w)"
  shows "vAuthor v = vAuthor w \<and> vTxPayload v = vTxPayload w \<and> vMerkleRoot v = vMerkleRoot w
    \<and> vTimestamp v = vTimestamp w \<and> vParents v = vParents w"
proof -
  have "length (vTxPayload v) = length (vTxPayload w)"
    using arg_cong [OF assms(1), of length] assms(2) by (simp add: hashPreimage_def)
  with assms show ?thesis by (simp add: hashPreimage_def concat_hashes_inject)
qed

text \<open>The same bytes read with one parent fewer: the payload takes up the Merkle root, and the root
  and the time stamp are read from the old time stamp and the first parent.\<close>

definition shift_parent :: "Vertex \<Rightarrow> Vertex" where
  "shift_parent v =
     (let mid = be_bytes 8 (vTimestamp v) @ be_bytes 32 (hd (vParents v)) in
      v\<lparr>vTxPayload := vTxPayload v @ be_bytes 32 (vMerkleRoot v),
        vMerkleRoot := of_be (take 32 mid), vTimestamp := of_be (drop 32 mid),
        vParents := tl (vParents v)\<rparr>)"

lemma shift_parent_preimage:
  assumes "vParents v \<noteq> []"
  shows "hashPreimage (shift_parent v) = hashPreimage v"
proof -
  define mid where "mid = be_bytes 8 (vTimestamp v) @ be_bytes 32 (hd (vParents v))"
  obtain p ps where ps: "vParents v = p # ps" using assms by (cases "vParents v") auto
  have "be_bytes 32 (of_be (take 32 mid) :: 256 word) = take 32 mid"
    using be_bytes_of_be [of "take 32 mid", where ?'a = 256] by (simp add: mid_def)
  moreover have "be_bytes 8 (of_be (drop 32 mid) :: 64 word) = drop 32 mid"
    using be_bytes_of_be [of "drop 32 mid", where ?'a = 64] by (simp add: mid_def)
  ultimately have "be_bytes 32 (of_be (take 32 mid) :: 256 word) @
      be_bytes 8 (of_be (drop 32 mid) :: 64 word) = mid" by (simp only: append_take_drop_id)
  then have "be_bytes 32 (of_be (take 32 mid) :: 256 word) @
      be_bytes 8 (of_be (drop 32 mid) :: 64 word) @ rest = mid @ rest" for rest
    by (metis append_assoc)
  then show ?thesis
    by (simp add: hashPreimage_def shift_parent_def ps Let_def flip: mid_def) (simp add: mid_def ps)
qed

text \<open>C18: what a vertex hash commits to. (1) Two vertices with the same number of parents and the
  same hash have the same author, payload, Merkle root, time stamp and parents, or their hashed byte
  strings are a SHA-256 collision. (2) The number of parents itself is not committed to: the payload
  is hashed without its length, so for every vertex with a parent and whatever the hash function,
  there is a different vertex by the same author, with one parent fewer and a longer payload, that
  has the same hash. (3) The round is not part of the hash.\<close>

theorem vertex_hash_commitment:
  "(length (vParents v) = length (vParents w) \<and> ComputeHash C v = ComputeHash C w \<longrightarrow>
      (vAuthor v = vAuthor w \<and> vTxPayload v = vTxPayload w \<and> vMerkleRoot v = vMerkleRoot w
        \<and> vTimestamp v = vTimestamp w \<and> vParents v = vParents w)
      \<or> (hashPreimage v \<noteq> hashPreimage w \<and> sha256 C (hashPreimage v) = sha256 C (hashPreimage w)))
   \<and> (vParents v \<noteq> [] \<longrightarrow>
        (\<exists>u. vAuthor u = vAuthor v \<and> Suc (length (vParents u)) = length (vParents v)
          \<and> length (vTxPayload u) = length (vTxPayload v) + 32 \<and> ComputeHash C u = ComputeHash C v))
   \<and> ComputeHash C (v\<lparr>vRound := r\<rparr>) = ComputeHash C v"
proof (intro conjI impI)
  assume ne: "vParents v \<noteq> []"
  show "\<exists>u. vAuthor u = vAuthor v \<and> Suc (length (vParents u)) = length (vParents v)
      \<and> length (vTxPayload u) = length (vTxPayload v) + 32 \<and> ComputeHash C u = ComputeHash C v"
    using ne by (intro exI [of _ "shift_parent v"])
      (simp add: ComputeHash_def shift_parent_preimage, simp add: shift_parent_def Let_def)
next
  assume h: "length (vParents v) = length (vParents w) \<and> ComputeHash C v = ComputeHash C w"
  show "(vAuthor v = vAuthor w \<and> vTxPayload v = vTxPayload w \<and> vMerkleRoot v = vMerkleRoot w
        \<and> vTimestamp v = vTimestamp w \<and> vParents v = vParents w)
      \<or> (hashPreimage v \<noteq> hashPreimage w \<and> sha256 C (hashPreimage v) = sha256 C (hashPreimage w))"
  proof (cases "hashPreimage v = hashPreimage w")
    case True
    then show ?thesis using hashPreimage_inject h by blast
  next
    case False
    then show ?thesis using h unfolding ComputeHash_def by blast
  qed
next
  show "ComputeHash C (v\<lparr>vRound := r\<rparr>) = ComputeHash C v"
    unfolding ComputeHash_def hashPreimage_def by simp
qed

definition demo_vertex :: Vertex where
  "demo_vertex = \<lparr>vTimestamp = 5, vParents = [9], vAuthor = 2, vTxPayload = [1], vMerkleRoot = 4,
     vRound = 0, vSignature = None, vHash = 77\<rparr>"

theorem vertex_hash_commitment_witness:
  "\<exists>u. vAuthor u = 2 \<and> vParents u = [] \<and> length (vTxPayload u) = 33
     \<and> ComputeHash demo_crypto u = ComputeHash demo_crypto demo_vertex"
  using vertex_hash_commitment [of demo_vertex demo_vertex demo_crypto 0]
  by (auto simp: demo_vertex_def)

end
