(* ===== verification/Staking.thy ===== *)
theory Staking
  imports Executor Pulse_Vertex
begin

text \<open>
  \<open>core/staking\<close>: the validity test of a received vertex (\<open>stake.go\<close>) and double-sign detection,
  slashing amounts and jailing (\<open>slashing.go\<close>).

  \<open>ValidateBlock\<close> reads two account fields, so it may fill the account cache and returns the store;
  its result is \<open>None\<close> for Go's \<open>nil\<close> error. The evidence \<open>map[uint64]map[[32]byte]Hash\<close> is a
  finite map of finite maps, a missing round being a nil inner map.
\<close>

section \<open>Block validation\<close>

datatype BlockErr =
    ErrMissingSignature
  | ErrSignatureLength nat
  | ErrInvalidSignature
  | ErrStakeOverflow
  | ErrInsufficientStake u64

definition MinStakeRequired :: u64 where
  "MinStakeRequired = 1000 * 1000000"

definition ValidateBlock ::
  "crypto \<Rightarrow> ('d, 'b) badger \<Rightarrow> 'd StateManager \<Rightarrow> Vertex \<Rightarrow> BlockErr option \<times> 'd StateManager" where
  "ValidateBlock C K sm v =
     (case vSignature v of
        None \<Rightarrow> (Some ErrMissingSignature, sm)
      | Some sig \<Rightarrow>
          if length sig \<noteq> 64 then (Some (ErrSignatureLength (length sig)), sm)
          else if \<not> ed_verify C (vAuthor v) (be_bytes 32 (vHash v)) sig
          then (Some ErrInvalidSignature, sm)
          else
            let (liquid, sm) = GetStake K sm (vAuthor v);
                (grant, sm) = GetGrantStake K sm (vAuthor v)
            in case SafeAdd liquid grant of
                 Inl _ \<Rightarrow> (Some ErrStakeOverflow, sm)
               | Inr totalStake \<Rightarrow>
                   if totalStake < MinStakeRequired
                   then (Some (ErrInsufficientStake totalStake), sm)
                   else (None, sm))"

section \<open>Slashing\<close>

type_synonym SlashableOffense = u8

abbreviation OffenseDoubleSign :: SlashableOffense where "OffenseDoubleSign \<equiv> 0"
abbreviation OffenseDowntime :: SlashableOffense where "OffenseDowntime \<equiv> 1"
abbreviation OffenseInvalidBlock :: SlashableOffense where "OffenseInvalidBlock \<equiv> 2"

record SlashingConfig =
  DoubleSignSlashPercent :: u64
  DowntimeSlashPercent :: u64
  DowntimeThreshold :: i64
  JailDuration :: i64

definition DefaultSlashingConfig :: SlashingConfig where
  "DefaultSlashingConfig =
     \<lparr>DoubleSignSlashPercent = 10, DowntimeSlashPercent = 1,
      DowntimeThreshold = 24 * 3600, JailDuration = 7 * 24 * 3600\<rparr>"

record SlashRecord =
  srValidator :: addr
  srOffense :: SlashableOffense
  srAmount :: u64
  srTimestamp :: i64
  srBlockHash :: hash
  srJailedUntil :: i64

record Slasher =
  slConfig :: SlashingConfig
  signedBlocks :: "(u64, (addr, hash) fmap) fmap"
  slashRecords :: "SlashRecord list"
  jailed :: "(addr, i64) fmap"

definition NewSlasher :: "SlashingConfig option \<Rightarrow> Slasher" where
  "NewSlasher config =
     \<lparr>slConfig = (case config of None \<Rightarrow> DefaultSlashingConfig | Some c \<Rightarrow> c),
      signedBlocks = fmempty, slashRecords = [], jailed = fmempty\<rparr>"

definition RecordBlockSigned :: "Slasher \<Rightarrow> Vertex \<Rightarrow> (bool \<times> SlashRecord option) \<times> Slasher" where
  "RecordBlockSigned s v =
     (let r = vRound v;
          s = (if fmlookup (signedBlocks s) r = None
               then s\<lparr>signedBlocks := fmupd r fmempty (signedBlocks s)\<rparr> else s);
          row = (case fmlookup (signedBlocks s) r of Some m \<Rightarrow> m | None \<Rightarrow> fmempty)
      in case fmlookup row (vAuthor v) of
           Some existingHash \<Rightarrow>
             if existingHash \<noteq> vHash v
             then ((True, Some \<lparr>srValidator = vAuthor v, srOffense = OffenseDoubleSign, srAmount = 0,
                     srTimestamp = vTimestamp v, srBlockHash = vHash v, srJailedUntil = 0\<rparr>), s)
             else ((False, None), s)
         | None \<Rightarrow>
             let s = s\<lparr>signedBlocks := fmupd r (fmupd (vAuthor v) (vHash v) row) (signedBlocks s)\<rparr>;
                 s = (if 1000 < r then s\<lparr>signedBlocks := fmdrop (r - 1000) (signedBlocks s)\<rparr> else s)
             in ((False, None), s))"

datatype SlashErr = ErrUnknownOffense SlashableOffense | ErrSlashMath MathErr

definition CalculateSlashAmount :: "Slasher \<Rightarrow> u64 \<Rightarrow> SlashableOffense \<Rightarrow> SlashErr + u64" where
  "CalculateSlashAmount s currentStake offense =
     (let percent =
        (if offense = OffenseDoubleSign then Some (DoubleSignSlashPercent (slConfig s))
         else if offense = OffenseDowntime then Some (DowntimeSlashPercent (slConfig s))
         else if offense = OffenseInvalidBlock then Some (DoubleSignSlashPercent (slConfig s))
         else None)
      in case percent of
           None \<Rightarrow> Inl (ErrUnknownOffense offense)
         | Some p \<Rightarrow> (case SafeMul currentStake p of
               Inl err \<Rightarrow> Inl (ErrSlashMath err)
             | Inr slashAmount \<Rightarrow> Inr (slashAmount div 100)))"

definition Slash :: "Slasher \<Rightarrow> addr \<Rightarrow> u64 \<Rightarrow> SlashableOffense \<Rightarrow> i64 \<Rightarrow> (SlashErr + u64) \<times> Slasher" where
  "Slash s validator stake offense timestamp =
     (case CalculateSlashAmount s stake offense of
        Inl err \<Rightarrow> (Inl err, s)
      | Inr slashAmount \<Rightarrow>
          if slashAmount = 0 then (Inr 0, s)
          else
            let rec = \<lparr>srValidator = validator, srOffense = offense, srAmount = slashAmount,
                       srTimestamp = timestamp, srBlockHash = 0,
                       srJailedUntil = timestamp + JailDuration (slConfig s) * 1000000000\<rparr>
            in (Inr slashAmount,
                s\<lparr>slashRecords := slashRecords s @ [rec],
                  jailed := fmupd validator (srJailedUntil rec) (jailed s)\<rparr>))"

definition IsJailed :: "Slasher \<Rightarrow> addr \<Rightarrow> i64 \<Rightarrow> bool" where
  "IsJailed s validator currentTime =
     (case fmlookup (jailed s) validator of
        None \<Rightarrow> False
      | Some jailEnd \<Rightarrow> currentTime <s jailEnd)"

definition GetSlashRecords :: "Slasher \<Rightarrow> addr \<Rightarrow> SlashRecord list" where
  "GetSlashRecords s validator = filter (\<lambda>r. srValidator r = validator) (slashRecords s)"

definition GetAllSlashRecords :: "Slasher \<Rightarrow> SlashRecord list" where
  "GetAllSlashRecords s = slashRecords s"

definition offenseString :: "SlashableOffense \<Rightarrow> string" where
  "offenseString offense =
     (if offense = OffenseDoubleSign then ''DOUBLE_SIGN''
      else if offense = OffenseDowntime then ''DOWNTIME''
      else if offense = OffenseInvalidBlock then ''INVALID_BLOCK''
      else ''UNKNOWN'')"

section \<open>Lemmas\<close>

lemma ValidateBlock_state: "\<exists>sm'. snd (ValidateBlock C K sm v) = sm' \<and> view K sm' = view K sm \<and>
    (sm_wf K sm \<longrightarrow> sm_wf K sm') \<and> storeDB sm' = storeDB sm"
  by (auto simp: ValidateBlock_def get_eq Let_def split: option.splits sum.splits)

lemma ValidateBlock_accepts:
  "fst (ValidateBlock C K sm v) = None \<longleftrightarrow>
     (\<exists>sig. vSignature v = Some sig \<and> length sig = 64
        \<and> ed_verify C (vAuthor v) (be_bytes 32 (vHash v)) sig)
     \<and> unat (accStake (view K sm (vAuthor v))) + unat (accGrantStake (view K sm (vAuthor v))) < 2 ^ 64
     \<and> 1000000000 \<le> unat (accStake (view K sm (vAuthor v))) + unat (accGrantStake (view K sm (vAuthor v)))"
  by (auto simp: ValidateBlock_def get_eq Let_def SafeAdd_cases MinStakeRequired_def word_less_nat_alt
      unat_add_u64 not_less split: option.splits)

lemma honest_validates:
  assumes "ed25519_ok C" "ed_key_from_seed C seed = priv" "ed_public C priv = author"
    and "unat (accStake (view K sm author)) + unat (accGrantStake (view K sm author))
          \<in> {1000000000 ..< 2 ^ 64}"
  shows "fst (ValidateBlock C K sm (NewVertex C now parents author priv payload root)) = None"
  using assms by (auto simp: ValidateBlock_accepts NewVertex_def Let_def ed25519_ok_def)

text \<open>The hash recorded for an author at a round.\<close>

definition signedAt :: "Slasher \<Rightarrow> u64 \<Rightarrow> addr \<Rightarrow> hash option" where
  "signedAt s r a = Option.bind (fmlookup (signedBlocks s) r) (\<lambda>row. fmlookup row a)"

lemma RecordBlockSigned_flag:
  "fst (fst (RecordBlockSigned s v)) \<longleftrightarrow>
     (\<exists>h. signedAt s (vRound v) (vAuthor v) = Some h \<and> h \<noteq> vHash v)"
  by (auto simp: RecordBlockSigned_def signedAt_def Let_def split: option.splits)

lemma RecordBlockSigned_signedAt:
  "signedAt (snd (RecordBlockSigned s v)) r a =
     (if signedAt s (vRound v) (vAuthor v) = None \<and> 1000 < vRound v \<and> r = vRound v - 1000 then None
      else if signedAt s (vRound v) (vAuthor v) = None \<and> r = vRound v \<and> a = vAuthor v
      then Some (vHash v) else signedAt s r a)"
  by (auto simp: RecordBlockSigned_def signedAt_def Let_def split: option.splits)

lemma RecordBlockSigned_frame:
  "slConfig (snd (RecordBlockSigned s v)) = slConfig s"
  "slashRecords (snd (RecordBlockSigned s v)) = slashRecords s"
  "jailed (snd (RecordBlockSigned s v)) = jailed s"
  by (auto simp: RecordBlockSigned_def Let_def split: option.splits)

abbreviation record_run :: "Slasher \<Rightarrow> Vertex list \<Rightarrow> Slasher" where
  "record_run \<equiv> foldl (\<lambda>s v. snd (RecordBlockSigned s v))"

text \<open>The first vertex of a list by an author at a round.\<close>

definition firstSigned :: "Vertex list \<Rightarrow> u64 \<Rightarrow> addr \<Rightarrow> hash option" where
  "firstSigned ws r a = map_option vHash (find (\<lambda>w. vRound w = r \<and> vAuthor w = a) ws)"

lemma record_run_signedAt:
  assumes "\<forall>w\<in>set ws. vRound w \<noteq> r + 1000"
  shows "signedAt (record_run s ws) r a =
    (case signedAt s r a of Some h \<Rightarrow> Some h | None \<Rightarrow> firstSigned ws r a)"
  using assms
proof (induction ws arbitrary: s)
  case (Cons w ws)
  have "r \<noteq> vRound w - 1000" using Cons.prems by (auto simp: algebra_simps)
  with Cons show ?case
    by (auto simp: RecordBlockSigned_signedAt firstSigned_def split: option.splits)
qed (auto simp: firstSigned_def split: option.splits)

lemma record_run_sound:
  assumes "signedAt (record_run s ws) r a = Some h"
  shows "signedAt s r a = Some h \<or> (\<exists>w\<in>set ws. vRound w = r \<and> vAuthor w = a \<and> vHash w = h)"
  using assms
proof (induction ws arbitrary: s)
  case (Cons w ws)
  from Cons.prems have "signedAt (record_run (snd (RecordBlockSigned s w)) ws) r a = Some h" by simp
  from Cons.IH [OF this] show ?case by (auto simp: RecordBlockSigned_signedAt split: if_splits)
qed simp

lemma signedAt_new [simp]: "signedAt (NewSlasher c) r a = None"
  by (simp add: signedAt_def NewSlasher_def)

lemma slash_amount_default:
  assumes "slConfig s = DefaultSlashingConfig" "p = (if offense = OffenseDowntime then 1 else 10)"
  shows "CalculateSlashAmount s stake offense =
    (if 2 < offense then Inl (ErrUnknownOffense offense)
     else if unat stake * p < 2 ^ 64 then Inr (of_nat (unat stake * p div 100))
     else Inl (ErrSlashMath ErrOverflow))"
proof -
  have k: "\<not> 2 < offense \<longleftrightarrow> offense \<in> {0, 1, 2}"
    by (auto simp: not_less word_le_nat_alt word_unat_eq_iff)
  have m: "unat stake * p < 2 ^ 64 \<Longrightarrow>
      stake * of_nat p div 100 = of_nat (unat stake * p div 100)"
    by (simp add: word_arith_nat_div unat_word_ariths unat_of_nat take_bit_eq_mod assms(2))
  show ?thesis
    using m k assms
    by (auto simp: CalculateSlashAmount_def DefaultSlashingConfig_def SafeMul_cases Let_def)
qed

lemma Slash_frame:
  "slConfig (snd (Slash s v st off ts)) = slConfig s"
  "signedBlocks (snd (Slash s v st off ts)) = signedBlocks s"
  by (auto simp: Slash_def Let_def split: sum.splits)

datatype slash_op = SlRecord Vertex | SlSlash addr u64 SlashableOffense i64

fun slash_step :: "Slasher \<Rightarrow> slash_op \<Rightarrow> Slasher" where
  "slash_step s (SlRecord v) = snd (RecordBlockSigned s v)"
| "slash_step s (SlSlash a st off ts) = snd (Slash s a st off ts)"

text \<open>Every jail term is the one of the validator's latest slash record, and every record has a
  positive amount: the books agree.\<close>

definition last_term :: "SlashRecord list \<Rightarrow> addr \<Rightarrow> i64 option" where
  "last_term rs a = map_option srJailedUntil (find (\<lambda>r. srValidator r = a) (rev rs))"

definition slasher_books :: "Slasher \<Rightarrow> bool" where
  "slasher_books s \<longleftrightarrow>
     (\<forall>a. fmlookup (jailed s) a = last_term (slashRecords s) a)
     \<and> (\<forall>r\<in>set (slashRecords s). 0 < srAmount r
          \<and> srJailedUntil r = srTimestamp r + JailDuration (slConfig s) * 1000000000)"

interpretation slasher: op_system slash_step slasher_books
proof
  fix s e assume "slasher_books s"
  then show "slasher_books (slash_step s e)"
    by (cases e) (auto simp: slasher_books_def RecordBlockSigned_frame Slash_def Let_def last_term_def
        word_neq_0_conv split: sum.splits)
qed

lemma slash_run_config: "slConfig (foldl slash_step s ops) = slConfig s"
proof (induction ops arbitrary: s)
  case (Cons e ops)
  then show ?case by (cases e) (simp_all add: RecordBlockSigned_frame Slash_frame)
qed simp

section \<open>Properties\<close>

text \<open>C14: \<open>ValidateBlock\<close> accepts a vertex exactly when it carries a 64-byte signature of its
  \<open>Hash\<close> field that verifies under the author's key, and the author's stake and licence stake
  together are at least 1000 NVN and fit in 64 bits. No account changes. The verdict does not depend
  on the time stamp, the parents, the payload, the Merkle root or the round: the hash is not
  recomputed from them.\<close>

theorem block_validation:
  "(fst (ValidateBlock C K sm v) = None \<longleftrightarrow>
     (\<exists>sig. vSignature v = Some sig \<and> length sig = 64
        \<and> ed_verify C (vAuthor v) (be_bytes 32 (vHash v)) sig)
     \<and> unat (accStake (view K sm (vAuthor v))) + unat (accGrantStake (view K sm (vAuthor v)))
          \<in> {1000000000 ..< 2 ^ 64})
   \<and> view K (snd (ValidateBlock C K sm v)) = view K sm
   \<and> ValidateBlock C K sm
       (v\<lparr>vTimestamp := t, vParents := ps, vTxPayload := p, vMerkleRoot := m, vRound := r\<rparr>)
     = ValidateBlock C K sm v"
proof (intro conjI)
  show "view K (snd (ValidateBlock C K sm v)) = view K sm"
    using ValidateBlock_state [of C K sm v] by auto
qed (auto simp: ValidateBlock_accepts, cases "vSignature v", simp_all add: ValidateBlock_def)

text \<open>A vertex that \<open>NewVertex\<close> builds with the key pair of its author is accepted by
  \<open>ValidateBlock\<close> whenever the author has the required stake: the producer and the validator agree
  on what is signed.\<close>

theorem honest_block_valid:
  assumes "ed25519_ok C"
    and "ed_key_from_seed C seed = priv" and "ed_public C priv = author"
    and "unat (accStake (view K sm author)) + unat (accGrantStake (view K sm author))
          \<in> {1000000000 ..< 2 ^ 64}"
  shows "fst (ValidateBlock C K sm (NewVertex C now parents author priv payload root)) = None"
  using assms by (rule honest_validates)

lemma demo_stake2: "accStake (view mem_badger demo_sm 2) = 2000000000" "accGrantStake (view mem_badger demo_sm 2) = 0"
  by (simp_all add: demo_view zeroAccount_def)

lemma demo_key2: "ed_public demo_crypto (ed_key_from_seed demo_crypto (be_bytes 32 (2 :: addr))) = 2"
  by (simp add: demo_crypto_def del: be_bytes.simps)

theorem honest_block_valid_witness:
  "fst (ValidateBlock demo_crypto mem_badger demo_sm
     (NewVertex demo_crypto 5 [9] 2 (ed_key_from_seed demo_crypto (be_bytes 32 (2 :: addr))) [1] 4)) = None"
  by (rule honest_block_valid [OF demo_crypto_ok refl demo_key2]) (simp add: demo_stake2)

text \<open>C15: double signing. For any sequence \<open>ws\<close> of recorded vertices, a new vertex \<open>v\<close> is flagged
  only if a vertex of \<open>ws\<close> by the same author at the same round has a different hash; and, as long
  as no recorded vertex was exactly 1000 rounds ahead of \<open>v\<close> (which prunes the evidence of that
  round), it is flagged if and only if the first such vertex of its author and round has a different
  hash, in particular every second block of an author at a round.\<close>

theorem double_sign_detection:
  "(fst (fst (RecordBlockSigned (record_run (NewSlasher c) ws) v)) \<longrightarrow>
      (\<exists>w\<in>set ws. vRound w = vRound v \<and> vAuthor w = vAuthor v \<and> vHash w \<noteq> vHash v))
   \<and> ((\<forall>w\<in>set ws. vRound w \<noteq> vRound v + 1000) \<longrightarrow>
      (fst (fst (RecordBlockSigned (record_run (NewSlasher c) ws) v)) \<longleftrightarrow>
        (\<exists>h. firstSigned ws (vRound v) (vAuthor v) = Some h \<and> h \<noteq> vHash v)))"
proof (intro conjI impI)
  assume "fst (fst (RecordBlockSigned (record_run (NewSlasher c) ws) v))"
  then obtain h where "signedAt (record_run (NewSlasher c) ws) (vRound v) (vAuthor v) = Some h" "h \<noteq> vHash v"
    by (auto simp: RecordBlockSigned_flag)
  from record_run_sound [OF this(1)] this(2)
  show "\<exists>w\<in>set ws. vRound w = vRound v \<and> vAuthor w = vAuthor v \<and> vHash w \<noteq> vHash v" by auto
next
  assume "\<forall>w\<in>set ws. vRound w \<noteq> vRound v + 1000"
  then show "fst (fst (RecordBlockSigned (record_run (NewSlasher c) ws) v)) \<longleftrightarrow>
        (\<exists>h. firstSigned ws (vRound v) (vAuthor v) = Some h \<and> h \<noteq> vHash v)"
    by (simp add: RecordBlockSigned_flag record_run_signedAt)
qed

theorem double_sign_detection_witness:
  "fst (fst (RecordBlockSigned (record_run (NewSlasher None) [demo_vertex]) (demo_vertex\<lparr>vHash := 78\<rparr>)))
   \<and> \<not> fst (fst (RecordBlockSigned (record_run (NewSlasher None) [demo_vertex]) demo_vertex))"
  using double_sign_detection [of None "[demo_vertex]" "demo_vertex\<lparr>vHash := 78\<rparr>"]
    double_sign_detection [of None "[demo_vertex]" demo_vertex]
  by (simp add: demo_vertex_def firstSigned_def)

text \<open>An honest miner is reported as a double signer. \<open>NewVertex\<close> gives every vertex round 0,
  so, on a fresh slasher that has seen one vertex of an author, any second vertex of that author
  with another hash, at whatever time, is flagged.\<close>

theorem honest_miner_flagged:
  assumes "v1 = NewVertex C t1 ps1 author k pay1 m1" and "v2 = NewVertex C t2 ps2 author k pay2 m2"
    and "vHash v1 \<noteq> vHash v2"
  shows "fst (RecordBlockSigned (record_run (NewSlasher c) [v1]) v2) =
    (True, Some \<lparr>srValidator = author, srOffense = OffenseDoubleSign, srAmount = 0,
       srTimestamp = UnixNano t2, srBlockHash = vHash v2, srJailedUntil = 0\<rparr>)"
proof -
  have "vRound v1 = 0" "vRound v2 = 0" "vAuthor v1 = author" "vAuthor v2 = author" "vTimestamp v2 = UnixNano t2"
    using assms by (simp_all add: NewVertex_def Let_def)
  then show ?thesis using assms(3) by (simp add: RecordBlockSigned_def Let_def NewSlasher_def)
qed

theorem honest_miner_flagged_witness:
  "let C = demo_crypto\<lparr>sha256 := \<lambda>bs. of_nat (length bs)\<rparr>;
       v1 = NewVertex C 100 [9] 2 [] [1] 4; v2 = NewVertex C 5000 [9] 2 [] [1, 2] 4
   in fst (fst (RecordBlockSigned (record_run (NewSlasher None) [v1]) v2))"
  using honest_miner_flagged [OF refl refl, where C = "demo_crypto\<lparr>sha256 := \<lambda>bs. of_nat (length bs)\<rparr>"
      and ?t1.0 = 100 and ?ps1.0 = "[9]" and author = 2 and k = "[]" and ?pay1.0 = "[1]" and ?m1.0 = 4
      and ?t2.0 = 5000 and ?ps2.0 = "[9]" and ?pay2.0 = "[1, 2]" and ?m2.0 = 4 and c = None]
  by (simp add: NewVertex_def ComputeHash_def hashPreimage_def Let_def del: be_bytes.simps)

text \<open>The slashed amount. With the default configuration and a known offense the computation
  succeeds exactly when the stake times the percentage (10, or 1 for downtime) fits in 64 bits; the
  amount is then the integer part of that percentage of the stake, so never more than a tenth of it;
  an unknown offense is an error.\<close>

theorem slash_amount:
  assumes "p = (if offense = OffenseDowntime then 1 else 10)"
  shows "CalculateSlashAmount (NewSlasher None) stake offense =
    (if 2 < offense then Inl (ErrUnknownOffense offense)
     else if unat stake * p < 2 ^ 64 then Inr (of_nat (unat stake * p div 100))
     else Inl (ErrSlashMath ErrOverflow))"
  using assms by (intro slash_amount_default) (simp add: NewSlasher_def)

text \<open>The slashing books agree. After any sequence of recorded vertices and slashes on a new
  slasher, every record has a positive amount and a term of exactly the configured jail duration
  from its time stamp, and a validator is jailed at a time if and only if it has been slashed and
  that time is before the end of the term of its latest record.\<close>

theorem slashing_books:
  assumes "s = foldl slash_step (NewSlasher c) ops"
  shows "(\<forall>r\<in>set (GetAllSlashRecords s). 0 < srAmount r
      \<and> srJailedUntil r = srTimestamp r + JailDuration (slConfig (NewSlasher c)) * 1000000000)
    \<and> (IsJailed s a now \<longleftrightarrow>
         GetSlashRecords s a \<noteq> [] \<and> now <s srJailedUntil (last (GetSlashRecords s a)))"
proof -
  have "slasher_books (NewSlasher c)"
    by (simp add: slasher_books_def NewSlasher_def last_term_def)
  then have b: "slasher_books s" unfolding assms by (rule slasher.inv_run)
  have "last_term rs a = (if filter (\<lambda>r. srValidator r = a) rs = [] then None
      else Some (srJailedUntil (last (filter (\<lambda>r. srValidator r = a) rs))))" for rs
    by (induction rs rule: rev_induct) (auto simp: last_term_def)
  with b show ?thesis
    by (auto simp: slasher_books_def IsJailed_def GetSlashRecords_def GetAllSlashRecords_def assms slash_run_config)
qed

theorem slash_amount_witness:
  "CalculateSlashAmount (NewSlasher None) 1000000099 OffenseDoubleSign = Inr 100000009
   \<and> CalculateSlashAmount (NewSlasher None) 99 OffenseDowntime = Inr 0
   \<and> CalculateSlashAmount (NewSlasher None) 99 7 = Inl (ErrUnknownOffense 7)"
  using slash_amount [of 10 OffenseDoubleSign 1000000099] slash_amount [of 1 OffenseDowntime 99]
    slash_amount [of 10 7 99] by simp

theorem slashing_books_witness:
  "IsJailed (foldl slash_step (NewSlasher None) [SlRecord demo_vertex, SlSlash 2 1000 OffenseDoubleSign 5]) 2
     604800000000004
   \<and> \<not> IsJailed (foldl slash_step (NewSlasher None) [SlRecord demo_vertex, SlSlash 2 1000 OffenseDoubleSign 5]) 2
     604800000000005"
proof -
  let ?ops = "[SlRecord demo_vertex, SlSlash 2 1000 OffenseDoubleSign 5]"
  have "GetSlashRecords (foldl slash_step (NewSlasher None) ?ops) 2 =
      [\<lparr>srValidator = 2, srOffense = 0, srAmount = 100, srTimestamp = 5, srBlockHash = 0,
        srJailedUntil = 604800000000005\<rparr>]"
    by (simp add: GetSlashRecords_def Slash_def CalculateSlashAmount_def RecordBlockSigned_frame
        NewSlasher_def DefaultSlashingConfig_def SafeMul_cases Let_def)
  then show ?thesis
    using slashing_books [OF refl, of None ?ops 2 604800000000004]
      slashing_books [OF refl, of None ?ops 2 604800000000005]
    by (simp add: word_sless_alt)
qed

end
