(* ===== verification/Pulse_Store.thy ===== *)
theory Pulse_Store
  imports Pulse_Vertex Ledger_State
begin

text \<open>
  \<open>core/pulse/store.go\<close>: the vertex store. It shares the node's Badger database with the account
  store (parameter \<open>badger\<close> of \<open>Ledger_State\<close>, the handle is threaded as \<open>'d option\<close>); the gob images
  of a vertex and of a list of hashes are the parameters \<open>vertex_gob\<close>. \<open>ord\<close> is the order in which
  Go ranges over the tips when they are saved or returned. The listener \<open>OnNewVertex\<close> runs in its
  own goroutine: the model records whether one is set, and \<open>AddVertex\<close> returns the vertices it is
  called with.
\<close>

record 'b vertex_gob =
  gob_vertex :: "Vertex \<Rightarrow> 'b option"
  gob_hashes :: "hash list \<Rightarrow> 'b option"
  ungob_hashes :: "'b \<Rightarrow> hash list option"

record VertexStore =
  vsVertices :: "(hash, Vertex) fmap"
  vsTips :: "hash fset"
  vsRecent :: "hash list"
  vsOnNewVertex :: bool

definition string_bytes :: "string \<Rightarrow> bytes" where
  "string_bytes s = map of_char s"

definition vertex_key :: "hash \<Rightarrow> bytes" where
  "vertex_key h = string_bytes ''v:'' @ be_bytes 32 h"

definition tips_key :: bytes where
  "tips_key = string_bytes ''meta:tips''"

definition recent_key :: bytes where
  "recent_key = string_bytes ''meta:recent''"

definition LoadTips ::
  "('d, 'b) badger \<Rightarrow> 'b vertex_gob \<Rightarrow> 'd option \<Rightarrow> VertexStore \<Rightarrow> VertexStore" where
  "LoadTips K G db vs =
     (case db of
        None \<Rightarrow> vs
      | Some d \<Rightarrow>
          let vs = (case badger_get K d tips_key of
                 None \<Rightarrow> vs
               | Some val \<Rightarrow> (case ungob_hashes G val of
                     None \<Rightarrow> vs
                   | Some tips \<Rightarrow> vs\<lparr>vsTips := vsTips vs |\<union>| fset_of_list tips\<rparr>))
          in (case badger_get K d recent_key of
                 None \<Rightarrow> vs
               | Some val \<Rightarrow> (case ungob_hashes G val of
                     None \<Rightarrow> vs
                   | Some recent \<Rightarrow> vs\<lparr>vsRecent := recent\<rparr>)))"

definition NewVertexStore :: "('d, 'b) badger \<Rightarrow> 'b vertex_gob \<Rightarrow> 'd option \<Rightarrow> VertexStore" where
  "NewVertexStore K G db =
     LoadTips K G db \<lparr>vsVertices = fmempty, vsTips = {||}, vsRecent = [], vsOnNewVertex = False\<rparr>"

definition saveTipsTxn :: "'b vertex_gob \<Rightarrow> (hash fset \<Rightarrow> hash list) \<Rightarrow> VertexStore \<Rightarrow> (bytes \<times> 'b) option" where
  "saveTipsTxn G ord vs = map_option (Pair tips_key) (gob_hashes G (ord (vsTips vs)))"

definition saveRecentTxn :: "'b vertex_gob \<Rightarrow> VertexStore \<Rightarrow> (bytes \<times> 'b) option" where
  "saveRecentTxn G vs = map_option (Pair recent_key) (gob_hashes G (vsRecent vs))"

text \<open>Part 2 of \<open>AddVertex\<close>: the write transaction; an error (only logged) leaves the database as it
  was.\<close>

definition persistVertex ::
  "('d, 'b) badger \<Rightarrow> 'b vertex_gob \<Rightarrow> (hash fset \<Rightarrow> hash list) \<Rightarrow> 'd option \<Rightarrow> VertexStore \<Rightarrow> Vertex
     \<Rightarrow> 'd option" where
  "persistVertex K G ord db vs v =
     (case db of
        None \<Rightarrow> None
      | Some d \<Rightarrow>
          (case (gob_vertex G v, saveTipsTxn G ord vs, saveRecentTxn G vs) of
             (Some val, Some tipsSet, Some recentSet) \<Rightarrow>
               (case badger_update K d [(vertex_key (vHash v), val), tipsSet, recentSet] of
                  None \<Rightarrow> db
                | Some d' \<Rightarrow> Some d')
           | _ \<Rightarrow> db))"

text \<open>Part 1 of \<open>AddVertex\<close>, under the lock.\<close>

definition insertVertex :: "VertexStore \<Rightarrow> Vertex \<Rightarrow> VertexStore" where
  "insertVertex vs v =
     vs\<lparr>vsVertices := fmupd (vHash v) v (vsVertices vs),
        vsTips := finsert (vHash v) (vsTips vs) |-| fset_of_list (vParents v),
        vsRecent := take 50 (vHash v # vsRecent vs)\<rparr>"

definition AddVertex ::
  "('d, 'b) badger \<Rightarrow> 'b vertex_gob \<Rightarrow> (hash fset \<Rightarrow> hash list) \<Rightarrow> 'd option \<times> VertexStore \<Rightarrow> Vertex
     \<Rightarrow> ('d option \<times> VertexStore) \<times> Vertex list" where
  "AddVertex K G ord s v =
     (let (db, vs) = s in
      if fmlookup (vsVertices vs) (vHash v) \<noteq> None then ((db, vs), [])
      else let vs = insertVertex vs v;
               notified = (if vsOnNewVertex vs then [v] else []);
               db = persistVertex K G ord db vs v
        in ((db, vs), notified))"

definition GetTips :: "(hash fset \<Rightarrow> hash list) \<Rightarrow> VertexStore \<Rightarrow> hash list" where
  "GetTips ord vs = ord (vsTips vs)"

definition GetAllVertices :: "hash list \<Rightarrow> VertexStore \<Rightarrow> Vertex list" where
  "GetAllVertices ks vs = List.map_filter (fmlookup (vsVertices vs)) ks"

definition HasVertex :: "VertexStore \<Rightarrow> hash \<Rightarrow> bool" where
  "HasVertex vs h = (fmlookup (vsVertices vs) h \<noteq> None)"

definition GetVertex :: "VertexStore \<Rightarrow> hash \<Rightarrow> Vertex option" where
  "GetVertex vs h = fmlookup (vsVertices vs) h"

definition VertexCount :: "VertexStore \<Rightarrow> nat" where
  "VertexCount vs = fmsize (vsVertices vs)"

definition GetRecentVertices :: "VertexStore \<Rightarrow> Vertex list" where
  "GetRecentVertices vs = List.map_filter (fmlookup (vsVertices vs)) (vsRecent vs)"

section \<open>The graph and its tips\<close>

definition stored :: "VertexStore \<Rightarrow> hash set" where
  "stored vs = fset (fmdom (vsVertices vs))"

definition has_child :: "VertexStore \<Rightarrow> hash \<Rightarrow> bool" where
  "has_child vs h \<longleftrightarrow> (\<exists>k w. fmlookup (vsVertices vs) k = Some w \<and> h \<in> set (vParents w))"

definition childless :: "VertexStore \<Rightarrow> hash set" where
  "childless vs = {h \<in> stored vs. \<not> has_child vs h}"

lemma AddVertex_store:
  "snd (fst (AddVertex K G ord s v)) =
     (if vHash v \<in> stored (snd s) then snd s else insertVertex (snd s) v)"
  by (auto simp: AddVertex_def stored_def fmlookup_dom_iff Let_def split: prod.splits)

definition add_step ::
  "('d, 'b) badger \<Rightarrow> 'b vertex_gob \<Rightarrow> (hash fset \<Rightarrow> hash list) \<Rightarrow> 'd option \<times> VertexStore \<Rightarrow> Vertex
     \<Rightarrow> 'd option \<times> VertexStore" where
  "add_step K G ord s v = fst (AddVertex K G ord s v)"

lemma add_step_store:
  "snd (add_step K G ord s v) =
     (if vHash v \<in> stored (snd s) then snd s else insertVertex (snd s) v)"
  unfolding add_step_def by (rule AddVertex_store)

lemma stored_insert [simp]: "stored (insertVertex vs v) = insert (vHash v) (stored vs)"
  by (simp add: stored_def insertVertex_def)

lemma has_child_insert:
  "vHash v \<notin> stored vs \<Longrightarrow>
     has_child (insertVertex vs v) h \<longleftrightarrow> has_child vs h \<or> h \<in> set (vParents v)"
  unfolding has_child_def insertVertex_def stored_def
  by (simp add: fmlookup_dom_iff) (metis option.distinct(1))

text \<open>For vertices in any order of arrival: every childless vertex is a tip and every tip is
  stored.\<close>

definition tips_sound :: "VertexStore \<Rightarrow> bool" where
  "tips_sound vs \<longleftrightarrow> childless vs \<subseteq> fset (vsTips vs) \<and> fset (vsTips vs) \<subseteq> stored vs"

lemma tips_insert: "fset (vsTips (insertVertex vs v)) = insert (vHash v) (fset (vsTips vs)) - set (vParents v)"
  by (simp add: insertVertex_def fset_of_list.rep_eq)

lemma tips_sound_insert:
  "tips_sound vs \<Longrightarrow> vHash v \<notin> stored vs \<Longrightarrow> tips_sound (insertVertex vs v)"
  unfolding tips_sound_def childless_def tips_insert
  by (auto simp: has_child_insert)

interpretation dag: op_system "add_step K G ord" "\<lambda>s. tips_sound (snd s)"
  for K :: "('d, 'b) badger" and G :: "'b vertex_gob" and ord
  by unfold_locales (simp add: add_step_store tips_sound_insert)

lemma tips_exact_insert:
  assumes "fset (vsTips vs) = childless vs" and "vHash v \<notin> stored vs"
    and "\<not> has_child vs (vHash v)" and "vHash v \<notin> set (vParents v)"
  shows "fset (vsTips (insertVertex vs v)) = childless (insertVertex vs v)"
  using assms unfolding tips_insert by (auto simp: childless_def has_child_insert)

definition empty_store :: VertexStore where
  "empty_store = \<lparr>vsVertices = fmempty, vsTips = {||}, vsRecent = [], vsOnNewVertex = False\<rparr>"

lemma empty_store_facts [simp]:
  "stored empty_store = {}" "childless empty_store = {}" "vsTips empty_store = {||}"
  "has_child empty_store h \<longleftrightarrow> False" "vsRecent empty_store = []"
  by (simp_all add: stored_def childless_def empty_store_def has_child_def)

text \<open>The vertices of a sequence of arrivals whose hash had not arrived before, in order.\<close>

definition arrivals :: "Vertex list \<Rightarrow> Vertex list" where
  "arrivals ws = foldl (\<lambda>us w. if vHash w \<in> vHash ` set us then us else us @ [w]) [] ws"

lemma arrivals_Nil [simp]: "arrivals [] = []"
  by (simp add: arrivals_def)

lemma arrivals_hashes: "vHash ` set (arrivals ws) = vHash ` set ws"
  by (induction ws rule: rev_induct) (auto simp: arrivals_def)

lemma arrivals_snoc:
  "arrivals (ws @ [w]) = (if vHash w \<in> vHash ` set ws then arrivals ws else arrivals ws @ [w])"
  using arrivals_hashes [of ws] by (simp add: arrivals_def)

text \<open>The reference for the tips: the arrivals that neither they themselves nor any later arrival names as a parent.\<close>

definition frontier :: "Vertex list \<Rightarrow> hash set" where
  "frontier us = {h. \<exists>xs u ys. us = xs @ u # ys \<and> h = vHash u \<and> (\<forall>w\<in>set (u # ys). h \<notin> set (vParents w))}"

lemma frontier_Nil [simp]: "frontier [] = {}"
  by (simp add: frontier_def)

lemma frontierI: "us = xs @ u # ys \<Longrightarrow> \<forall>w\<in>set (u # ys). vHash u \<notin> set (vParents w) \<Longrightarrow> vHash u \<in> frontier us"
  by (auto simp: frontier_def)

lemma frontierE:
  assumes "h \<in> frontier us"
  obtains xs u ys where "us = xs @ u # ys" "h = vHash u" "\<forall>w\<in>set (u # ys). vHash u \<notin> set (vParents w)"
  using assms by (auto simp: frontier_def)

lemma frontier_snoc: "frontier (us @ [w]) = insert (vHash w) (frontier us) - set (vParents w)"
proof (rule set_eqI, rule iffI)
  fix h
  assume "h \<in> frontier (us @ [w])"
  then obtain xs u ys where u: "us @ [w] = xs @ u # ys" "h = vHash u" "\<forall>v\<in>set (u # ys). vHash u \<notin> set (vParents v)"
    by (rule frontierE)
  show "h \<in> insert (vHash w) (frontier us) - set (vParents w)"
  proof (cases ys rule: rev_cases)
    case (snoc zs v)
    then have "vHash u \<in> frontier us" using u(1,3) by (intro frontierI [of us xs u zs]) auto
    then show ?thesis using u snoc by simp
  qed (use u in simp)
next
  fix h
  assume h: "h \<in> insert (vHash w) (frontier us) - set (vParents w)"
  show "h \<in> frontier (us @ [w])"
  proof (cases "h = vHash w")
    case True
    then show ?thesis using h frontierI [of "us @ [w]" us w "[]"] by simp
  next
    case False
    then obtain xs u ys where "us = xs @ u # ys" "h = vHash u" "\<forall>v\<in>set (u # ys). vHash u \<notin> set (vParents v)"
      using h by (auto elim: frontierE)
    then show ?thesis using h frontierI [of "us @ [w]" xs u "ys @ [w]"] by auto
  qed
qed

lemma run_stored:
  "stored (snd (foldl (add_step K G ord) (db, empty_store) ws)) = vHash ` set ws"
  by (induction ws rule: rev_induct) (auto simp: add_step_store)

lemma run_recent:
  "vsRecent (snd (foldl (add_step K G ord) (db, empty_store) ws)) = take 50 (rev (map vHash (arrivals ws)))"
proof (induction ws rule: rev_induct)
  case (snoc w ws)
  then show ?case
    by (auto simp: add_step_store run_stored arrivals_snoc insertVertex_def take_Cons')
qed simp

lemma run_frontier:
  "fset (vsTips (snd (foldl (add_step K G ord) (db, empty_store) ws))) = frontier (arrivals ws)"
  by (induction ws rule: rev_induct) (simp_all add: add_step_store run_stored arrivals_snoc tips_insert frontier_snoc)

lemma run_children:
  "has_child (snd (foldl (add_step K G ord) (db, empty_store) ws)) h \<Longrightarrow> \<exists>w\<in>set ws. h \<in> set (vParents w)"
  by (induction ws rule: rev_induct)
    (auto simp: add_step_store has_child_insert run_stored split: if_splits)

lemma run_tips_exact:
  assumes "\<And>xs w ys. ws = xs @ w # ys \<Longrightarrow>
    vHash w \<notin> set (vParents w) \<and> (\<forall>u\<in>set xs. vHash w \<notin> set (vParents u))"
  shows "fset (vsTips (snd (foldl (add_step K G ord) (db, empty_store) ws)))
    = childless (snd (foldl (add_step K G ord) (db, empty_store) ws))"
  using assms
proof (induction ws rule: rev_induct)
  case (snoc w ws)
  let ?s = "snd (foldl (add_step K G ord) (db, empty_store) ws)"
  have IH: "fset (vsTips ?s) = childless ?s"
  proof (rule snoc.IH)
    fix xs u ys
    assume "ws = xs @ u # ys"
    then show "vHash u \<notin> set (vParents u) \<and> (\<forall>t\<in>set xs. vHash u \<notin> set (vParents t))"
      using snoc.prems [of xs u "ys @ [w]"] by simp
  qed
  have w: "vHash w \<notin> set (vParents w)" "\<not> has_child ?s (vHash w)"
    using snoc.prems [of ws w "[]"] run_children [of K G ord db ws "vHash w"] by auto
  show ?case
    using IH w tips_exact_insert [of ?s w] by (simp add: add_step_store)
qed simp

section \<open>Restart\<close>

definition vertex_gob_ok :: "'b vertex_gob \<Rightarrow> bool" where
  "vertex_gob_ok G \<longleftrightarrow> (\<forall>hs val. gob_hashes G hs = Some val \<longrightarrow> ungob_hashes G val = Some hs)"

lemma keys_distinct: "tips_key \<noteq> recent_key" "vertex_key h \<noteq> tips_key" "vertex_key h \<noteq> recent_key"
  by (simp_all add: tips_key_def recent_key_def vertex_key_def string_bytes_def)

lemma account_vertex_keys_distinct:
  "account_key a \<noteq> vertex_key h" "account_key a \<noteq> tips_key" "account_key a \<noteq> recent_key"
  by (simp_all add: account_key_def tips_key_def recent_key_def vertex_key_def string_bytes_def)

section \<open>Properties\<close>

text \<open>C16: the tips of the DAG, for vertices that arrive in any order, repeatedly or with dangling
  parents. Starting from an empty store, after any sequence of \<open>AddVertex\<close> calls the store holds
  exactly the vertices that arrived, and the tips are exactly those that name neither themselves nor
  are named as a parent by a vertex that arrived after them. Hence every stored vertex without a stored child is a tip (a
  miner that builds on the tips covers the whole frontier), and when no vertex arrives after one of its
  children (nor names itself) the tips are exactly the vertices without a child; but a vertex that arrives after one of its
  children is a tip although it has a child. The recent list is the 50 latest first arrivals, newest first.\<close>

theorem dag_tips:
  assumes "s = foldl (add_step K G ord) (db, empty_store) ws"
  shows "stored (snd s) = vHash ` set ws
    \<and> fset (vsTips (snd s)) = frontier (arrivals ws)
    \<and> childless (snd s) \<subseteq> fset (vsTips (snd s)) \<and> fset (vsTips (snd s)) \<subseteq> stored (snd s)
    \<and> ((\<forall>xs w ys. ws = xs @ w # ys \<longrightarrow> vHash w \<notin> set (vParents w) \<and> (\<forall>u\<in>set xs. vHash w \<notin> set (vParents u))) \<longrightarrow>
         fset (vsTips (snd s)) = childless (snd s))
    \<and> vsRecent (snd s) = take 50 (rev (map vHash (arrivals ws)))
    \<and> (vHash p \<notin> vHash ` set ws \<and> vHash p \<notin> set (vParents p) \<and> has_child (snd s) (vHash p) \<longrightarrow>
         vHash p |\<in>| vsTips (snd (add_step K G ord s p))
         \<and> has_child (snd (add_step K G ord s p)) (vHash p))"
proof -
  have st: "stored (snd s) = vHash ` set ws" unfolding assms by (rule run_stored)
  moreover have "tips_sound (snd s)"
    unfolding assms by (rule dag.inv_run) (simp add: tips_sound_def)
  moreover have "fset (vsTips (snd s)) = frontier (arrivals ws)"
    unfolding assms by (rule run_frontier)
  moreover have "fset (vsTips (snd s)) = childless (snd s)"
    if "\<forall>xs w ys. ws = xs @ w # ys \<longrightarrow> vHash w \<notin> set (vParents w) \<and> (\<forall>u\<in>set xs. vHash w \<notin> set (vParents u))"
    unfolding assms using that by (intro run_tips_exact) blast
  moreover have "vsRecent (snd s) = take 50 (rev (map vHash (arrivals ws)))"
    unfolding assms by (rule run_recent)
  moreover have "vHash p |\<in>| vsTips (insertVertex (snd s) p) \<longleftrightarrow> vHash p \<notin> set (vParents p)"
    using tips_insert [of "snd s" p] by auto
  ultimately show ?thesis
    by (simp add: tips_sound_def add_step_store has_child_insert)
qed

text \<open>A concrete database whose stored values are lists of hashes.\<close>

definition hash_badger :: "(bytes \<rightharpoonup> hash list, hash list) badger" where
  "hash_badger = \<lparr>badger_get = (\<lambda>d k. d k), badger_update = (\<lambda>d ws. Some (d ++ map_of (rev ws))),
     gob_account = (\<lambda>_. None), ungob_account = (\<lambda>_. None)\<rparr>"

definition hash_gob :: "hash list vertex_gob" where
  "hash_gob = \<lparr>gob_vertex = (\<lambda>v. Some [vHash v]), gob_hashes = Some, ungob_hashes = Some\<rparr>"

abbreviation demo_run :: "Vertex list \<Rightarrow> (bytes \<rightharpoonup> hash list) option \<times> VertexStore" where
  "demo_run ws \<equiv> foldl (add_step hash_badger hash_gob sorted_list_of_fset) (Some Map.empty, empty_store) ws"

abbreviation late_parent :: Vertex where
  "late_parent \<equiv> demo_vertex\<lparr>vHash := 9, vParents := []\<rparr>"

text \<open>In order, the parent 9 stops being a tip when its child 77 arrives; out of order it is one for ever.\<close>

theorem dag_tips_witness:
  "fset (vsTips (snd (demo_run [late_parent, demo_vertex]))) = {77}
   \<and> childless (snd (demo_run [late_parent, demo_vertex])) = {77}
   \<and> 9 |\<in>| vsTips (snd (demo_run [demo_vertex, late_parent]))
   \<and> has_child (snd (demo_run [demo_vertex, late_parent])) 9
   \<and> vsRecent (snd (demo_run [demo_vertex, late_parent, demo_vertex])) = [9, 77]"
proof -
  have c: "has_child (snd (demo_run [demo_vertex])) 9"
    by (simp add: add_step_store has_child_insert demo_vertex_def)
  have "frontier (arrivals [late_parent, demo_vertex]) = {77}"
  proof -
    have "arrivals [late_parent, demo_vertex] = [] @ [late_parent] @ [demo_vertex]" by (simp add: arrivals_def demo_vertex_def)
    then have "frontier (arrivals [late_parent, demo_vertex]) = frontier (([] @ [late_parent]) @ [demo_vertex])" by simp
    also have "\<dots> = {77}" unfolding frontier_snoc by (simp add: demo_vertex_def insert_Diff_if)
    finally show ?thesis .
  qed
  moreover have "\<forall>xs w ys. [late_parent, demo_vertex] = xs @ w # ys \<longrightarrow>
      vHash w \<notin> set (vParents w) \<and> (\<forall>u\<in>set xs. vHash w \<notin> set (vParents u))"
    by (auto simp: Cons_eq_append_conv demo_vertex_def)
  ultimately have "fset (vsTips (snd (demo_run [late_parent, demo_vertex]))) = {77}
      \<and> childless (snd (demo_run [late_parent, demo_vertex])) = {77}"
    using dag_tips [of "demo_run [late_parent, demo_vertex]", OF refl] by metis
  then show ?thesis
    using c dag_tips [of "demo_run [demo_vertex]", OF refl, of late_parent]
      dag_tips [of "demo_run [demo_vertex, late_parent, demo_vertex]", OF refl]
    by (simp add: demo_vertex_def arrivals_def)
qed

text \<open>A restart keeps the frontier but not the vertices. After a new vertex has been added and its
  write transaction has committed, a store opened over the same database has the same tips and the
  same recent list, and no vertex at all: \<open>NewVertexStore\<close> never reads the stored vertices back.\<close>

theorem store_restart:
  assumes "badger_ok K" and "vertex_gob_ok G" and "\<forall>t. set (ord t) = fset t"
    and "\<not> HasVertex vs (vHash v)"
    and "AddVertex K G ord (Some d, vs) v = ((Some d', vs'), out)"
    and "gob_vertex G v = Some val" "gob_hashes G (ord (vsTips vs')) = Some tv"
      "gob_hashes G (vsRecent vs') = Some rv"
    and "badger_update K d [(vertex_key (vHash v), val), (tips_key, tv), (recent_key, rv)] \<noteq> None"
  shows "vsTips (NewVertexStore K G (Some d')) = vsTips vs'
    \<and> vsRecent (NewVertexStore K G (Some d')) = vsRecent vs'
    \<and> vsVertices (NewVertexStore K G (Some d')) = fmempty"
proof -
  have vs': "vs' = insertVertex vs v"
    using assms(4,5) by (auto simp: AddVertex_def HasVertex_def Let_def)
  have upd: "badger_update K d [(vertex_key (vHash v), val), (tips_key, tv), (recent_key, rv)] = Some d'"
    using assms(4-9) vs'
    by (auto simp: AddVertex_def HasVertex_def Let_def persistVertex_def saveTipsTxn_def saveRecentTxn_def
        split: option.splits)
  have "badger_get K d' tips_key = Some tv" "badger_get K d' recent_key = Some rv"
    using assms(1) upd keys_distinct by (auto simp: badger_ok_def)
  moreover have "fset_of_list (ord (vsTips vs')) = vsTips vs'"
    using assms(3) by (metis fset_inverse fset_of_list.rep_eq)
  ultimately show ?thesis
    using assms(2,7,8) by (simp add: NewVertexStore_def LoadTips_def vertex_gob_ok_def)
qed

lemma hash_badger_ok: "badger_ok hash_badger"
  by (auto simp: badger_ok_def hash_badger_def map_add_def split: option.splits)

theorem store_restart_witness:
  "vsRecent (NewVertexStore hash_badger hash_gob (fst (demo_run [demo_vertex]))) = [77]"
proof -
  let ?a = "AddVertex hash_badger hash_gob sorted_list_of_fset (Some Map.empty, empty_store) demo_vertex"
  obtain d' where d': "fst (fst ?a) = Some d'"
    by (auto simp: AddVertex_def empty_store_def Let_def persistVertex_def hash_badger_def hash_gob_def
        saveTipsTxn_def saveRecentTxn_def)
  have "?a = ((Some d', snd (fst ?a)), snd ?a)" using d' by (simp add: prod_eq_iff)
  moreover have "vsRecent (snd (fst ?a)) = [77]"
    by (simp add: AddVertex_store insertVertex_def demo_vertex_def)
  ultimately have "vsRecent (NewVertexStore hash_badger hash_gob (Some d')) = [77]"
    using store_restart [OF hash_badger_ok, of hash_gob sorted_list_of_fset empty_store demo_vertex
        Map.empty d' "snd (fst ?a)" "snd ?a"]
    by (simp add: vertex_gob_ok_def hash_gob_def hash_badger_def HasVertex_def empty_store_def)
  then show ?thesis using d' by (simp add: add_step_def)
qed

end
