(* ===== verification/Mempool.thy ===== *)
theory Mempool
  imports Ledger_State Tx_Types Safe_Math
begin

text \<open>
  \<open>core/tpu/mempool.go\<close>: the pool of pending transactions.

  Pending entries are keyed by the first 32 bytes of their signature. Loops over the Go map take the
  iteration order as the list \<open>ks\<close>. \<open>sort.Slice\<close> is not stable; since the order of the sorted slice
  before the sort is the arbitrary iteration order, a stable sort over an arbitrary \<open>ks\<close> has the same
  results. \<open>Add\<close> reads the clock twice (\<open>t1\<close> for the expiry test, \<open>t2\<close> for the entry), and reads
  the nonce from the account store, which may fill the store's cache; a nil \<open>State\<close> is \<open>None\<close>.
\<close>

record MempoolEntry =
  meTx :: Transaction
  meAddedAt :: time
  meExpiresAt :: time

record Mempool =
  mpPending :: "(addr, MempoolEntry) fmap"

definition MinFee :: u64 where "MinFee = 1000"
definition MaxMempoolSize :: nat where "MaxMempoolSize = 10000"
definition TxTTL :: int where "TxTTL = 3600 * 1000000000"

definition NewMempool :: Mempool where
  "NewMempool = \<lparr>mpPending = fmempty\<rparr>"

definition RemoveExpired :: "time \<Rightarrow> Mempool \<Rightarrow> nat \<times> Mempool" where
  "RemoveExpired now mp =
     (let alive = fmfilter (\<lambda>k. case fmlookup (mpPending mp) k of
                Some e \<Rightarrow> \<not> meExpiresAt e < now | None \<Rightarrow> True) (mpPending mp)
      in (fmsize (mpPending mp) - fmsize alive, mp\<lparr>mpPending := alive\<rparr>))"

text \<open>The clean-up goroutine: ticks of its timer until the stop channel is closed.\<close>

datatype cleanup_event = Tick time | StopCleanup

primrec cleanupLoop :: "Mempool \<Rightarrow> cleanup_event list \<Rightarrow> Mempool" where
  "cleanupLoop mp [] = mp"
| "cleanupLoop mp (ev # evs) =
     (case ev of Tick now \<Rightarrow> cleanupLoop (snd (RemoveExpired now mp)) evs | StopCleanup \<Rightarrow> mp)"

definition lowest_step :: "Mempool \<Rightarrow> addr \<times> u64 \<Rightarrow> addr \<Rightarrow> addr \<times> u64" where
  "lowest_step mp low k =
     (case fmlookup (mpPending mp) k of
        Some e \<Rightarrow> if txFee (meTx e) < snd low then (k, txFee (meTx e)) else low
      | None \<Rightarrow> low)"

definition evictLowestFee :: "addr list \<Rightarrow> Mempool \<Rightarrow> u64 \<Rightarrow> bool \<times> Mempool" where
  "evictLowestFee ks mp newFee =
     (if fmsize (mpPending mp) = 0 then (True, mp)
      else let (lowestKey, lowestFee) = foldl (lowest_step mp) (0, MaxUint64) ks in
        if newFee > lowestFee
        then (True, mp\<lparr>mpPending := fmdrop lowestKey (mpPending mp)\<rparr>)
        else (False, mp))"

text \<open>Steps 2 to 6 of \<open>Add\<close>, after room has been made.\<close>

definition admit :: "('d, 'b) badger \<Rightarrow> time \<Rightarrow> time \<Rightarrow> Mempool \<Rightarrow> 'd StateManager option \<Rightarrow> Transaction
    \<Rightarrow> bool \<times> Mempool \<times> 'd StateManager option" where
  "admit K t1 t2 mp state tx =
     (if txFee tx < MinFee then (False, mp, state)
      else if txTimestamp tx \<noteq> 0 \<and> IsExpired tx (UnixNano t1) then (False, mp, state)
      else
        let (stale, state) =
          (case state of
             None \<Rightarrow> (False, None)
           | Some sm \<Rightarrow> let (currentNonce, sm) = GetNonce K sm (txFrom tx)
                         in (txNonce tx \<le> currentNonce, Some sm))
        in if stale then (False, mp, state)
           else let sigID = array32 (txSig tx) in
             if fmlookup (mpPending mp) sigID \<noteq> None then (False, mp, state)
             else (True, mp\<lparr>mpPending := fmupd sigID
                     \<lparr>meTx = tx, meAddedAt = t2, meExpiresAt = t2 + TxTTL\<rparr> (mpPending mp)\<rparr>, state))"

definition Mempool_Add :: "('d, 'b) badger \<Rightarrow> addr list \<Rightarrow> time \<Rightarrow> time \<Rightarrow> Mempool \<Rightarrow> 'd StateManager option
    \<Rightarrow> Transaction \<Rightarrow> bool \<times> Mempool \<times> 'd StateManager option" where
  "Mempool_Add K ks t1 t2 mp state tx =
     (if MaxMempoolSize \<le> fmsize (mpPending mp)
      then let (room, mp) = evictLowestFee ks mp (txFee tx) in
        if \<not> room then (False, mp, state) else admit K t1 t2 mp state tx
      else admit K t1 t2 mp state tx)"

definition Count :: "Mempool \<Rightarrow> nat" where
  "Count mp = fmsize (mpPending mp)"

definition pendingEntries :: "addr list \<Rightarrow> Mempool \<Rightarrow> MempoolEntry list" where
  "pendingEntries ks mp = List.map_filter (fmlookup (mpPending mp)) ks"

definition GetBatch :: "addr list \<Rightarrow> Mempool \<Rightarrow> int \<Rightarrow> Transaction list \<times> Mempool" where
  "GetBatch ks mp limit =
     (if fmsize (mpPending mp) = 0 then ([], mp)
      else let sorted_entries = sort_key (\<lambda>e. - uint (txFee (meTx e))) (pendingEntries ks mp);
               batch = map meTx (take (nat limit) sorted_entries);
               keysToRemove = (\<lambda>tx. array32 (txSig tx)) ` set batch
        in (batch, mp\<lparr>mpPending := fmfilter (\<lambda>k. k \<notin> keysToRemove) (mpPending mp)\<rparr>))"

definition GetAll :: "addr list \<Rightarrow> Mempool \<Rightarrow> Transaction list" where
  "GetAll ks mp = map meTx (pendingEntries ks mp)"

record MempoolStats =
  msTxCount :: nat
  msTotalFees :: u64
  msMinFee :: u64
  msMaxFee :: u64
  msAvgFee :: u64

definition stats_step :: "MempoolStats \<Rightarrow> MempoolEntry \<Rightarrow> MempoolStats" where
  "stats_step stats e =
     (let fee = txFee (meTx e);
          stats = stats\<lparr>msTotalFees := msTotalFees stats + fee\<rparr>;
          stats = (if fee < msMinFee stats \<or> msMinFee stats = 0 then stats\<lparr>msMinFee := fee\<rparr> else stats)
      in if fee > msMaxFee stats then stats\<lparr>msMaxFee := fee\<rparr> else stats)"

definition Mempool_GetStats :: "addr list \<Rightarrow> Mempool \<Rightarrow> MempoolStats" where
  "Mempool_GetStats ks mp =
     (let stats = \<lparr>msTxCount = fmsize (mpPending mp), msTotalFees = 0, msMinFee = 0, msMaxFee = 0, msAvgFee = 0\<rparr>;
          stats = foldl stats_step stats (pendingEntries ks mp)
      in if 0 < msTxCount stats
         then stats\<lparr>msAvgFee := msTotalFees stats div of_nat (msTxCount stats)\<rparr> else stats)"

section \<open>Lemmas\<close>

text \<open>Keys are signature prefixes, fees are at least the minimum, the pool is bounded.\<close>

definition mp_inv :: "Mempool \<Rightarrow> bool" where
  "mp_inv mp \<longleftrightarrow> fmsize (mpPending mp) \<le> MaxMempoolSize
     \<and> (\<forall>k e. fmlookup (mpPending mp) k = Some e \<longrightarrow>
          k = array32 (txSig (meTx e)) \<and> MinFee \<le> txFee (meTx e) \<and> meExpiresAt e = meAddedAt e + TxTTL)"

abbreviation fee :: "MempoolEntry \<Rightarrow> u64" where
  "fee e \<equiv> txFee (meTx e)"

definition acceptable :: "('d, 'b) badger \<Rightarrow> time \<Rightarrow> Mempool \<Rightarrow> 'd StateManager option \<Rightarrow> Transaction \<Rightarrow> bool" where
  "acceptable K t1 mp state tx \<longleftrightarrow>
     1000 \<le> unat (txFee tx)
     \<and> \<not> IsExpired tx (UnixNano t1)
     \<and> (case state of None \<Rightarrow> True | Some sm \<Rightarrow> accNonce (view K sm (txFrom tx)) < txNonce tx)
     \<and> fmlookup (mpPending mp) (array32 (txSig tx)) = None"

abbreviation new_entry :: "time \<Rightarrow> Transaction \<Rightarrow> MempoolEntry" where
  "new_entry t2 tx \<equiv> \<lparr>meTx = tx, meAddedAt = t2, meExpiresAt = t2 + TxTTL\<rparr>"

lemma admit_eq:
  "fst (admit K t1 t2 mp state tx) \<longleftrightarrow> acceptable K t1 mp state tx"
  "fst (snd (admit K t1 t2 mp state tx)) =
     (if acceptable K t1 mp state tx
      then mp\<lparr>mpPending := fmupd (array32 (txSig tx)) (new_entry t2 tx) (mpPending mp)\<rparr> else mp)"
  by (auto simp: admit_def acceptable_def get_eq Let_def MinFee_def word_less_nat_alt word_le_nat_alt not_less
      IsExpired_def split: option.splits)

lemma admit_view:
  "case snd (snd (admit K t1 t2 mp state tx)) of
     None \<Rightarrow> state = None
   | Some sm' \<Rightarrow> (\<exists>sm. state = Some sm \<and> view K sm' = view K sm \<and> (sm_wf K sm \<longrightarrow> sm_wf K sm'))"
  by (auto simp: admit_def get_eq Let_def split: option.splits)

lemma lowest_fold:
  assumes "\<forall>k\<in>set ks. fmlookup (mpPending mp) k \<noteq> None"
    and "foldl (lowest_step mp) (k0, f0) ks = (k1, f1)"
  shows "f1 \<le> f0 \<and> (\<forall>k\<in>set ks. \<forall>e. fmlookup (mpPending mp) k = Some e \<longrightarrow> f1 \<le> fee e)
    \<and> ((k1, f1) = (k0, f0) \<or> (\<exists>e. k1 \<in> set ks \<and> fmlookup (mpPending mp) k1 = Some e \<and> f1 = fee e))"
  using assms
proof (induction ks arbitrary: k0 f0)
  case (Cons k ks)
  obtain e where e: "fmlookup (mpPending mp) k = Some e" using Cons.prems(1) by auto
  show ?case
  proof (cases "fee e < f0")
    case True
    then have "foldl (lowest_step mp) (k, fee e) ks = (k1, f1)"
      using Cons.prems(2) e by (simp add: lowest_step_def [of mp "(k0, f0)" k])
    from Cons.IH [OF _ this] Cons.prems(1) True e show ?thesis by auto
  next
    case False
    then have "foldl (lowest_step mp) (k0, f0) ks = (k1, f1)"
      using Cons.prems(2) e by (simp add: lowest_step_def [of mp "(k0, f0)" k])
    from Cons.IH [OF _ this] Cons.prems(1) False e show ?thesis by auto
  qed
qed simp

text \<open>Eviction removes one entry of minimal fee, and only for a strictly higher fee.\<close>

lemma evict_spec:
  assumes "map_order (mpPending mp) ks" "fmsize (mpPending mp) \<noteq> 0"
  shows "(evictLowestFee ks mp newFee = (False, mp) \<and> (\<forall>k e. fmlookup (mpPending mp) k = Some e \<longrightarrow> newFee \<le> fee e))
    \<or> (\<exists>k e. evictLowestFee ks mp newFee = (True, mp\<lparr>mpPending := fmdrop k (mpPending mp)\<rparr>)
         \<and> fmlookup (mpPending mp) k = Some e \<and> fee e < newFee
         \<and> (\<forall>k' e'. fmlookup (mpPending mp) k' = Some e' \<longrightarrow> fee e \<le> fee e'))"
proof -
  obtain k1 f1 where f: "foldl (lowest_step mp) (0, MaxUint64) ks = (k1, f1)" by fastforce
  have all: "\<forall>k\<in>set ks. fmlookup (mpPending mp) k \<noteq> None" using assms(1) by (simp add: map_order_lookup)
  have mem: "k \<in> set ks" if "fmlookup (mpPending mp) k = Some e" for k e
    using assms(1) that by (simp add: map_order_lookup)
  note low = lowest_fold [OF all f]
  have min: "f1 \<le> fee e" if "fmlookup (mpPending mp) k = Some e" for k e using low mem that by blast
  show ?thesis
  proof (cases "f1 < newFee")
    case False
    then have "evictLowestFee ks mp newFee = (False, mp)" using assms(2) f by (simp add: evictLowestFee_def)
    moreover have "newFee \<le> fee e" if "fmlookup (mpPending mp) k = Some e" for k e
      using False min [OF that] by simp
    ultimately show ?thesis by blast
  next
    case True
    have "newFee \<le> MaxUint64" using unat_u64_le [of newFee] by (simp add: MaxUint64_def word_le_nat_alt)
    then have "f1 \<noteq> MaxUint64" using True by auto
    then obtain e where e: "fmlookup (mpPending mp) k1 = Some e" "f1 = fee e" using low by auto
    have "evictLowestFee ks mp newFee = (True, mp\<lparr>mpPending := fmdrop k1 (mpPending mp)\<rparr>)"
      using True assms(2) f by (simp add: evictLowestFee_def)
    then show ?thesis using e min True by blast
  qed
qed

lemma mp_inv_drop: "mp_inv mp \<Longrightarrow> mp_inv (mp\<lparr>mpPending := fmfilter P (mpPending mp)\<rparr>)"
  using fmsize_filter_le [of P "mpPending mp"] by (auto simp: mp_inv_def)

lemma fmdrop_is_filter: "fmdrop k m = fmfilter (\<lambda>j. j \<noteq> k) m"
  by (simp add: fmfilter_alt_defs)

lemma admit_inv:
  assumes "mp_inv mp" "fmsize (mpPending mp) < MaxMempoolSize"
  shows "mp_inv (fst (snd (admit K t1 t2 mp state tx)))"
  using assms
  by (auto simp: admit_eq mp_inv_def fmsize_fmupd acceptable_def MinFee_def word_le_nat_alt)

lemma Add_cases:
  assumes "map_order (mpPending mp) ks"
  shows "(fmsize (mpPending mp) < MaxMempoolSize \<and> Mempool_Add K ks t1 t2 mp state tx = admit K t1 t2 mp state tx)
    \<or> (MaxMempoolSize \<le> fmsize (mpPending mp)
       \<and> (\<forall>k e. fmlookup (mpPending mp) k = Some e \<longrightarrow> txFee tx \<le> fee e)
       \<and> Mempool_Add K ks t1 t2 mp state tx = (False, mp, state))
    \<or> (\<exists>k e. MaxMempoolSize \<le> fmsize (mpPending mp)
       \<and> fmlookup (mpPending mp) k = Some e \<and> fee e < txFee tx
       \<and> (\<forall>k' e'. fmlookup (mpPending mp) k' = Some e' \<longrightarrow> fee e \<le> fee e')
       \<and> Mempool_Add K ks t1 t2 mp state tx
          = admit K t1 t2 (mp\<lparr>mpPending := fmdrop k (mpPending mp)\<rparr>) state tx)"
proof (cases "fmsize (mpPending mp) < MaxMempoolSize")
  case True
  then show ?thesis by (simp add: Mempool_Add_def)
next
  case False
  then have "fmsize (mpPending mp) \<noteq> 0" by (auto simp: MaxMempoolSize_def)
  from evict_spec [OF assms this, of "txFee tx"] show ?thesis
  proof (elim disjE exE conjE)
    fix k e
    assume "evictLowestFee ks mp (txFee tx) = (True, mp\<lparr>mpPending := fmdrop k (mpPending mp)\<rparr>)"
      "fmlookup (mpPending mp) k = Some e" "fee e < txFee tx"
      "\<forall>k' e'. fmlookup (mpPending mp) k' = Some e' \<longrightarrow> fee e \<le> fee e'"
    then show ?thesis using False by (intro disjI2 exI [of _ k] exI [of _ e]) (simp add: Mempool_Add_def)
  qed (use False in \<open>simp add: Mempool_Add_def\<close>)
qed

lemma Add_inv:
  assumes "mp_inv mp" "map_order (mpPending mp) ks"
  shows "mp_inv (fst (snd (Mempool_Add K ks t1 t2 mp state tx)))"
proof -
  have "mp_inv (fst (snd (admit K t1 t2 (mp\<lparr>mpPending := fmdrop k (mpPending mp)\<rparr>) state tx)))"
    if "fmlookup (mpPending mp) k = Some e" for k e
  proof (rule admit_inv)
    show "mp_inv (mp\<lparr>mpPending := fmdrop k (mpPending mp)\<rparr>)"
      unfolding fmdrop_is_filter by (rule mp_inv_drop [OF assms(1)])
    show "fmsize (mpPending (mp\<lparr>mpPending := fmdrop k (mpPending mp)\<rparr>)) < MaxMempoolSize"
      using assms(1) fmsize_fmdrop [of "mpPending mp" k] that by (simp add: mp_inv_def)
  qed
  then show ?thesis
    using Add_cases [OF assms(2), of K t1 t2 state tx] admit_inv [OF assms(1)] assms(1) by auto
qed

text \<open>Facts on the list of pending entries in an iteration order.\<close>

lemma pendingEntries_map:
  "map_order (mpPending mp) ks \<Longrightarrow> pendingEntries ks mp = map (\<lambda>k. the (fmlookup (mpPending mp) k)) ks"
proof -
  assume "map_order (mpPending mp) ks"
  then have "\<forall>k\<in>set ks. \<exists>e. fmlookup (mpPending mp) k = Some e" by (simp add: map_order_lookup)
  then show ?thesis unfolding pendingEntries_def by (induction ks) (auto simp: map_filter_simps)
qed

lemma pendingEntries_keys:
  assumes "mp_inv mp" "map_order (mpPending mp) ks"
  shows "map (\<lambda>e. array32 (txSig (meTx e))) (pendingEntries ks mp) = ks"
proof -
  have "array32 (txSig (meTx (the (fmlookup (mpPending mp) k)))) = k" if "k \<in> set ks" for k
    using assms that by (auto simp: mp_inv_def map_order_lookup)
  then show ?thesis unfolding pendingEntries_map [OF assms(2)] by (simp add: map_idI)
qed

lemma pendingEntries_set:
  "map_order (mpPending mp) ks \<Longrightarrow> e \<in> set (pendingEntries ks mp) \<longleftrightarrow> (\<exists>k. fmlookup (mpPending mp) k = Some e)"
proof -
  assume o: "map_order (mpPending mp) ks"
  have "(\<exists>k\<in>set ks. e = the (fmlookup (mpPending mp) k)) \<longleftrightarrow> (\<exists>k. fmlookup (mpPending mp) k = Some e)"
    using o map_order_lookup [OF o] by (metis option.sel option.exhaust_sel option.distinct(1))
  then show ?thesis by (simp add: pendingEntries_map [OF o] image_iff)
qed

lemma map_order_filter: "map_order m ks \<Longrightarrow> map_order (fmfilter P m) (filter P ks)"
  by (auto simp: map_order_def)

lemma pendingEntries_mset:
  assumes "map_order (mpPending mp) ks" "map_order (mpPending mp) ks'"
  shows "mset (pendingEntries ks mp) = mset (pendingEntries ks' mp)"
proof -
  have "mset ks = mset ks'" using assms set_eq_iff_mset_eq_distinct [of ks ks'] by (simp add: map_order_def)
  then show ?thesis by (simp add: pendingEntries_map assms mset_map)
qed

abbreviation by_fee :: "MempoolEntry list \<Rightarrow> MempoolEntry list" where
  "by_fee \<equiv> sort_key (\<lambda>e. - uint (fee e))"

lemma by_fee_sorted: "sorted_wrt (\<lambda>a b. fee b \<le> fee a) (by_fee es)"
proof -
  have "sorted (map (\<lambda>e. - uint (fee e)) (by_fee es))" by (rule sorted_sort_key)
  then show ?thesis unfolding sorted_map by (rule sorted_wrt_mono_rel [rotated]) (simp add: word_le_def)
qed

lemma batch_rest:
  fixes n :: nat
  assumes "mp_inv mp" "map_order (mpPending mp) ks"
  defines "S \<equiv> by_fee (pendingEntries ks mp)"
  defines "P \<equiv> \<lambda>k. k \<notin> (\<lambda>tx. array32 (txSig tx)) ` set (map meTx (take n S))"
  shows "mset (pendingEntries (filter P ks) (mp\<lparr>mpPending := fmfilter P (mpPending mp)\<rparr>)) = mset (drop n S)"
proof -
  let ?key = "\<lambda>e. array32 (txSig (meTx e))" and ?mp = "mp\<lparr>mpPending := fmfilter P (mpPending mp)\<rparr>"
  have o: "map_order (mpPending ?mp) (filter P ks)" using map_order_filter [OF assms(2)] by simp
  have "distinct (map ?key (pendingEntries ks mp))"
    using pendingEntries_keys [OF assms(1,2)] assms(2) by (simp add: map_order_def)
  then have "distinct (map ?key S)"
    unfolding S_def by (simp add: distinct_map) 
  then have d: "distinct (map ?key (take n S) @ map ?key (drop n S))"
    by (metis append_take_drop_id map_append)
  have "filter (\<lambda>e. P (?key e)) S = filter (\<lambda>e. P (?key e)) (take n S) @ filter (\<lambda>e. P (?key e)) (drop n S)"
    by (metis append_take_drop_id filter_append)
  also have "filter (\<lambda>e. P (?key e)) (take n S) = []" by (auto simp: P_def filter_empty_conv)
  also have "filter (\<lambda>e. P (?key e)) (drop n S) = drop n S" using d by (intro filter_True) (auto simp: P_def)
  finally have S: "filter (\<lambda>e. P (?key e)) S = drop n S" by simp
  have "pendingEntries (filter P ks) ?mp = map (\<lambda>k. the (fmlookup (mpPending mp) k)) (filter P ks)"
    unfolding pendingEntries_map [OF o] by (rule map_cong) auto
  also have "\<dots> = filter (\<lambda>e. P (?key e)) (pendingEntries ks mp)"
    using assms(1,2) unfolding pendingEntries_map [OF assms(2)] filter_map o_def
    by (intro arg_cong [of _ _ "map _"] filter_cong) (auto simp: mp_inv_def map_order_lookup)
  finally have "mset (pendingEntries (filter P ks) ?mp) = filter_mset (\<lambda>e. P (?key e)) (mset (pendingEntries ks mp))"
    by simp
  also have "\<dots> = mset (filter (\<lambda>e. P (?key e)) S)" by (simp add: S_def)
  finally show ?thesis by (simp only: S)
qed

lemma GetBatch_inv: "mp_inv mp \<Longrightarrow> mp_inv (snd (GetBatch ks mp limit))"
  by (auto simp: GetBatch_def Let_def intro: mp_inv_drop)

lemma RemoveExpired_inv: "mp_inv mp \<Longrightarrow> mp_inv (snd (RemoveExpired now mp))"
  by (auto simp: RemoveExpired_def Let_def intro: mp_inv_drop)

section \<open>Operations of a pool\<close>

text \<open>The iteration order of a call is any order of the map at that time: the function \<open>ord\<close> chooses
  one for each map.\<close>

datatype mp_op = MpAdd time time Transaction | MpExpire time | MpBatch int

fun mp_step :: "('d, 'b) badger \<Rightarrow> (Mempool \<Rightarrow> addr list) \<Rightarrow> Mempool \<times> 'd StateManager option \<Rightarrow> mp_op
    \<Rightarrow> Mempool \<times> 'd StateManager option" where
  "mp_step K ord (mp, st) (MpAdd t1 t2 tx) = snd (Mempool_Add K (ord mp) t1 t2 mp st tx)"
| "mp_step K ord (mp, st) (MpExpire now) = (snd (RemoveExpired now mp), st)"
| "mp_step K ord (mp, st) (MpBatch limit) = (snd (GetBatch (ord mp) mp limit), st)"

definition orders :: "(Mempool \<Rightarrow> addr list) \<Rightarrow> bool" where
  "orders ord \<longleftrightarrow> (\<forall>mp. map_order (mpPending mp) (ord mp))"

lemma mp_step_inv: "orders ord \<Longrightarrow> mp_inv (fst s) \<Longrightarrow> mp_inv (fst (mp_step K ord s e))"
  by (cases s; cases e) (auto simp: Add_inv RemoveExpired_inv GetBatch_inv orders_def)

interpretation pool: op_system "mp_step K ord" "\<lambda>s. orders ord \<and> mp_inv (fst s)" for K :: "('d, 'b) badger" and ord
  by unfold_locales (auto simp: mp_step_inv)

section \<open>Where pending transactions come from\<close>

text \<open>\<open>None\<close>: no pool is attached.\<close>

definition pool_txs :: "Mempool option \<Rightarrow> Transaction set" where
  "pool_txs p = (case p of None \<Rightarrow> {} | Some mp \<Rightarrow> {tx. \<exists>k e. fmlookup (mpPending mp) k = Some e \<and> tx = meTx e})"

lemma pool_txs_mono:
  "(\<And>k e. fmlookup (mpPending mp') k = Some e \<Longrightarrow> fmlookup (mpPending mp) k = Some e \<or> meTx e \<in> T)
     \<Longrightarrow> pool_txs (Some mp') \<subseteq> pool_txs (Some mp) \<union> T"
  by (auto simp: pool_txs_def)

lemma Add_entries:
  assumes "Mempool_Add K ks t1 t2 mp st tx = (ok, mp', st')" "fmlookup (mpPending mp') k = Some e"
  shows "fmlookup (mpPending mp) k = Some e \<or> meTx e = tx"
proof -
  have a: "fmlookup (mpPending m) k = Some e \<or> meTx e = tx" if "admit K t1 t2 m st tx = (ok, mp', st')" for m
    using admit_eq(2) [of K t1 t2 m st tx] that assms(2) by (auto split: if_splits)
  have "fmlookup (mpPending m) k = Some e \<Longrightarrow> fmlookup (mpPending mp) k = Some e"
    if "evictLowestFee ks mp f = (room, m)" for f room m
    using that by (auto simp: evictLowestFee_def Let_def split: if_splits prod.splits)
  then show ?thesis using a assms by (auto simp: Mempool_Add_def split: if_splits prod.splits)
qed

lemma Add_txs: "Mempool_Add K ks t1 t2 mp st tx = (ok, mp', st') \<Longrightarrow> pool_txs (Some mp') \<subseteq> insert tx (pool_txs (Some mp))"
  using pool_txs_mono [of mp' mp "{tx}"] Add_entries by blast

lemma added_pending:
  "acceptable K t1 NewMempool st tx \<Longrightarrow> Mempool_Add K ks t1 t2 NewMempool st tx = (ok, mp', st') \<Longrightarrow> tx \<in> pool_txs (Some mp')"
  using admit_eq(2) [of K t1 t2 NewMempool st tx]
  by (auto simp: Mempool_Add_def NewMempool_def fmsize_def fcard.rep_eq MaxMempoolSize_def pool_txs_def split: if_splits)

lemma removal_txs:
  "pool_txs (Some (snd (RemoveExpired now mp))) \<subseteq> pool_txs (Some mp)"
  "pool_txs (Some (snd (GetBatch ks mp limit))) \<subseteq> pool_txs (Some mp)"
  by (auto simp: pool_txs_def RemoveExpired_def GetBatch_def Let_def split: if_splits)

text \<open>The contract of everything that feeds a pool: a step leaves nothing pending but what was pending before and
  what the operation offered. So whatever is pending after a run was offered by one of its operations.\<close>

locale tx_intake = op_system step inv
  for step :: "'s \<Rightarrow> 'op \<Rightarrow> 's" and inv :: "'s \<Rightarrow> bool" +
  fixes pending :: "'s \<Rightarrow> Transaction set" and offered :: "'op \<Rightarrow> Transaction set"
  assumes pending_step: "inv s \<Longrightarrow> pending (step s e) \<subseteq> pending s \<union> offered e"
begin

lemma provenance: "inv s \<Longrightarrow> pending (foldl step s es) \<subseteq> pending s \<union> (\<Union>e\<in>set es. offered e)"
proof (induction es arbitrary: s)
  case (Cons e es)
  then show ?case using pending_step [of s e] inv_step [of s e] by fastforce
qed simp

end

fun mp_offered :: "mp_op \<Rightarrow> Transaction set" where
  "mp_offered (MpAdd t1 t2 tx) = {tx}"
| "mp_offered _ = {}"

lemma mp_step_txs: "pool_txs (Some (fst (mp_step K ord s e))) \<subseteq> pool_txs (Some (fst s)) \<union> mp_offered e"
proof (cases "(K, ord, s, e)" rule: mp_step.cases)
  case (1 K ord mp st t1 t2 tx)
  obtain ok mp' st' where "Mempool_Add K (ord mp) t1 t2 mp st tx = (ok, mp', st')" by (metis prod_cases3)
  with 1 Add_txs [OF this] show ?thesis by simp
qed (use removal_txs in auto)

interpretation intake: tx_intake "mp_step K ord" "\<lambda>_. True" "\<lambda>s. pool_txs (Some (fst s))" mp_offered
  for K :: "('d, 'b) badger" and ord
  by unfold_locales (simp_all add: mp_step_txs)

text \<open>The statistics loop over a list of positive fees.\<close>

lemma stats_step_eq:
  "stats_step \<lparr>msTxCount = c, msTotalFees = t, msMinFee = mn, msMaxFee = mx, msAvgFee = a\<rparr> e =
     \<lparr>msTxCount = c, msTotalFees = t + fee e, msMinFee = (if fee e < mn \<or> mn = 0 then fee e else mn),
      msMaxFee = (if mx < fee e then fee e else mx), msAvgFee = a\<rparr>"
  by (simp add: stats_step_def Let_def)

lemma stats_fold:
  assumes "\<forall>e\<in>set es. 0 < fee e" and "es \<noteq> []"
    and "st0 = \<lparr>msTxCount = c, msTotalFees = 0, msMinFee = 0, msMaxFee = 0, msAvgFee = 0\<rparr>"
  shows "foldl stats_step st0 es =
    \<lparr>msTxCount = c, msTotalFees = sum_list (map fee es), msMinFee = Min (fee ` set es),
     msMaxFee = Max (fee ` set es), msAvgFee = 0\<rparr>"
  using assms(1,2)
proof (induction es rule: rev_induct)
  case (snoc e es)
  show ?case
  proof (cases "es = []")
    case True
    then show ?thesis using snoc.prems by (auto simp: stats_step_def Let_def assms(3))
  next
    case False
    let ?A = "fee ` set es"
    have m: "Min ?A \<in> ?A" "Max ?A \<in> ?A" using False by (auto intro!: Min_in Max_in)
    then have "Min ?A \<noteq> 0" using snoc.prems(1) by auto
    moreover have "Min (insert (fee e) ?A) = min (fee e) (Min ?A)" "Max (insert (fee e) ?A) = max (fee e) (Max ?A)"
      using False by (auto intro: Min_insert Max_insert)
    moreover have "Min ?A \<le> Max ?A" using False m by auto
    ultimately have
      "(if fee e < Min ?A \<or> Min ?A = 0 then fee e else Min ?A) = Min (fee ` set (es @ [e]))"
      "(if Max ?A < fee e then fee e else Max ?A) = Max (fee ` set (es @ [e]))"
      by (simp_all add: min_def max_def) (metis le_less not_le)+
    with snoc False show ?thesis by (simp add: stats_step_eq)
  qed
qed simp

section \<open>Properties\<close>

text \<open>C21: the pool is always in order. After any sequence of additions, expiry sweeps and batches on a
  new pool, for any account store, clock readings and iteration orders: there are at most 10000
  pending transactions, every one pays at least the minimum fee of 1000, is stored under the first
  32 bytes of its signature and expires one hour after it was added.\<close>

theorem mempool_invariant:
  assumes "orders ord" and "s = foldl (mp_step K ord) (NewMempool, st) ops"
  shows "Count (fst s) \<le> 10000
    \<and> (\<forall>k e. fmlookup (mpPending (fst s)) k = Some e \<longrightarrow>
         k = array32 (txSig (meTx e)) \<and> 1000 \<le> unat (txFee (meTx e))
         \<and> meExpiresAt e = meAddedAt e + 3600 * 1000000000)"
proof -
  have "orders ord \<and> mp_inv (fst (NewMempool, st))" using assms(1) by (simp add: NewMempool_def mp_inv_def)
  then have "mp_inv (fst s)" unfolding assms(2) using pool.inv_run by blast
  then show ?thesis by (auto simp: mp_inv_def Count_def MaxMempoolSize_def MinFee_def TxTTL_def word_le_nat_alt)
qed

lemma admitted:
  assumes "Mempool_Add K ks t1 t2 mp state tx = (ok, mp', state')"
    and "Mempool_Add K ks t1 t2 mp state tx = admit K t1 t2 m state tx"
  shows "ok \<longleftrightarrow> acceptable K t1 m state tx"
    "mp' = (if ok then m\<lparr>mpPending := fmupd (array32 (txSig tx)) (new_entry t2 tx) (mpPending m)\<rparr> else m)"
  using admit_eq [of K t1 t2 m state tx] assms by simp_all

text \<open>C22: what \<open>Add\<close> accepts. Below the size limit a transaction is accepted exactly when it pays the
  minimum fee, is not expired, has a nonce above the sender's current one and its signature prefix is
  not pending yet; then exactly its entry is added, else nothing changes. At the limit it is refused,
  and nothing changes, unless it pays more than some pending transaction; then one transaction of
  minimal fee is removed first, and it stays removed even if the new one is then refused.\<close>

theorem mempool_add:
  assumes "map_order (mpPending mp) ks" and "Mempool_Add K ks t1 t2 mp state tx = (ok, mp', state')"
  shows "(Count mp < 10000 \<longrightarrow>
      (ok \<longleftrightarrow> acceptable K t1 mp state tx)
      \<and> mp' = (if ok then mp\<lparr>mpPending := fmupd (array32 (txSig tx)) (new_entry t2 tx) (mpPending mp)\<rparr> else mp))
    \<and> (10000 \<le> Count mp \<and> (\<forall>k e. fmlookup (mpPending mp) k = Some e \<longrightarrow> txFee tx \<le> fee e) \<longrightarrow>
      \<not> ok \<and> mp' = mp)
    \<and> (10000 \<le> Count mp \<and> (\<exists>k e. fmlookup (mpPending mp) k = Some e \<and> fee e < txFee tx) \<longrightarrow>
      (\<exists>k e room. fmlookup (mpPending mp) k = Some e
        \<and> (\<forall>k' e'. fmlookup (mpPending mp) k' = Some e' \<longrightarrow> fee e \<le> fee e')
        \<and> room = mp\<lparr>mpPending := fmdrop k (mpPending mp)\<rparr>
        \<and> (ok \<longleftrightarrow> acceptable K t1 room state tx)
        \<and> mp' = (if ok then room\<lparr>mpPending := fmupd (array32 (txSig tx)) (new_entry t2 tx) (mpPending room)\<rparr>
                  else room)))"
proof -
  note a = admitted [OF assms(2)]
  note c = Add_cases [OF assms(1), of K t1 t2 state tx]
  show ?thesis
  proof (intro conjI impI)
    assume "10000 \<le> Count mp \<and> (\<exists>k e. fmlookup (mpPending mp) k = Some e \<and> fee e < txFee tx)"
    with c obtain k e where k: "fmlookup (mpPending mp) k = Some e"
      "\<forall>k' e'. fmlookup (mpPending mp) k' = Some e' \<longrightarrow> fee e \<le> fee e'"
      "Mempool_Add K ks t1 t2 mp state tx = admit K t1 t2 (mp\<lparr>mpPending := fmdrop k (mpPending mp)\<rparr>) state tx"
      by (auto simp: Count_def MaxMempoolSize_def not_less [symmetric])
    from a [OF k(3)] k(1,2)
    show "\<exists>k e room. fmlookup (mpPending mp) k = Some e
        \<and> (\<forall>k' e'. fmlookup (mpPending mp) k' = Some e' \<longrightarrow> fee e \<le> fee e')
        \<and> room = mp\<lparr>mpPending := fmdrop k (mpPending mp)\<rparr>
        \<and> (ok \<longleftrightarrow> acceptable K t1 room state tx)
        \<and> mp' = (if ok then room\<lparr>mpPending := fmupd (array32 (txSig tx)) (new_entry t2 tx) (mpPending room)\<rparr>
                  else room)" by blast
  next
    assume "Count mp < 10000"
    then have "Mempool_Add K ks t1 t2 mp state tx = admit K t1 t2 mp state tx"
      by (simp add: Mempool_Add_def Count_def MaxMempoolSize_def)
    from a [OF this] show "ok \<longleftrightarrow> acceptable K t1 mp state tx"
      "mp' = (if ok then mp\<lparr>mpPending := fmupd (array32 (txSig tx)) (new_entry t2 tx) (mpPending mp)\<rparr> else mp)"
      by blast+
  next
    assume "10000 \<le> Count mp \<and> (\<forall>k e. fmlookup (mpPending mp) k = Some e \<longrightarrow> txFee tx \<le> fee e)"
    then have "Mempool_Add K ks t1 t2 mp state tx = (False, mp, state)"
      using c by (auto simp: Count_def MaxMempoolSize_def not_less [symmetric])
    then show "\<not> ok" "mp' = mp" using assms(2) by auto
  qed
qed

lemma batch_split:
  assumes "mp_inv mp" and "map_order (mpPending mp) ks" and "GetBatch ks mp limit = (batch, mp')"
    and "map_order (mpPending mp') ks'"
  shows "length batch = min (nat limit) (Count mp)
    \<and> sorted_wrt (\<lambda>a b. txFee b \<le> txFee a) batch
    \<and> mset (GetAll ks mp) = mset batch + mset (GetAll ks' mp')
    \<and> (\<forall>tx\<in>set batch. \<forall>tx'\<in>set (GetAll ks' mp'). txFee tx' \<le> txFee tx)"
proof (cases "fmsize (mpPending mp) = 0")
  case True
  then have b: "batch = []" "mp' = mp" using assms(3) by (auto simp: GetBatch_def)
  then show ?thesis
    using True assms(2,4) pendingEntries_mset [of mp ks ks'] by (simp add: Count_def GetAll_def mset_map)
next
  case False
  define S where "S = by_fee (pendingEntries ks mp)"
  define n where "n = nat limit"
  define P where "P = (\<lambda>k. k \<notin> (\<lambda>tx. array32 (txSig tx)) ` set (map meTx (take n S)))"
  have b: "batch = map meTx (take n S)" "mp' = mp\<lparr>mpPending := fmfilter P (mpPending mp)\<rparr>"
    using False assms(3) by (auto simp: GetBatch_def Let_def S_def n_def P_def)
  have o': "map_order (mpPending mp') (filter P ks)" using map_order_filter [OF assms(2)] by (simp add: b)
  have rest: "mset (pendingEntries ks' mp') = mset (drop n S)"
    using pendingEntries_mset [OF assms(4) o'] batch_rest [OF assms(1,2), of n]
    by (simp add: b P_def S_def)
  have len: "length S = Count mp"
    using map_order_length [OF assms(2)] pendingEntries_map [OF assms(2)] by (simp add: S_def Count_def)
  have sorted: "sorted_wrt (\<lambda>a b. fee b \<le> fee a) (take n S @ drop n S)"
    using by_fee_sorted [of "pendingEntries ks mp"] by (simp add: S_def)
  have all: "mset (GetAll ks mp) = mset batch + mset (GetAll ks' mp')"
  proof -
    have "mset (GetAll ks mp) = image_mset meTx (mset S)" by (simp add: GetAll_def S_def)
    also have "mset S = mset (take n S) + mset (drop n S)" by (metis append_take_drop_id mset_append)
    finally show ?thesis using rest by (simp add: GetAll_def b)
  qed
  have cross: "fee y \<le> fee x" if "x \<in> set (take n S)" "y \<in> set (drop n S)" for x y
    using sorted that unfolding sorted_wrt_append by blast
  have "set (GetAll ks' mp') = meTx ` set (drop n S)"
    using rest by (metis GetAll_def set_map set_mset_mset)
  then have "\<forall>tx\<in>set batch. \<forall>tx'\<in>set (GetAll ks' mp'). txFee tx' \<le> txFee tx"
    using cross by (auto simp: b)
  moreover have "sorted_wrt (\<lambda>a b. txFee b \<le> txFee a) batch"
    using sorted unfolding sorted_wrt_append by (simp add: b sorted_wrt_map)
  moreover have "length batch = min (nat limit) (Count mp)" using len by (simp add: b n_def min.commute)
  ultimately show ?thesis using all by blast
qed

text \<open>C23: a batch takes the best-paying transactions. \<open>GetBatch\<close> returns the smaller of the limit and
  the number of pending transactions, highest fee first; it removes exactly the returned ones from
  the pool; and no transaction that stays pays more than one that was taken. This holds for every
  iteration order and every order among equal fees.\<close>

theorem mempool_batch:
  assumes "mp_inv mp" and "map_order (mpPending mp) ks" and "GetBatch ks mp limit = (batch, mp')"
    and "map_order (mpPending mp') ks'"
  shows "length batch = min (nat limit) (Count mp)
    \<and> sorted_wrt (\<lambda>a b. txFee b \<le> txFee a) batch
    \<and> mset (GetAll ks mp) = mset batch + mset (GetAll ks' mp')
    \<and> (\<forall>tx\<in>set batch. \<forall>tx'\<in>set (GetAll ks' mp'). txFee tx' \<le> txFee tx)"
  using assms by (rule batch_split)

text \<open>The statistics. On every pool in order that is not empty they are the number of pending
  transactions, the sum of their fees modulo 2^64, the least and the greatest fee, and the quotient
  of the first two.\<close>

theorem mempool_stats:
  assumes "mp_inv mp" and "map_order (mpPending mp) ks" and "0 < Count mp"
  shows "Mempool_GetStats ks mp =
    (let fees = map txFee (GetAll ks mp) in
     \<lparr>msTxCount = Count mp, msTotalFees = sum_list fees, msMinFee = Min (set fees), msMaxFee = Max (set fees),
      msAvgFee = sum_list fees div of_nat (Count mp)\<rparr>)"
proof -
  let ?es = "pendingEntries ks mp"
  have "0 < fee e" if "e \<in> set ?es" for e
  proof -
    have "MinFee \<le> fee e" using that assms(1,2) by (auto simp: pendingEntries_set mp_inv_def)
    then show ?thesis by (simp add: MinFee_def word_le_nat_alt word_less_nat_alt)
  qed
  moreover have "?es \<noteq> []"
    using assms(3) map_order_length [OF assms(2)] pendingEntries_map [OF assms(2)] by (auto simp: Count_def)
  moreover have "set (map txFee (GetAll ks mp)) = fee ` set ?es" "map txFee (GetAll ks mp) = map fee ?es"
    by (auto simp: GetAll_def)
  ultimately show ?thesis
    using stats_fold [of ?es _ "fmsize (mpPending mp)", OF _ _ refl] assms(3)
    by (simp add: Mempool_GetStats_def Let_def Count_def)
qed

section \<open>Witnesses\<close>

definition pool_entry :: "nat \<Rightarrow> MempoolEntry" where
  "pool_entry i = new_entry 5 (sample_tx\<lparr>txFee := 2000, txSig := be_bytes 32 (of_nat i :: addr)\<rparr>)"

definition demo_pool :: "nat \<Rightarrow> Mempool" where
  "demo_pool n = \<lparr>mpPending = fmap_of_list (map (\<lambda>i. (of_nat i, pool_entry i)) [0..<n])\<rparr>"

abbreviation demo_order :: "nat \<Rightarrow> addr list" where
  "demo_order n \<equiv> map of_nat [0..<n]"

lemma demo_pool_order: "n \<le> 10000 \<Longrightarrow> map_order (mpPending (demo_pool n)) (demo_order n)"
proof -
  assume "n \<le> 10000"
  then have "inj_on (of_nat :: nat \<Rightarrow> addr) {0..<n}"
    by (intro inj_onI) (auto simp: word_unat_eq_iff unat_of_nat take_bit_eq_mod)
  then show ?thesis by (auto simp: map_order_def demo_pool_def distinct_map fset_of_list.rep_eq)
qed

lemma demo_pool_count: "n \<le> 10000 \<Longrightarrow> Count (demo_pool n) = n"
  using map_order_length [OF demo_pool_order, of n] by (simp add: Count_def)

lemma demo_pool_lookup: "fmlookup (mpPending (demo_pool n)) k = Some e \<Longrightarrow> \<exists>i<n. k = of_nat i \<and> e = pool_entry i"
  by (force simp: demo_pool_def fmlookup_of_list dest!: map_of_SomeD)

lemma demo_pool_inv: "n \<le> 10000 \<Longrightarrow> mp_inv (demo_pool n)"
  using demo_pool_count [of n]
  by (auto simp: mp_inv_def MaxMempoolSize_def Count_def MinFee_def pool_entry_def dest!: demo_pool_lookup)

definition key_order :: "Mempool \<Rightarrow> addr list" where
  "key_order mp = sorted_list_of_fset (fmdom (mpPending mp))"

lemma key_order_orders: "orders key_order"
  by (auto simp: orders_def map_order_def key_order_def sorted_list_of_fset.rep_eq)

theorem mempool_invariant_witness:
  "Count (fst (foldl (mp_step mem_badger key_order)
     (NewMempool, None) [MpAdd 1000000000000 1000000000000 sample_tx, MpBatch 3])) \<le> 10000"
  using mempool_invariant [OF key_order_orders refl] by blast

text \<open>A full pool of fee 2000: an expired transaction with fee 3000 is refused, and a pending one is gone.\<close>

theorem mempool_add_witness:
  "let r = Mempool_Add mem_badger (demo_order 10000) 0 0 (demo_pool 10000) None (sample_tx\<lparr>txFee := 3000\<rparr>)
   in \<not> fst r \<and> Count (fst (snd r)) = 9999"
proof -
  define mp where "mp = demo_pool 10000"
  define tx where "tx = sample_tx\<lparr>txFee := 3000\<rparr>"
  obtain ok mp' st' where r: "Mempool_Add mem_badger (demo_order 10000) 0 0 mp None tx = (ok, mp', st')"
    by (metis prod_cases3)
  have order: "map_order (mpPending mp) (demo_order 10000)" unfolding mp_def by (rule demo_pool_order) simp
  have size: "Count mp = 10000" unfolding mp_def by (rule demo_pool_count) simp
  have "mpPending mp \<noteq> fmempty" using size by (auto simp: Count_def)
  then obtain k0 e0 where k0: "fmlookup (mpPending mp) k0 = Some e0"
    by (metis fmap_ext fmempty_lookup not_None_eq)
  then have "fee e0 < txFee tx"
    by (auto simp: mp_def tx_def pool_entry_def dest!: demo_pool_lookup)
  with k0 size have full: "10000 \<le> Count mp \<and> (\<exists>k e. fmlookup (mpPending mp) k = Some e \<and> fee e < txFee tx)"
    by auto
  have exp: "\<not> acceptable mem_badger 0 room None tx" for room
    by (simp add: tx_def acceptable_def IsExpired_def sample_tx_def UnixNano_def TxMaxAge_def Let_def word_sless_alt)
  obtain k e where "fmlookup (mpPending mp) k = Some e" "\<not> ok"
    "mp' = mp\<lparr>mpPending := fmdrop k (mpPending mp)\<rparr>"
    using mempool_add [OF order r] full exp by force
  then have "\<not> ok \<and> Count mp' = 9999"
    using size fmsize_fmdrop [of "mpPending mp" k] by (simp add: Count_def)
  then show ?thesis using r by (simp add: mp_def tx_def)
qed

theorem mempool_batch_witness: "length (fst (GetBatch (demo_order 3) (demo_pool 3) 2)) = 2"
proof -
  let ?r = "GetBatch (demo_order 3) (demo_pool 3) 2"
  obtain ks' where "map_order (mpPending (snd ?r)) ks'" using map_order_exists by blast
  from mempool_batch [OF demo_pool_inv demo_pool_order, of 3 2 "fst ?r" "snd ?r", OF _ _ _ this]
  show ?thesis by (simp add: demo_pool_count)
qed

theorem mempool_stats_witness:
  "msAvgFee (Mempool_GetStats (demo_order 2) (demo_pool 2)) = 2000"
proof -
  have "map txFee (GetAll (demo_order 2) (demo_pool 2)) = [2000, 2000]"
    by (simp add: GetAll_def pendingEntries_def demo_pool_def pool_entry_def fmlookup_of_list map_filter_simps
        numeral_2_eq_2 del: be_bytes.simps)
  then show ?thesis
    using mempool_stats [OF demo_pool_inv demo_pool_order, of 2] by (simp add: demo_pool_count Let_def)
qed

end
