(* ===== verification/Net_Decode.thy ===== *)
theory Net_Decode
  imports Nova_Prelude
begin

text \<open>
  \<open>core/network/safedecode.go\<close>: decoding with a size limit.

  The reader under the limit is a \<open>bytes.Reader\<close>, that is, the bytes still to be read. A read
  returns the bytes it copied and an error: \<open>EOF\<close> at the end of the data, \<open>TooLarge\<close> when the limit
  is used up. The gob decoder is a parameter: a function from the bytes that its reader delivers,
  read in buffers of a positive size of the decoder's choice until an error, to the decoded value,
  or \<open>None\<close>.
\<close>

datatype NetErr = ErrMessageTooLarge | ErrDecodeFailed

datatype ReadErr = EOF | TooLarge

definition MaxMessageSize :: nat where "MaxMessageSize = 10 * 1024 * 1024"
definition MaxTxSize :: nat where "MaxTxSize = 64 * 1024"
definition MaxBlockSize :: nat where "MaxBlockSize = 5 * 1024 * 1024"
definition MaxPeersResponse :: nat where "MaxPeersResponse = 100"
definition MaxDAGSyncVertices :: nat where "MaxDAGSyncVertices = 1000"

record LimitedReader =
  lrData :: bytes
  lrN :: int

definition bytesReader_Read :: "bytes \<Rightarrow> nat \<Rightarrow> (bytes \<times> ReadErr option) \<times> bytes" where
  "bytesReader_Read r len = (if r = [] then (([], Some EOF), r) else ((take len r, None), drop len r))"

text \<open>\<open>Read\<close> into a buffer of \<open>len\<close> bytes.\<close>

definition LimitedReader_Read :: "LimitedReader \<Rightarrow> nat \<Rightarrow> (bytes \<times> ReadErr option) \<times> LimitedReader" where
  "LimitedReader_Read l len =
     (if lrN l \<le> 0 then (([], Some TooLarge), l)
      else let len = (if lrN l < int len then nat (lrN l) else len);
               ((p, err), r) = bytesReader_Read (lrData l) len
        in ((p, err), l\<lparr>lrData := r, lrN := lrN l - int (length p)\<rparr>))"

text \<open>What a decoder with buffers of \<open>Suc m\<close> bytes gets out of the reader.\<close>

function deliver :: "nat \<Rightarrow> LimitedReader \<Rightarrow> bytes" where
  "deliver m l =
     (let r = LimitedReader_Read l (Suc m); p = fst (fst r); err = snd (fst r); l' = snd r
      in if err = None then p @ deliver m l' else p)"
  by auto
termination
  by (relation "measure (\<lambda>(m, l). length (lrData l))")
    (auto simp: LimitedReader_Read_def bytesReader_Read_def Let_def split: if_splits)

declare deliver.simps [simp del]

definition SafeDecode :: "(bytes \<Rightarrow> 'v option) \<Rightarrow> nat \<Rightarrow> bytes \<Rightarrow> nat \<Rightarrow> NetErr + 'v" where
  "SafeDecode gob m data maxSize =
     (if maxSize < length data then Inl ErrMessageTooLarge
      else case gob (deliver m \<lparr>lrData = data, lrN = int maxSize\<rparr>) of
             None \<Rightarrow> Inl ErrDecodeFailed
           | Some v \<Rightarrow> Inr v)"

definition SafeDecodeTransaction :: "(bytes \<Rightarrow> 'v option) \<Rightarrow> nat \<Rightarrow> bytes \<Rightarrow> NetErr + 'v" where
  "SafeDecodeTransaction gob m data = SafeDecode gob m data MaxTxSize"

definition SafeDecodeBlock :: "(bytes \<Rightarrow> 'v option) \<Rightarrow> nat \<Rightarrow> bytes \<Rightarrow> NetErr + 'v" where
  "SafeDecodeBlock gob m data = SafeDecode gob m data MaxBlockSize"

definition SafeDecodeMessage :: "(bytes \<Rightarrow> 'v option) \<Rightarrow> nat \<Rightarrow> bytes \<Rightarrow> NetErr + 'v" where
  "SafeDecodeMessage gob m data = SafeDecode gob m data MaxMessageSize"

definition ValidatePayloadSize :: "bytes \<Rightarrow> nat \<Rightarrow> NetErr option" where
  "ValidatePayloadSize data maxSize = (if maxSize < length data then Some ErrMessageTooLarge else None)"

lemma deliver_take: "0 \<le> lrN l \<Longrightarrow> deliver m l = take (nat (lrN l)) (lrData l)"
proof (induction m l rule: deliver.induct)
  case (1 m l)
  show ?case
  proof (cases "lrN l = 0 \<or> lrData l = []")
    case True
    then show ?thesis using "1.prems"
      by (subst deliver.simps) (auto simp: LimitedReader_Read_def bytesReader_Read_def)
  next
    case False
    define n where "n = min (nat (lrN l)) (Suc m)"
    define l' where "l' = l\<lparr>lrData := drop n (lrData l), lrN := lrN l - int (min n (length (lrData l)))\<rparr>"
    have r: "LimitedReader_Read l (Suc m) = ((take n (lrData l), None), l')"
    proof -
      have "(if lrN l < int (Suc m) then nat (lrN l) else Suc m) = n" unfolding n_def min_def by (cases "lrN l < int (Suc m)"; simp; linarith)
      then show ?thesis using False "1.prems"
        by (simp add: LimitedReader_Read_def bytesReader_Read_def Let_def l'_def min.commute del: of_nat_Suc)
    qed
    have nn: "0 \<le> lrN l'" using "1.prems" by (auto simp: l'_def n_def)
    have "deliver m l' = take (nat (lrN l')) (lrData l')"
      using "1.IH" [OF refl refl refl refl] r nn by simp
    moreover have "deliver m l = take n (lrData l) @ deliver m l'"
      using r by (subst deliver.simps) simp
    moreover have "take n (lrData l) @ take (nat (lrN l')) (lrData l') = take (nat (lrN l)) (lrData l)"
    proof (cases "n \<le> length (lrData l)")
      case True
      then have "nat (lrN l') = nat (lrN l) - n" by (simp add: l'_def nat_diff_distrib n_def)
      moreover have "n \<le> nat (lrN l)" "lrData l' = drop n (lrData l)" by (simp_all add: n_def l'_def)
      ultimately show ?thesis
        using take_add [of n "nat (lrN l) - n" "lrData l"] by simp
    next
      case False
      then show ?thesis by (simp add: l'_def n_def)
    qed
    ultimately show ?thesis by simp
  qed
qed

text \<open>The size limit is exact and transparent. For every decoder, buffer size and limit, data longer
  than the limit is rejected without being decoded, and shorter data reaches the decoder unchanged
  and completely: the result is the decoder's on exactly that data. On a reader whose data is longer
  than its limit the decoder would see the first \<open>N\<close> bytes only.\<close>

theorem safe_decode:
  "SafeDecode gob m data maxSize =
     (if maxSize < length data then Inl ErrMessageTooLarge
      else case gob data of None \<Rightarrow> Inl ErrDecodeFailed | Some v \<Rightarrow> Inr v)
   \<and> deliver m \<lparr>lrData = data, lrN = int maxSize\<rparr> = take maxSize data
   \<and> (ValidatePayloadSize data maxSize = None \<longleftrightarrow> SafeDecode gob m data maxSize \<noteq> Inl ErrMessageTooLarge)"
  by (auto simp: SafeDecode_def deliver_take ValidatePayloadSize_def split: option.splits)

end
