(* ===== verification/Reputation.thy ===== *)
theory Reputation
  imports Nova_Prelude
begin

text \<open>
  \<open>core/p2p/reputation.go\<close>: peer scores and bans.

  Scores and counters are Go \<open>int\<close>s, 64 bits wide: they are words and the addition of a score
  adjustment wraps around. A clock reading is an argument of the operation that takes it. The
  \<open>Record*\<close> operations are two critical sections, a counter and \<open>AdjustScore\<close>.
\<close>

definition MaxReputation :: i64 where "MaxReputation = 100"
definition MinReputation :: i64 where "MinReputation = - 100"
definition InitialReputation :: i64 where "InitialReputation = 50"
definition ScoreValidBlock :: i64 where "ScoreValidBlock = 5"
definition ScoreInvalidBlock :: i64 where "ScoreInvalidBlock = - 20"
definition ScoreValidTx :: i64 where "ScoreValidTx = 1"
definition ScoreInvalidTx :: i64 where "ScoreInvalidTx = - 5"
definition ScoreTimeout :: i64 where "ScoreTimeout = - 10"
definition ScoreDisconnect :: i64 where "ScoreDisconnect = - 3"
definition ScoreProtocolError :: i64 where "ScoreProtocolError = - 15"
definition BanThreshold :: i64 where "BanThreshold = - 50"
definition SuspiciousThreshold :: i64 where "SuspiciousThreshold = 0"
definition TrustedThreshold :: i64 where "TrustedThreshold = 75"
definition BanDuration :: int where "BanDuration = 3600 * 1000000000"

text \<open>The zero \<open>time.Time\<close>: January 1 of year 1.\<close>

definition zeroTime :: time where "zeroTime = - 62135596800 * 1000000000"

record PeerReputation =
  prNodeID :: string
  prAddress :: string
  prScore :: i64
  prValidBlocks :: i64
  prInvalidBlocks :: i64
  prValidTxs :: i64
  prInvalidTxs :: i64
  prTimeouts :: i64
  prLastSeen :: time
  prFirstSeen :: time
  prBannedUntil :: time
  prIsBanned :: bool

record ReputationManager =
  rmPeers :: "(string, PeerReputation) fmap"
  rmBanned :: "(string, time) fmap"

definition NewReputationManager :: ReputationManager where
  "NewReputationManager = \<lparr>rmPeers = fmempty, rmBanned = fmempty\<rparr>"

definition updPeer :: "ReputationManager \<Rightarrow> string \<Rightarrow> (PeerReputation \<Rightarrow> PeerReputation) \<Rightarrow> ReputationManager" where
  "updPeer rm n f =
     (case fmlookup (rmPeers rm) n of
        Some rep \<Rightarrow> rm\<lparr>rmPeers := fmupd n (f rep) (rmPeers rm)\<rparr>
      | None \<Rightarrow> rm)"

definition cleanupExpiredBans :: "time \<Rightarrow> ReputationManager \<Rightarrow> ReputationManager" where
  "cleanupExpiredBans now rm =
     rm\<lparr>rmBanned := fmfilter (\<lambda>a. case fmlookup (rmBanned rm) a of
          Some expiry \<Rightarrow> \<not> expiry < now | None \<Rightarrow> True) (rmBanned rm),
        rmPeers := fmmap (\<lambda>rep. if prIsBanned rep \<and> prBannedUntil rep < now
          then rep\<lparr>prIsBanned := False, prScore := 0\<rparr> else rep) (rmPeers rm)\<rparr>"

definition GetOrCreate :: "time \<Rightarrow> time \<Rightarrow> ReputationManager \<Rightarrow> string \<Rightarrow> string \<Rightarrow> PeerReputation \<times> ReputationManager" where
  "GetOrCreate t1 t2 rm nodeID address =
     (case fmlookup (rmPeers rm) nodeID of
        Some rep \<Rightarrow>
          let rep = rep\<lparr>prLastSeen := t1\<rparr> in (rep, rm\<lparr>rmPeers := fmupd nodeID rep (rmPeers rm)\<rparr>)
      | None \<Rightarrow>
          let rep = \<lparr>prNodeID = nodeID, prAddress = address, prScore = InitialReputation,
                     prValidBlocks = 0, prInvalidBlocks = 0, prValidTxs = 0, prInvalidTxs = 0, prTimeouts = 0,
                     prLastSeen = t2, prFirstSeen = t1, prBannedUntil = zeroTime, prIsBanned = False\<rparr>
          in (rep, rm\<lparr>rmPeers := fmupd nodeID rep (rmPeers rm)\<rparr>))"

definition Reputation_Get :: "ReputationManager \<Rightarrow> string \<Rightarrow> PeerReputation option" where
  "Reputation_Get rm nodeID = fmlookup (rmPeers rm) nodeID"

definition clampScore :: "i64 \<Rightarrow> i64" where
  "clampScore score =
     (let score = (if MaxReputation <s score then MaxReputation else score)
      in if score <s MinReputation then MinReputation else score)"

definition AdjustScore :: "time \<Rightarrow> ReputationManager \<Rightarrow> string \<Rightarrow> i64 \<Rightarrow> ReputationManager" where
  "AdjustScore now rm nodeID delta =
     (case fmlookup (rmPeers rm) nodeID of
        None \<Rightarrow> rm
      | Some rep \<Rightarrow>
          let rep = rep\<lparr>prScore := clampScore (prScore rep + delta)\<rparr> in
          if prScore rep \<le>s BanThreshold \<and> \<not> prIsBanned rep
          then let rep = rep\<lparr>prIsBanned := True, prBannedUntil := now + BanDuration\<rparr>
            in rm\<lparr>rmPeers := fmupd nodeID rep (rmPeers rm),
                  rmBanned := fmupd (prAddress rep) (prBannedUntil rep) (rmBanned rm)\<rparr>
          else rm\<lparr>rmPeers := fmupd nodeID rep (rmPeers rm)\<rparr>)"

definition RecordValidBlock :: "time \<Rightarrow> ReputationManager \<Rightarrow> string \<Rightarrow> ReputationManager" where
  "RecordValidBlock now rm n =
     AdjustScore now (updPeer rm n (\<lambda>rep. rep\<lparr>prValidBlocks := prValidBlocks rep + 1\<rparr>)) n ScoreValidBlock"

definition RecordInvalidBlock :: "time \<Rightarrow> ReputationManager \<Rightarrow> string \<Rightarrow> ReputationManager" where
  "RecordInvalidBlock now rm n =
     AdjustScore now (updPeer rm n (\<lambda>rep. rep\<lparr>prInvalidBlocks := prInvalidBlocks rep + 1\<rparr>)) n ScoreInvalidBlock"

definition RecordValidTx :: "time \<Rightarrow> ReputationManager \<Rightarrow> string \<Rightarrow> ReputationManager" where
  "RecordValidTx now rm n =
     AdjustScore now (updPeer rm n (\<lambda>rep. rep\<lparr>prValidTxs := prValidTxs rep + 1\<rparr>)) n ScoreValidTx"

definition RecordInvalidTx :: "time \<Rightarrow> ReputationManager \<Rightarrow> string \<Rightarrow> ReputationManager" where
  "RecordInvalidTx now rm n =
     AdjustScore now (updPeer rm n (\<lambda>rep. rep\<lparr>prInvalidTxs := prInvalidTxs rep + 1\<rparr>)) n ScoreInvalidTx"

definition RecordTimeout :: "time \<Rightarrow> ReputationManager \<Rightarrow> string \<Rightarrow> ReputationManager" where
  "RecordTimeout now rm n =
     AdjustScore now (updPeer rm n (\<lambda>rep. rep\<lparr>prTimeouts := prTimeouts rep + 1\<rparr>)) n ScoreTimeout"

definition RecordDisconnect :: "time \<Rightarrow> ReputationManager \<Rightarrow> string \<Rightarrow> ReputationManager" where
  "RecordDisconnect now rm n = AdjustScore now rm n ScoreDisconnect"

definition RecordProtocolError :: "time \<Rightarrow> ReputationManager \<Rightarrow> string \<Rightarrow> ReputationManager" where
  "RecordProtocolError now rm n = AdjustScore now rm n ScoreProtocolError"

definition IsBanned :: "time \<Rightarrow> ReputationManager \<Rightarrow> string \<Rightarrow> bool" where
  "IsBanned now rm nodeID =
     (case fmlookup (rmPeers rm) nodeID of
        Some rep \<Rightarrow> prIsBanned rep \<and> now < prBannedUntil rep
      | None \<Rightarrow> False)"

definition IsAddressBanned :: "time \<Rightarrow> ReputationManager \<Rightarrow> string \<Rightarrow> bool" where
  "IsAddressBanned now rm address =
     (case fmlookup (rmBanned rm) address of Some expiry \<Rightarrow> now < expiry | None \<Rightarrow> False)"

definition BanPeer :: "time \<Rightarrow> ReputationManager \<Rightarrow> string \<Rightarrow> int \<Rightarrow> ReputationManager" where
  "BanPeer now rm nodeID duration =
     (case fmlookup (rmPeers rm) nodeID of
        Some rep \<Rightarrow>
          let rep = rep\<lparr>prIsBanned := True, prBannedUntil := now + duration\<rparr>
          in rm\<lparr>rmPeers := fmupd nodeID rep (rmPeers rm),
                rmBanned := fmupd (prAddress rep) (prBannedUntil rep) (rmBanned rm)\<rparr>
      | None \<Rightarrow> rm)"

definition UnbanPeer :: "ReputationManager \<Rightarrow> string \<Rightarrow> ReputationManager" where
  "UnbanPeer rm nodeID =
     (case fmlookup (rmPeers rm) nodeID of
        Some rep \<Rightarrow>
          rm\<lparr>rmPeers := fmupd nodeID (rep\<lparr>prIsBanned := False, prScore := InitialReputation\<rparr>) (rmPeers rm),
             rmBanned := fmdrop (prAddress rep) (rmBanned rm)\<rparr>
      | None \<Rightarrow> rm)"

definition IsTrusted :: "ReputationManager \<Rightarrow> string \<Rightarrow> bool" where
  "IsTrusted rm nodeID =
     (case fmlookup (rmPeers rm) nodeID of Some rep \<Rightarrow> TrustedThreshold \<le>s prScore rep | None \<Rightarrow> False)"

definition IsSuspicious :: "ReputationManager \<Rightarrow> string \<Rightarrow> bool" where
  "IsSuspicious rm nodeID =
     (case fmlookup (rmPeers rm) nodeID of Some rep \<Rightarrow> prScore rep <s SuspiciousThreshold | None \<Rightarrow> False)"

definition repsIn :: "string list \<Rightarrow> ReputationManager \<Rightarrow> PeerReputation list" where
  "repsIn ks rm = List.map_filter (fmlookup (rmPeers rm)) ks"

definition GetAllReputations :: "string list \<Rightarrow> ReputationManager \<Rightarrow> PeerReputation list" where
  "GetAllReputations ks rm = repsIn ks rm"

definition GetBannedPeers :: "string list \<Rightarrow> ReputationManager \<Rightarrow> string list" where
  "GetBannedPeers addrs rm = filter (\<lambda>a. fmlookup (rmBanned rm) a \<noteq> None) addrs"

definition GetTrustedPeers :: "string list \<Rightarrow> ReputationManager \<Rightarrow> string list" where
  "GetTrustedPeers ks rm = filter (\<lambda>n. case fmlookup (rmPeers rm) n of
     Some rep \<Rightarrow> TrustedThreshold \<le>s prScore rep \<and> \<not> prIsBanned rep | None \<Rightarrow> False) ks"

record ReputationStats =
  rsTotalPeers :: nat
  rsTrustedPeers :: nat
  rsSuspiciousPeers :: nat
  rsBannedPeers :: nat
  rsAverageScore :: i64

definition reputation_stats_step :: "i64 \<times> ReputationStats \<Rightarrow> PeerReputation \<Rightarrow> i64 \<times> ReputationStats" where
  "reputation_stats_step acc rep =
     (let (totalScore, st) = acc;
          totalScore = totalScore + prScore rep;
          st = (if TrustedThreshold \<le>s prScore rep then st\<lparr>rsTrustedPeers := rsTrustedPeers st + 1\<rparr> else st);
          st = (if prScore rep <s SuspiciousThreshold then st\<lparr>rsSuspiciousPeers := rsSuspiciousPeers st + 1\<rparr> else st);
          st = (if prIsBanned rep then st\<lparr>rsBannedPeers := rsBannedPeers st + 1\<rparr> else st)
      in (totalScore, st))"

definition Reputation_Stats :: "string list \<Rightarrow> ReputationManager \<Rightarrow> ReputationStats" where
  "Reputation_Stats ks rm =
     (let st = \<lparr>rsTotalPeers = fmsize (rmPeers rm), rsTrustedPeers = 0, rsSuspiciousPeers = 0,
                rsBannedPeers = 0, rsAverageScore = 0\<rparr>;
          (totalScore, st) = foldl reputation_stats_step (0, st) (repsIn ks rm)
      in if 0 < rsTotalPeers st
         then st\<lparr>rsAverageScore := go_sdiv totalScore (of_nat (rsTotalPeers st))\<rparr> else st)"

section \<open>Lemmas\<close>

abbreviation score_ok :: "i64 \<Rightarrow> bool" where
  "score_ok w \<equiv> - 100 \<le> sint w \<and> sint w \<le> 100"

definition rep_inv :: "ReputationManager \<Rightarrow> bool" where
  "rep_inv rm \<longleftrightarrow> (\<forall>n rep. fmlookup (rmPeers rm) n = Some rep \<longrightarrow> score_ok (prScore rep))"

lemma sint_consts [simp]:
  "sint MaxReputation = 100" "sint MinReputation = - 100" "sint InitialReputation = 50" "sint BanThreshold = - 50"
  "sint TrustedThreshold = 75" "sint SuspiciousThreshold = 0" "sint ScoreInvalidBlock = - 20"
  by (simp_all add: MaxReputation_def MinReputation_def InitialReputation_def BanThreshold_def
      TrustedThreshold_def SuspiciousThreshold_def ScoreInvalidBlock_def)

lemma sint_clamp: "sint (clampScore w) = max (- 100) (min 100 (sint w))"
  by (simp add: clampScore_def Let_def word_sless_alt max_def min_def)

lemma score_ok_clamp: "score_ok (clampScore w)"
  by (simp add: sint_clamp)

lemma AdjustScore_inv: "rep_inv rm \<Longrightarrow> rep_inv (AdjustScore now rm n d)"
  by (auto simp: rep_inv_def AdjustScore_def Let_def score_ok_clamp split: option.splits)

lemma updPeer_inv: "rep_inv rm \<Longrightarrow> (\<And>rep. prScore (f rep) = prScore rep) \<Longrightarrow> rep_inv (updPeer rm n f)"
  by (auto simp: rep_inv_def updPeer_def split: option.splits)

datatype rep_op =
    RpCreate time time string string | RpAdjust time string i64 | RpCleanup time
  | RpValidBlock time string | RpInvalidBlock time string | RpValidTx time string | RpInvalidTx time string
  | RpTimeout time string | RpDisconnect time string | RpProtocolError time string
  | RpBan time string int | RpUnban string

fun rep_step :: "ReputationManager \<Rightarrow> rep_op \<Rightarrow> ReputationManager" where
  "rep_step rm (RpCreate t1 t2 n a) = snd (GetOrCreate t1 t2 rm n a)"
| "rep_step rm (RpAdjust t n d) = AdjustScore t rm n d"
| "rep_step rm (RpCleanup t) = cleanupExpiredBans t rm"
| "rep_step rm (RpValidBlock t n) = RecordValidBlock t rm n"
| "rep_step rm (RpInvalidBlock t n) = RecordInvalidBlock t rm n"
| "rep_step rm (RpValidTx t n) = RecordValidTx t rm n"
| "rep_step rm (RpInvalidTx t n) = RecordInvalidTx t rm n"
| "rep_step rm (RpTimeout t n) = RecordTimeout t rm n"
| "rep_step rm (RpDisconnect t n) = RecordDisconnect t rm n"
| "rep_step rm (RpProtocolError t n) = RecordProtocolError t rm n"
| "rep_step rm (RpBan t n d) = BanPeer t rm n d"
| "rep_step rm (RpUnban n) = UnbanPeer rm n"

lemmas record_defs = RecordValidBlock_def RecordInvalidBlock_def RecordValidTx_def RecordInvalidTx_def
  RecordTimeout_def RecordDisconnect_def RecordProtocolError_def

interpretation reputation: op_system rep_step rep_inv
proof
  fix rm e assume i: "rep_inv rm"
  show "rep_inv (rep_step rm e)"
  proof (cases e)
    case (RpCleanup t)
    then show ?thesis using i by (auto simp: rep_inv_def cleanupExpiredBans_def)
  next
    case (RpCreate t1 t2 n a)
    then show ?thesis using i by (auto simp: rep_inv_def GetOrCreate_def Let_def split: option.splits)
  next
    case (RpBan t n d)
    then show ?thesis using i by (auto simp: rep_inv_def BanPeer_def Let_def split: option.splits)
  next
    case (RpUnban n)
    then show ?thesis using i by (auto simp: rep_inv_def UnbanPeer_def split: option.splits)
  qed (use i in \<open>auto simp: record_defs intro!: AdjustScore_inv updPeer_inv\<close>)
qed

lemma AdjustScore_peer:
  fixes d :: i64
  assumes "fmlookup (rmPeers rm) n = Some rep"
  defines "sc \<equiv> clampScore (prScore rep + d)"
  shows "fmlookup (rmPeers (AdjustScore now rm n d)) m =
    (if m = n then Some (if sint sc \<le> - 50 \<and> \<not> prIsBanned rep
       then rep\<lparr>prScore := sc, prIsBanned := True, prBannedUntil := now + BanDuration\<rparr>
       else rep\<lparr>prScore := sc\<rparr>) else fmlookup (rmPeers rm) m)"
    "fmlookup (rmBanned (AdjustScore now rm n d)) a =
      (if sint sc \<le> - 50 \<and> \<not> prIsBanned rep \<and> a = prAddress rep then Some (now + BanDuration)
       else fmlookup (rmBanned rm) a)"
  using assms by (auto simp: AdjustScore_def Let_def word_sle_eq)

lemma RecordInvalidBlock_peer:
  assumes "fmlookup (rmPeers rm) n = Some rep"
  defines "sc \<equiv> clampScore (prScore rep + ScoreInvalidBlock)"
  shows "fmlookup (rmPeers (RecordInvalidBlock now rm n)) n =
    Some (if sint sc \<le> - 50 \<and> \<not> prIsBanned rep
       then rep\<lparr>prInvalidBlocks := prInvalidBlocks rep + 1, prScore := sc, prIsBanned := True,
                prBannedUntil := now + BanDuration\<rparr>
       else rep\<lparr>prInvalidBlocks := prInvalidBlocks rep + 1, prScore := sc\<rparr>)"
proof -
  let ?rep = "rep\<lparr>prInvalidBlocks := prInvalidBlocks rep + 1\<rparr>"
  have "fmlookup (rmPeers (updPeer rm n (\<lambda>rep. rep\<lparr>prInvalidBlocks := prInvalidBlocks rep + 1\<rparr>))) n = Some ?rep"
    using assms by (simp add: updPeer_def)
  from AdjustScore_peer(1) [OF this, of now ScoreInvalidBlock n] show ?thesis
    by (simp add: RecordInvalidBlock_def sc_def)
qed

lemma sint_score_add:
  assumes "score_ok w" "- 1000 \<le> sint d" "sint d \<le> 1000"
  shows "sint (w + d :: i64) = sint w + sint d"
  using assms by (intro sint_add_i64) auto

abbreviation invalid_blocks :: "ReputationManager \<Rightarrow> string \<Rightarrow> time list \<Rightarrow> ReputationManager" where
  "invalid_blocks rm n ts \<equiv> foldl (\<lambda>rm t. RecordInvalidBlock t rm n) rm ts"

lemma invalid_blocks_state:
  assumes "rm0 = snd (GetOrCreate t1 t2 NewReputationManager n a)"
  shows "\<exists>rep. fmlookup (rmPeers (invalid_blocks rm0 n ts)) n = Some rep
    \<and> sint (prScore rep) = max (- 100) (50 - 20 * int (length ts))
    \<and> prIsBanned rep = (5 \<le> length ts) \<and> (5 \<le> length ts \<longrightarrow> prBannedUntil rep = ts ! 4 + BanDuration)"
proof (induction ts rule: rev_induct)
  case Nil
  then show ?case by (simp add: assms GetOrCreate_def NewReputationManager_def Let_def)
next
  case (snoc t ts)
  let ?k = "length ts"
  obtain rep where rep: "fmlookup (rmPeers (invalid_blocks rm0 n ts)) n = Some rep"
    "sint (prScore rep) = max (- 100) (50 - 20 * int ?k)" "prIsBanned rep = (5 \<le> ?k)"
    "5 \<le> ?k \<longrightarrow> prBannedUntil rep = ts ! 4 + BanDuration" using snoc by blast
  define sc where "sc = clampScore (prScore rep + ScoreInvalidBlock)"
  have sc: "sint sc = max (- 100) (50 - 20 * int (length (ts @ [t])))"
    using rep(2) by (simp add: sc_def sint_clamp sint_score_add)
  have "sint sc \<le> - 50 \<and> \<not> prIsBanned rep \<longleftrightarrow> ?k = 4" using sc rep(3) by auto
  then show ?case
    using RecordInvalidBlock_peer [OF rep(1), of t] sc rep(3,4)
    by (auto simp: sc_def nth_append)
qed

section \<open>Properties\<close>

text \<open>Scores stay in range. After any sequence of operations on a new manager, with adjustments by
  any \<open>int\<close> whatsoever (the addition may wrap around), every peer's score lies between -100 and 100;
  in particular no peer is trusted and suspicious at the same time.\<close>

theorem reputation_bounds:
  assumes "rm = foldl rep_step NewReputationManager ops" and "fmlookup (rmPeers rm) n = Some rep"
  shows "- 100 \<le> sint (prScore rep) \<and> sint (prScore rep) \<le> 100 \<and> \<not> (IsTrusted rm n \<and> IsSuspicious rm n)"
proof -
  have "rep_inv rm" unfolding assms(1) by (rule reputation.inv_run) (simp add: rep_inv_def NewReputationManager_def)
  then show ?thesis
    using assms(2) by (auto simp: rep_inv_def IsTrusted_def IsSuspicious_def word_sle_eq word_sless_alt)
qed

text \<open>Scoring and automatic bans. For a known peer that is not flagged as banned, an adjustment of at
  most 1000 in size sets the score to the clamped sum, changes no other peer, and bans the peer and
  its address, for exactly one hour from then, if and only if the new score is at most -50.\<close>

theorem adjust_score:
  assumes "rep_inv rm" and "fmlookup (rmPeers rm) n = Some rep" and "\<not> prIsBanned rep"
    and "- 1000 \<le> sint d" and "sint d \<le> 1000" and "rm' = AdjustScore now rm n d"
    and "sc = max (- 100) (min 100 (sint (prScore rep) + sint d))"
  shows "map_option (\<lambda>r. sint (prScore r)) (Reputation_Get rm' n) = Some sc
    \<and> (IsBanned t rm' n \<longleftrightarrow> sc \<le> - 50 \<and> t < now + 3600 * 1000000000)
    \<and> (sc \<le> - 50 \<longrightarrow> (IsAddressBanned t rm' (prAddress rep) \<longleftrightarrow> t < now + 3600 * 1000000000))
    \<and> (\<forall>m. m \<noteq> n \<longrightarrow> Reputation_Get rm' m = Reputation_Get rm m)"
proof -
  have "sint (clampScore (prScore rep + d)) = sc"
    using assms(1,2,4,5) by (simp add: sint_clamp sint_score_add rep_inv_def assms(7))
  then show ?thesis
    using assms(3)
    by (simp add: assms(6) Reputation_Get_def IsBanned_def IsAddressBanned_def AdjustScore_peer [OF assms(2)]
        BanDuration_def)
qed

text \<open>Five strikes. A new peer that sends invalid blocks at the times \<open>ts\<close> is banned at a time
  \<open>now\<close> if and only if there were at least five of them and less than an hour has passed since the
  fifth.\<close>

theorem invalid_blocks_ban:
  "IsBanned now (invalid_blocks (snd (GetOrCreate t1 t2 NewReputationManager n a)) n ts) n
     \<longleftrightarrow> 5 \<le> length ts \<and> now < ts ! 4 + 3600 * 1000000000"
  using invalid_blocks_state [OF refl, where n = n and ?t1.0 = t1 and ?t2.0 = t2 and a = a and ts = ts] by (auto simp: IsBanned_def BanDuration_def)

text \<open>An expired ban that has not been swept shields the peer. If a peer's ban flag is set and its ban
  has expired, then, until the next sweep, no sequence of score adjustments, however bad, bans it
  again: \<open>AdjustScore\<close> bans only peers whose flag is not set.\<close>

theorem stale_ban_immunity:
  assumes "fmlookup (rmPeers rm) n = Some rep" and "prIsBanned rep" and "prBannedUntil rep \<le> now"
  shows "\<not> IsBanned now (foldl (\<lambda>rm (t, d). AdjustScore t rm n d) rm adjustments) n"
  using assms(1,2,3)
proof (induction adjustments arbitrary: rm rep)
  case Nil
  then show ?case by (simp add: IsBanned_def)
next
  case (Cons td adjustments)
  obtain t d where td: "td = (t, d)" by (cases td)
  have "fmlookup (rmPeers (AdjustScore t rm n d)) n = Some (rep\<lparr>prScore := clampScore (prScore rep + d)\<rparr>)"
    using AdjustScore_peer(1) [OF Cons.prems(1), of t d n] Cons.prems(2) by simp
  from Cons.IH [OF this] Cons.prems show ?case by (simp add: td)
qed

definition demo_rm :: ReputationManager where
  "demo_rm = foldl rep_step NewReputationManager [RpCreate 0 0 ''n'' ''a'', RpBan 0 ''n'' 10]"

lemma demo_rm_lookup: "\<exists>rep. fmlookup (rmPeers demo_rm) ''n'' = Some rep \<and> prIsBanned rep \<and> prBannedUntil rep = 10"
  by (simp add: demo_rm_def GetOrCreate_def NewReputationManager_def BanPeer_def Let_def)

theorem reputation_bounds_witness: "\<exists>rep. fmlookup (rmPeers demo_rm) ''n'' = Some rep \<and> sint (prScore rep) \<le> 100"
  using demo_rm_lookup reputation_bounds [OF demo_rm_def, of "''n''"] by blast

theorem adjust_score_witness:
  "let rm = snd (GetOrCreate 0 0 NewReputationManager ''n'' ''a'')
   in IsBanned 5 (AdjustScore 0 rm ''n'' (- 100)) ''n'' \<and> \<not> IsBanned 5 (AdjustScore 0 rm ''n'' (- 99)) ''n''"
proof -
  define rm where "rm = snd (GetOrCreate 0 0 NewReputationManager ''n'' ''a'')"
  have i: "rep_inv rm" unfolding rm_def
    by (simp add: rep_inv_def GetOrCreate_def NewReputationManager_def Let_def)
  obtain rep where r: "fmlookup (rmPeers rm) ''n'' = Some rep" "\<not> prIsBanned rep" "sint (prScore rep) = 50"
    by (simp add: rm_def GetOrCreate_def NewReputationManager_def Let_def)
  show ?thesis
    using adjust_score [OF i r(1,2) _ _ refl refl, of "- 100" 0 5] adjust_score [OF i r(1,2) _ _ refl refl, of "- 99" 0 5]
    by (simp add: r(3) flip: rm_def)
qed

theorem stale_ban_immunity_witness:
  "\<not> IsBanned 10 (foldl (\<lambda>rm (t, d). AdjustScore t rm ''n'' d) demo_rm [(10, - 100), (10, - 100)]) ''n''"
  using demo_rm_lookup stale_ban_immunity [of demo_rm "''n''" _ 10 "[(10, - 100), (10, - 100)]"] by auto

end
