(* ===== verification/P2P_Server.thy ===== *)
theory P2P_Server
  imports Staking Pulse_Store Mempool Net_Decode Reputation
begin

text \<open>
  \<open>core/p2p/server.go\<close> and \<open>message.go\<close>: connection admission, the handshake, and the handlers of
  the protocol messages, over the components they drive (account store, DAG store, slasher, mempool,
  reputation).

  The network is represented by what the handlers get and do: a handler returns the messages it
  sends, with the addresses of the receiving peers, and the addresses it dials. The gob codec of each
  message type is a parameter (\<open>codec\<close>). The fields \<open>State\<close> and \<open>Executor\<close> of the Go server point to
  one account store; they may be nil, which the flags \<open>svHasState\<close> and \<open>svHasExecutor\<close> record. The
  process-wide database is the one in the account store. The mempool of the node is built over the
  same account store. A handler that reads the clock has the reading as argument.
\<close>

section \<open>Messages\<close>

type_synonym MessageType = u8

abbreviation MsgHandshake :: MessageType where "MsgHandshake \<equiv> 1"
abbreviation MsgBlock :: MessageType where "MsgBlock \<equiv> 2"
abbreviation MsgTx :: MessageType where "MsgTx \<equiv> 3"
abbreviation MsgGetAddr :: MessageType where "MsgGetAddr \<equiv> 4"
abbreviation MsgAddr :: MessageType where "MsgAddr \<equiv> 5"
abbreviation MsgGetDAG :: MessageType where "MsgGetDAG \<equiv> 6"
abbreviation MsgDAG :: MessageType where "MsgDAG \<equiv> 7"

record Message =
  msgType :: MessageType
  msgPayload :: bytes

record HandshakeData =
  hsVersion :: "32 word"
  hsNodeID :: string
  hsGenesisHash :: string
  hsHeight :: u64

record codec =
  decTx :: "bytes \<Rightarrow> Transaction option"
  decVertex :: "bytes \<Rightarrow> Vertex option"
  decTxs :: "bytes \<Rightarrow> Transaction list option"
  decAddr :: "bytes \<Rightarrow> string list option"
  decDAG :: "bytes \<Rightarrow> bytes list option"
  decHandshake :: "bytes \<Rightarrow> HandshakeData option"
  encVertex :: "Vertex \<Rightarrow> bytes option"
  encAddr :: "string list \<Rightarrow> bytes"
  encDAG :: "bytes list \<Rightarrow> bytes"
  encHandshake :: "HandshakeData \<Rightarrow> bytes option"
  bufSize :: nat

definition ProtocolVersion :: "32 word" where "ProtocolVersion = 1"

definition ComputeGenesisHash :: "crypto \<Rightarrow> string" where
  "ComputeGenesisHash C =
     EncodeToString (take 16 (be_bytes 32 (sha256 C (string_bytes ''supernova-mainnet-v1-genesis-2024''))))"

section \<open>The server\<close>

record Peer =
  peerAddr :: string
  peerOutbound :: bool
  peerNodeID :: string

record 'd Server =
  svPeers :: "(string, Peer) fmap"
  svKnownPeers :: "string fset"
  svNodeID :: string
  svDAG :: "VertexStore option"
  svState :: "'d StateManager"
  svHasState :: bool
  svHasExecutor :: bool
  svMempool :: "Mempool option"
  svSlasher :: "Slasher option"
  svConnCount :: "(string, int) fmap"
  svMaxPeers :: int
  svMaxPerIP :: int
  svReputation :: ReputationManager

record ('d, 'b) node_env =
  neCrypto :: crypto
  neBadger :: "('d, 'b) badger"
  neGob :: "'b vertex_gob"
  neOrd :: "hash fset \<Rightarrow> hash list"
  neCodec :: codec

definition NewServer :: "int \<Rightarrow> string \<Rightarrow> VertexStore option \<Rightarrow> 'd StateManager \<Rightarrow> bool \<Rightarrow> bool \<Rightarrow> Mempool option
    \<Rightarrow> 'd Server" where
  "NewServer maxPeers nodeID dag state hasState hasExec mempool =
     \<lparr>svPeers = fmempty, svKnownPeers = {||}, svNodeID = nodeID, svDAG = dag, svState = state,
      svHasState = hasState, svHasExecutor = hasExec, svMempool = mempool,
      svSlasher = Some (NewSlasher None), svConnCount = fmempty, svMaxPeers = maxPeers, svMaxPerIP = 5,
      svReputation = NewReputationManager\<rparr>"

text \<open>The host part of \<open>net.SplitHostPort\<close>, empty when the address is malformed.\<close>

definition SplitHost :: "string \<Rightarrow> string" where
  "SplitHost s =
     (let port = takeWhile (\<lambda>c. c \<noteq> CHR '':'') (rev s); i = length s - length port - 1 in
      if length port = length s then ''''
      else if hd s = CHR ''[''
      then let inside = takeWhile (\<lambda>c. c \<noteq> CHR '']'') (tl s); e = Suc (length inside) in
        if e < length s \<and> e + 1 = i \<and> CHR ''['' \<notin> set (drop 1 s) \<and> CHR '']'' \<notin> set (drop (e + 1) s)
        then inside else ''''
      else if CHR '':'' \<in> set (take i s) \<or> CHR ''['' \<in> set s \<or> CHR '']'' \<in> set s then ''''
      else take i s)"

definition connCount :: "'d Server \<Rightarrow> string \<Rightarrow> int" where
  "connCount s ip = (case fmlookup (svConnCount s) ip of Some n \<Rightarrow> n | None \<Rightarrow> 0)"

text \<open>One accepted connection in \<open>acceptLoop\<close>: true when \<open>handleConn\<close> is started for it.\<close>

definition acceptConn :: "time \<Rightarrow> 'd Server \<Rightarrow> string \<Rightarrow> bool \<times> 'd Server" where
  "acceptConn now s remote =
     (if svMaxPeers s \<le> int (fmsize (svPeers s)) then (False, s)
      else let ip = SplitHost remote in
        if IsAddressBanned now (svReputation s) ip then (False, s)
        else if svMaxPerIP s \<le> connCount s ip then (False, s)
        else (True, s\<lparr>svConnCount := fmupd ip (connCount s ip + 1) (svConnCount s)\<rparr>))"

definition AddPeer :: "'d Server \<Rightarrow> Peer \<Rightarrow> 'd Server" where
  "AddPeer s p =
     s\<lparr>svPeers := fmupd (peerAddr p) p (svPeers s), svKnownPeers := finsert (peerAddr p) (svKnownPeers s)\<rparr>"

definition GetPeer :: "'d Server \<Rightarrow> string \<Rightarrow> Peer option" where
  "GetPeer s addr = fmlookup (svPeers s) addr"

definition RemovePeer :: "'d Server \<Rightarrow> string \<Rightarrow> 'd Server" where
  "RemovePeer s addr =
     (case fmlookup (svPeers s) addr of
        None \<Rightarrow> s
      | Some p \<Rightarrow>
          let s = s\<lparr>svPeers := fmdrop addr (svPeers s)\<rparr>; ip = SplitHost addr in
          if 0 < connCount s ip then s\<lparr>svConnCount := fmupd ip (connCount s ip - 1) (svConnCount s)\<rparr> else s)"

section \<open>Handlers\<close>

definition setRep :: "'d Server \<Rightarrow> (ReputationManager \<Rightarrow> ReputationManager) \<Rightarrow> 'd Server" where
  "setRep s f = s\<lparr>svReputation := f (svReputation s)\<rparr>"

text \<open>\<open>RebroadcastBlock\<close> to the peers in an iteration order \<open>pk\<close>.\<close>

definition RebroadcastBlock :: "codec \<Rightarrow> string list \<Rightarrow> 'd Server \<Rightarrow> Vertex \<Rightarrow> string \<Rightarrow> (string \<times> Message) list" where
  "RebroadcastBlock X pk s v excludeAddr =
     (case encVertex X v of
        None \<Rightarrow> []
      | Some buf \<Rightarrow> map (\<lambda>a. (a, \<lparr>msgType = MsgBlock, msgPayload = buf\<rparr>)) (filter (\<lambda>a. a \<noteq> excludeAddr) pk))"

definition Broadcast :: "string list \<Rightarrow> Message \<Rightarrow> (string \<times> Message) list" where
  "Broadcast pk msg = map (\<lambda>a. (a, msg)) pk"

definition BroadcastBlock :: "codec \<Rightarrow> string list \<Rightarrow> Vertex \<Rightarrow> (string \<times> Message) list" where
  "BroadcastBlock X pk v =
     (case encVertex X v of None \<Rightarrow> [] | Some buf \<Rightarrow> Broadcast pk \<lparr>msgType = MsgBlock, msgPayload = buf\<rparr>)"

text \<open>The fees of a block: the decoded payload's fee fields, added without an overflow check.\<close>

definition blockFees :: "codec \<Rightarrow> Vertex \<Rightarrow> u64" where
  "blockFees X v = (case decTxs X (vTxPayload v) of None \<Rightarrow> 0 | Some txs \<Rightarrow> foldl (\<lambda>f tx. f + txFee tx) 0 txs)"

text \<open>What \<open>handleBlock\<close> does to the account store and the slasher for a double signer.\<close>

definition slashAuthor :: "('d, 'b) badger \<Rightarrow> 'd StateManager \<Rightarrow> Slasher \<Rightarrow> Vertex \<Rightarrow> 'd StateManager \<times> Slasher" where
  "slashAuthor K sm sl v =
     (let (stake, sm) = GetStake K sm (vAuthor v) in
      if 0 < stake
      then case Slash sl (vAuthor v) stake OffenseDoubleSign (vTimestamp v) of
             (Inl err, sl) \<Rightarrow> (sm, sl)
           | (Inr slashAmount, sl) \<Rightarrow>
               if 0 < slashAmount
               then let newStake = stake - slashAmount; newStake = (if stake < newStake then 0 else newStake)
                 in (SetStake K sm (vAuthor v) newStake, sl)
               else (sm, sl)
      else (sm, sl))"

text \<open>The last part of \<open>handleBlock\<close>, for a vertex that passed the checks.\<close>

definition acceptBlock :: "('d, 'b) node_env \<Rightarrow> time \<Rightarrow> string list \<Rightarrow> 'd Server \<Rightarrow> Peer \<Rightarrow> Vertex
    \<Rightarrow> 'd Server \<times> (string \<times> Message) list" where
  "acceptBlock E now pk s p v =
     (let s = setRep s (\<lambda>r. RecordValidBlock now r (peerNodeID p)) in
      case svDAG s of
        None \<Rightarrow> (s, [])
      | Some dag \<Rightarrow>
          let ((db, dag), _) = AddVertex (neBadger E) (neGob E) (neOrd E) (storeDB (svState s), dag) v;
              s = s\<lparr>svDAG := Some dag, svState := (svState s)\<lparr>storeDB := db\<rparr>\<rparr>;
              s = (if svHasExecutor s
                   then s\<lparr>svState := ApplyBlockReward (neBadger E) (svState s) (vAuthor v)
                            (blockFees (neCodec E) v) (vTimestamp v)\<rparr>
                   else s)
          in (s, RebroadcastBlock (neCodec E) pk s v (peerAddr p)))"

text \<open>The checks of \<open>handleBlock\<close> on a decoded vertex that is not in the DAG.\<close>

definition checkBlock :: "('d, 'b) node_env \<Rightarrow> 'd Server \<Rightarrow> Vertex \<Rightarrow> bool \<times> 'd Server" where
  "checkBlock E s v =
     (let (err, s) = (if svHasState s
          then (case ValidateBlock (neCrypto E) (neBadger E) (svState s) v of
                  (err, sm) \<Rightarrow> (err, s\<lparr>svState := sm\<rparr>))
          else (None, s)) in
      if err \<noteq> None then (False, s)
      else case svSlasher s of
             None \<Rightarrow> (True, s)
           | Some sl \<Rightarrow>
               let ((isDoubleSign, slashRecord), sl) = RecordBlockSigned sl v in
               if isDoubleSign \<and> slashRecord \<noteq> None
               then (False,
                 if svHasState s
                 then let (sm, sl) = slashAuthor (neBadger E) (svState s) sl v
                   in s\<lparr>svState := sm, svSlasher := Some sl\<rparr>
                 else s\<lparr>svSlasher := Some sl\<rparr>)
               else (True, s\<lparr>svSlasher := Some sl\<rparr>))"

definition handleBlock :: "('d, 'b) node_env \<Rightarrow> time \<Rightarrow> string list \<Rightarrow> 'd Server \<Rightarrow> Peer \<Rightarrow> bytes
    \<Rightarrow> 'd Server \<times> (string \<times> Message) list" where
  "handleBlock E now pk s p payload =
     (if ValidatePayloadSize payload MaxBlockSize \<noteq> None
      then (setRep s (\<lambda>r. RecordProtocolError now r (peerNodeID p)), [])
      else case SafeDecodeBlock (decVertex (neCodec E)) (bufSize (neCodec E)) payload of
             Inl err \<Rightarrow> (setRep s (\<lambda>r. RecordProtocolError now r (peerNodeID p)), [])
           | Inr v \<Rightarrow>
               if (case svDAG s of None \<Rightarrow> False | Some dag \<Rightarrow> HasVertex dag (vHash v)) then (s, [])
               else case checkBlock E s v of
                      (False, s) \<Rightarrow> (setRep s (\<lambda>r. RecordInvalidBlock now r (peerNodeID p)), [])
                    | (True, s) \<Rightarrow> acceptBlock E now pk s p v)"

primrec handleBlocks :: "('d, 'b) node_env \<Rightarrow> time \<Rightarrow> string list \<Rightarrow> 'd Server \<Rightarrow> Peer \<Rightarrow> bytes list
    \<Rightarrow> 'd Server \<times> (string \<times> Message) list" where
  "handleBlocks E now pk s p [] = (s, [])"
| "handleBlocks E now pk s p (b # bs) =
     (let (s, out) = handleBlock E now pk s p b; (s, outs) = handleBlocks E now pk s p bs in (s, out @ outs))"

text \<open>\<open>now\<close> stands for the clock readings of the reputation manager during the whole message.\<close>

definition handleDAG :: "('d, 'b) node_env \<Rightarrow> time \<Rightarrow> string list \<Rightarrow> 'd Server \<Rightarrow> Peer \<Rightarrow> bytes
    \<Rightarrow> 'd Server \<times> (string \<times> Message) list" where
  "handleDAG E now pk s p payload =
     (case decDAG (neCodec E) payload of None \<Rightarrow> (s, []) | Some vs \<Rightarrow> handleBlocks E now pk s p vs)"

definition handleGetDAG :: "codec \<Rightarrow> hash list \<Rightarrow> 'd Server \<Rightarrow> Peer \<Rightarrow> (string \<times> Message) list" where
  "handleGetDAG X hs s p =
     (case svDAG s of
        None \<Rightarrow> []
      | Some dag \<Rightarrow>
          let encoded = List.map_filter (encVertex X) (GetAllVertices hs dag)
          in [(peerAddr p, \<lparr>msgType = MsgDAG, msgPayload = encDAG X encoded\<rparr>)])"

text \<open>\<open>known\<close> is an iteration order of \<open>KnownPeers\<close>.\<close>

definition handleGetAddr :: "codec \<Rightarrow> string list \<Rightarrow> Peer \<Rightarrow> (string \<times> Message) list" where
  "handleGetAddr X known p =
     [(peerAddr p, \<lparr>msgType = MsgAddr, msgPayload = encAddr X (take 10 known)\<rparr>)]"

text \<open>The addresses that are dialled, and the new set of known peers.\<close>

fun learnAddrs :: "string fset \<Rightarrow> string list \<Rightarrow> string list \<times> string fset" where
  "learnAddrs known [] = ([], known)"
| "learnAddrs known (a # as) =
     (if a |\<in>| known then learnAddrs known as
      else let (dials, known') = learnAddrs (finsert a known) as in (a # dials, known'))"

definition handleAddr :: "codec \<Rightarrow> 'd Server \<Rightarrow> bytes \<Rightarrow> string list \<times> 'd Server" where
  "handleAddr X s payload =
     (case decAddr X payload of
        None \<Rightarrow> ([], s)
      | Some as \<Rightarrow> let (dials, known) = learnAddrs (svKnownPeers s) as in (dials, s\<lparr>svKnownPeers := known\<rparr>))"

text \<open>The \<open>MsgTx\<close> branch of \<open>handleMessage\<close>; \<open>ks\<close> is an iteration order of the mempool, \<open>t1\<close> and \<open>t2\<close> are the clock
  readings of \<open>Mempool.Add\<close> (for the expiry test and for the entry), \<open>now\<close> is the one of the reputation manager.\<close>

definition handleTx :: "('d, 'b) node_env \<Rightarrow> addr list \<Rightarrow> time \<Rightarrow> time \<Rightarrow> time \<Rightarrow> 'd Server \<Rightarrow> Peer \<Rightarrow> bytes \<Rightarrow> 'd Server" where
  "handleTx E ks t1 t2 now s p payload =
     (if ValidatePayloadSize payload MaxTxSize \<noteq> None
      then setRep s (\<lambda>r. RecordInvalidTx now r (peerNodeID p))
      else case SafeDecodeTransaction (decTx (neCodec E)) (bufSize (neCodec E)) payload of
             Inl err \<Rightarrow> setRep s (\<lambda>r. RecordInvalidTx now r (peerNodeID p))
           | Inr tx \<Rightarrow>
               (case svMempool s of
                  None \<Rightarrow> s
                | Some mp \<Rightarrow>
                    let (added, mp, st) = Mempool_Add (neBadger E) ks t1 t2 mp (Some (svState s)) tx;
                        s = s\<lparr>svMempool := Some mp, svState := (case st of Some sm \<Rightarrow> sm | None \<Rightarrow> svState s)\<rparr>
                    in if added then setRep s (\<lambda>r. RecordValidTx now r (peerNodeID p)) else s))"

text \<open>What a message handler takes from outside: the iteration orders of the maps it ranges over and the clock
  readings of \<open>Mempool.Add\<close>.\<close>

record iteration =
  itPool :: "addr list"
  itExpiry :: time
  itAdded :: time
  itPeers :: "string list"
  itKnown :: "string list"
  itVertices :: "hash list"

definition handleMessage :: "('d, 'b) node_env \<Rightarrow> iteration \<Rightarrow> time \<Rightarrow> 'd Server \<Rightarrow> Peer \<Rightarrow> Message
    \<Rightarrow> 'd Server \<times> (string \<times> Message) list \<times> string list" where
  "handleMessage E it now s p msg =
     (if ValidatePayloadSize (msgPayload msg) MaxMessageSize \<noteq> None
      then (setRep s (\<lambda>r. RecordProtocolError now r (peerNodeID p)), [], [])
      else if msgType msg = MsgTx then (handleTx E (itPool it) (itExpiry it) (itAdded it) now s p (msgPayload msg), [], [])
      else if msgType msg = MsgBlock
      then let (s, out) = handleBlock E now (itPeers it) s p (msgPayload msg) in (s, out, [])
      else if msgType msg = MsgGetAddr then (s, handleGetAddr (neCodec E) (itKnown it) p, [])
      else if msgType msg = MsgAddr
      then let (dials, s) = handleAddr (neCodec E) s (msgPayload msg) in (s, [], dials)
      else if msgType msg = MsgGetDAG then (s, handleGetDAG (neCodec E) (itVertices it) s p, [])
      else if msgType msg = MsgDAG
      then let (s, out) = handleDAG E now (itPeers it) s p (msgPayload msg) in (s, out, [])
      else (s, [], []))"

definition SendGetAddr :: "Peer \<Rightarrow> (string \<times> Message) list" where
  "SendGetAddr p = [(peerAddr p, \<lparr>msgType = MsgGetAddr, msgPayload = []\<rparr>)]"

definition SendGetDAG :: "Peer \<Rightarrow> (string \<times> Message) list" where
  "SendGetDAG p = [(peerAddr p, \<lparr>msgType = MsgGetDAG, msgPayload = []\<rparr>)]"

text \<open>\<open>handleConn\<close>: \<open>reply\<close> is the first message read from the peer, \<open>None\<close> when sending or reading
  fails. The result has the registered peer, if any (the connection is closed otherwise), and the
  messages sent. The callback \<open>OnPeerConnected\<close> is the caller's.\<close>

definition handleConn :: "('d, 'b) node_env \<Rightarrow> time \<Rightarrow> time \<Rightarrow> 'd Server \<Rightarrow> string \<Rightarrow> bool \<Rightarrow> Message option
    \<Rightarrow> Peer option \<times> 'd Server \<times> (string \<times> Message) list" where
  "handleConn E t1 t2 s remote outbound reply =
     (let genesis = ComputeGenesisHash (neCrypto E);
          hsData = \<lparr>hsVersion = ProtocolVersion, hsNodeID = svNodeID s, hsGenesisHash = genesis, hsHeight = 0\<rparr> in
      case encHandshake (neCodec E) hsData of
        None \<Rightarrow> (None, s, [])
      | Some payload \<Rightarrow>
          let hello = [(remote, \<lparr>msgType = MsgHandshake, msgPayload = payload\<rparr>)] in
          (case reply of
             None \<Rightarrow> (None, s, hello)
           | Some msg \<Rightarrow>
               if msgType msg \<noteq> MsgHandshake then (None, s, hello)
               else case decHandshake (neCodec E) (msgPayload msg) of
                      None \<Rightarrow> (None, s, hello)
                    | Some remoteHS \<Rightarrow>
                        if hsGenesisHash remoteHS \<noteq> genesis then (None, s, hello)
                        else if IsBanned t1 (svReputation s) (hsNodeID remoteHS) then (None, s, hello)
                        else
                          let s = setRep s (\<lambda>r. snd (GetOrCreate t1 t2 r (hsNodeID remoteHS) (SplitHost remote)));
                              p = \<lparr>peerAddr = remote, peerOutbound = outbound, peerNodeID = hsNodeID remoteHS\<rparr>
                          in (Some p, AddPeer s p, hello @ SendGetAddr p @ SendGetDAG p)))"

text \<open>The end of \<open>readLoop\<close>, when the connection of a peer is lost.\<close>

definition disconnect :: "time \<Rightarrow> 'd Server \<Rightarrow> Peer \<Rightarrow> 'd Server" where
  "disconnect now s p =
     RemovePeer (setRep s (\<lambda>r. RecordDisconnect now r (peerNodeID p))) (peerAddr p)"

section \<open>Lemmas: the shared database\<close>

text \<open>Vertex and metadata keys are never account keys, so persisting a vertex leaves every account as
  it was.\<close>

lemma other_keys:
  "account_key a \<noteq> vertex_key h" "account_key a \<noteq> tips_key" "account_key a \<noteq> recent_key"
  by (simp_all add: account_key_def vertex_key_def tips_key_def recent_key_def string_bytes_def)

lemma persist_get:
  assumes "badger_ok K" "persistVertex K G ord (Some d) vs v = Some d'"
  shows "badger_get K d' (account_key a) = badger_get K d (account_key a)"
proof -
  have upd: "badger_get K d2 k = (case map_of (rev ws) k of Some v \<Rightarrow> Some v | None \<Rightarrow> badger_get K d k)"
    if "badger_update K d ws = Some d2" for d2 ws k
    using assms(1) that by (simp add: badger_ok_def)
  show ?thesis
    using assms(2) other_keys
    by (auto simp: persistVertex_def saveTipsTxn_def saveRecentTxn_def upd split: option.splits prod.splits)
qed

lemma persist_view:
  assumes "sm_wf K sm" "db' = persistVertex K G ord (storeDB sm) vs v"
  shows "view K (sm\<lparr>storeDB := db'\<rparr>) = view K sm" "sm_wf K (sm\<lparr>storeDB := db'\<rparr>)"
proof -
  have "db' = None \<longleftrightarrow> storeDB sm = None"
    unfolding assms(2) persistVertex_def by (auto split: option.splits prod.splits)
  then have load: "loadAccountFromDB K (sm\<lparr>storeDB := db'\<rparr>) = loadAccountFromDB K sm"
    using assms persist_get [of K G ord _ vs v]
    by (auto simp: loadAccountFromDB_def sm_wf_def fun_eq_iff split: option.splits)
  show "view K (sm\<lparr>storeDB := db'\<rparr>) = view K sm"
    by (simp add: fun_eq_iff view_def getOrLoadAccountLocked_def load split: option.splits)
  show "sm_wf K (sm\<lparr>storeDB := db'\<rparr>)"
    using assms(1) \<open>db' = None \<longleftrightarrow> storeDB sm = None\<close> by (simp add: sm_wf_def load)
qed

text \<open>The stake that is left after a double-sign slash with the default configuration.\<close>

definition slashed_stake :: "nat \<Rightarrow> nat" where
  "slashed_stake n = (if n * 10 < 2 ^ 64 then n - n * 10 div 100 else n)"

lemma slashAuthor_view:
  assumes "sm_wf K sm" "slConfig sl = DefaultSlashingConfig"
  shows "view K (fst (slashAuthor K sm sl v)) = (view K sm)(vAuthor v :=
      (view K sm (vAuthor v))\<lparr>accStake := of_nat (slashed_stake (unat (accStake (view K sm (vAuthor v)))))\<rparr>)"
    "sm_wf K (fst (slashAuthor K sm sl v))"
proof -
  let ?a = "vAuthor v" and ?st = "accStake (view K sm (vAuthor v))"
  define q where "q = unat ?st * 10 div 100"
  have q: "q \<le> unat ?st" unfolding q_def by linarith
  then have uq: "unat (of_nat q :: u64) = q"
    using unat_u64_less [of ?st] by (simp add: unat_of_nat take_bit_eq_mod)
  have sub: "?st - of_nat q = of_nat (unat ?st - q)" using q by simp
  have le: "\<not> ?st < ?st - of_nat q"
    using q uq by (simp add: word_less_nat_alt unat_sub word_le_nat_alt not_less)
  have calc: "CalculateSlashAmount sl ?st OffenseDoubleSign =
      (if unat ?st * 10 < 2 ^ 64 then Inr (of_nat q) else Inl (ErrSlashMath ErrOverflow))"
    using slash_amount_default [OF assms(2) refl, of ?st OffenseDoubleSign] by (simp add: q_def)
  have same: "(view K sm)(?a := (view K sm ?a)\<lparr>accStake := ?st\<rparr>) = view K sm" by simp
  have zero: "\<not> 0 < ?st \<Longrightarrow> q = 0" by (simp add: q_def word_neq_0_conv [symmetric] del: word_neq_0_conv)
  show "view K (fst (slashAuthor K sm sl v)) = (view K sm)(?a :=
      (view K sm ?a)\<lparr>accStake := of_nat (slashed_stake (unat ?st))\<rparr>)"
    "sm_wf K (fst (slashAuthor K sm sl v))"
    using assms(1) calc sub le same zero
    by (auto simp: slashAuthor_def get_eq Slash_def Let_def slashed_stake_def word_neq_0_conv simp flip: q_def)
qed

lemma flagged_record: "snd (fst (RecordBlockSigned sl v)) \<noteq> None \<longleftrightarrow> fst (fst (RecordBlockSigned sl v))"
  by (auto simp: RecordBlockSigned_def Let_def split: option.splits)

text \<open>The accounts after the block reward.\<close>

definition rewarded :: "(addr \<Rightarrow> Account) \<Rightarrow> addr \<Rightarrow> u64 \<Rightarrow> i64 \<Rightarrow> addr \<Rightarrow> Account" where
  "rewarded accs a fees ts =
     (let n = unat (accBalance (accs a)) + (reward_schedule (halvings_at ts) + unat fees div 2) in
      if n < 2 ^ 64 then accs(a := (accs a)\<lparr>accBalance := of_nat n\<rparr>) else accs)"

lemma reward_view:
  "sm_wf K sm \<Longrightarrow> view K (ApplyBlockReward K sm a fees ts) = rewarded (view K sm) a fees ts"
  by (simp add: ApplyBlockReward_eq rewarded_def Let_def flip: unat_total_reward)

text \<open>The checks of a server that has all its components.\<close>

definition full_server :: "('d, 'b) node_env \<Rightarrow> 'd Server \<Rightarrow> VertexStore \<Rightarrow> Slasher \<Rightarrow> bool" where
  "full_server E s dag sl \<longleftrightarrow> sm_wf (neBadger E) (svState s) \<and> svDAG s = Some dag \<and> svHasState s
     \<and> svHasExecutor s \<and> svSlasher s = Some sl \<and> slConfig sl = DefaultSlashingConfig"

lemma checkBlock_full:
  fixes v :: Vertex
  assumes "full_server E s dag sl"
  defines "K \<equiv> neBadger E"
  defines "sm' \<equiv> snd (ValidateBlock (neCrypto E) K (svState s) v)"
  shows "checkBlock E s v =
    (if fst (ValidateBlock (neCrypto E) K (svState s) v) \<noteq> None then (False, s\<lparr>svState := sm'\<rparr>)
     else if fst (fst (RecordBlockSigned sl v))
     then (False, s\<lparr>svState := fst (slashAuthor K sm' (snd (RecordBlockSigned sl v)) v),
                    svSlasher := Some (snd (slashAuthor K sm' (snd (RecordBlockSigned sl v)) v))\<rparr>)
     else (True, s\<lparr>svState := sm', svSlasher := Some (snd (RecordBlockSigned sl v))\<rparr>))"
  using assms(1) flagged_record [of sl v]
  by (auto simp: checkBlock_def full_server_def sm'_def K_def Let_def split: prod.splits option.splits)

lemma handleBlock_full:
  assumes "full_server E s dag sl" "length payload \<le> MaxBlockSize" "decVertex (neCodec E) payload = Some v"
  shows "handleBlock E now pk s p payload =
    (if HasVertex dag (vHash v) then (s, [])
     else case checkBlock E s v of
            (False, s) \<Rightarrow> (setRep s (\<lambda>r. RecordInvalidBlock now r (peerNodeID p)), [])
          | (True, s) \<Rightarrow> acceptBlock E now pk s p v)"
  using assms by (simp add: handleBlock_def full_server_def ValidatePayloadSize_def SafeDecodeBlock_def
      SafeDecode_def deliver_take split: option.splits)

lemma acceptBlock_full:
  assumes "sm_wf (neBadger E) (svState s)" "svDAG s = Some dag" "svHasExecutor s" "\<not> HasVertex dag (vHash v)"
    and "acceptBlock E now pk s p v = (s', out)"
  shows "svDAG s' = Some (insertVertex dag v)"
    "view (neBadger E) (svState s') = rewarded (view (neBadger E) (svState s)) (vAuthor v)
       (blockFees (neCodec E) v) (vTimestamp v)"
    "sm_wf (neBadger E) (svState s')" "svSlasher s' = svSlasher s" "svHasExecutor s'" "svHasState s' = svHasState s"
proof -
  let ?K = "neBadger E"
  define db' where "db' = persistVertex ?K (neGob E) (neOrd E) (storeDB (svState s)) (insertVertex dag v) v"
  note pv = persist_view [OF assms(1) db'_def]
  have e: "s' = (setRep s (\<lambda>r. RecordValidBlock now r (peerNodeID p)))\<lparr>svDAG := Some (insertVertex dag v),
      svState := ApplyBlockReward ?K ((svState s)\<lparr>storeDB := db'\<rparr>) (vAuthor v) (blockFees (neCodec E) v) (vTimestamp v)\<rparr>"
    using assms(2-5) by (auto simp: acceptBlock_def AddVertex_def HasVertex_def setRep_def Let_def db'_def split: prod.splits)
  show "svDAG s' = Some (insertVertex dag v)" "svSlasher s' = svSlasher s" "svHasExecutor s'" "svHasState s' = svHasState s"
    using assms(3) by (simp_all add: e setRep_def)
  show "view ?K (svState s') = rewarded (view ?K (svState s)) (vAuthor v) (blockFees (neCodec E) v) (vTimestamp v)"
    using pv by (simp add: e reward_view)
  show "sm_wf ?K (svState s')" using pv(2) by (simp add: e ApplyBlockReward_wf)
qed

lemma handle_block_cases:
  assumes "full_server E s dag sl" and "K = neBadger E"
    and "length payload \<le> MaxBlockSize" and "decVertex (neCodec E) payload = Some v"
    and "handleBlock E now pk s p payload = (s', out)"
    and "valid \<longleftrightarrow> fst (ValidateBlock (neCrypto E) K (svState s) v) = None"
    and "flagged \<longleftrightarrow> fst (fst (RecordBlockSigned sl v))"
    and "accs = view K (svState s)" and "A = accs (vAuthor v)"
  shows "(HasVertex dag (vHash v) \<longrightarrow> s' = s)
    \<and> (\<not> HasVertex dag (vHash v) \<and> \<not> valid \<longrightarrow>
        svDAG s' = Some dag \<and> svSlasher s' = Some sl \<and> view K (svState s') = accs)
    \<and> (\<not> HasVertex dag (vHash v) \<and> valid \<and> flagged \<longrightarrow>
        svDAG s' = Some dag
        \<and> view K (svState s') = accs(vAuthor v := A\<lparr>accStake := of_nat (slashed_stake (unat (accStake A)))\<rparr>))
    \<and> (\<not> HasVertex dag (vHash v) \<and> valid \<and> \<not> flagged \<longrightarrow>
        svDAG s' = Some (insertVertex dag v)
        \<and> view K (svState s') = rewarded accs (vAuthor v) (blockFees (neCodec E) v) (vTimestamp v))"
proof -
  define sm' where "sm' = snd (ValidateBlock (neCrypto E) K (svState s) v)"
  have full: "sm_wf K (svState s)" "svDAG s = Some dag" "svHasExecutor s" "svSlasher s = Some sl"
    "slConfig sl = DefaultSlashingConfig"
    using assms(1) by (auto simp: full_server_def assms(2))
  have sm': "view K sm' = accs" "sm_wf K sm'"
    using ValidateBlock_state [of "neCrypto E" K "svState s" v] full(1) by (auto simp: sm'_def assms(8))
  have cb: "checkBlock E s v =
    (if \<not> valid then (False, s\<lparr>svState := sm'\<rparr>)
     else if flagged
     then (False, s\<lparr>svState := fst (slashAuthor K sm' (snd (RecordBlockSigned sl v)) v),
                    svSlasher := Some (snd (slashAuthor K sm' (snd (RecordBlockSigned sl v)) v))\<rparr>)
     else (True, s\<lparr>svState := sm', svSlasher := Some (snd (RecordBlockSigned sl v))\<rparr>))"
    using checkBlock_full [OF assms(1), of v] by (simp add: assms(2,6,7) sm'_def)
  have hb: "(s', out) = (if HasVertex dag (vHash v) then (s, [])
     else case checkBlock E s v of
            (False, s) \<Rightarrow> (setRep s (\<lambda>r. RecordInvalidBlock now r (peerNodeID p)), [])
          | (True, s) \<Rightarrow> acceptBlock E now pk s p v)"
    using handleBlock_full [OF assms(1,3,4), of now pk p] assms(5) by simp
  have sl: "slConfig (snd (RecordBlockSigned sl v)) = DefaultSlashingConfig"
    using full(5) by (simp add: RecordBlockSigned_frame)
  show ?thesis
  proof (intro conjI impI)
    assume "\<not> HasVertex dag (vHash v) \<and> valid \<and> \<not> flagged"
    then have n: "\<not> HasVertex dag (vHash v)"
      and acc: "acceptBlock E now pk (s\<lparr>svState := sm', svSlasher := Some (snd (RecordBlockSigned sl v))\<rparr>) p v = (s', out)"
      using hb cb by auto
    from acceptBlock_full [OF _ _ _ n acc] sm' full
    show "svDAG s' = Some (insertVertex dag v)"
      "view K (svState s') = rewarded accs (vAuthor v) (blockFees (neCodec E) v) (vTimestamp v)"
      by (simp_all add: assms(2))
  next
    assume a: "\<not> HasVertex dag (vHash v) \<and> valid \<and> flagged"
    show "view K (svState s') = accs(vAuthor v := A\<lparr>accStake := of_nat (slashed_stake (unat (accStake A)))\<rparr>)"
      using a hb cb slashAuthor_view(1) [OF sm'(2) sl, of v] by (simp add: setRep_def sm'(1) assms(9))
  qed (use hb cb full sm' in \<open>auto simp: setRep_def\<close>)
qed

lemma handleBlock_known:
  assumes "svDAG s = Some dag" "HasVertex dag (vHash v)" "decVertex (neCodec E) payload = Some v"
    "length payload \<le> MaxBlockSize"
  shows "handleBlock E now pk s p payload = (s, [])"
  using assms by (simp add: handleBlock_def ValidatePayloadSize_def SafeDecodeBlock_def SafeDecode_def deliver_take)

text \<open>The DAG only grows.\<close>

definition has_hash :: "'d Server \<Rightarrow> hash \<Rightarrow> bool" where
  "has_hash s h \<longleftrightarrow> (\<exists>dag. svDAG s = Some dag \<and> HasVertex dag h)"

lemma has_hash_setRep [simp]: "has_hash (setRep s f) h = has_hash s h"
  by (simp add: has_hash_def setRep_def)

lemma checkBlock_dag: "svDAG (snd (checkBlock E s v)) = svDAG s"
  by (auto simp: checkBlock_def Let_def split: option.splits prod.splits)

lemma acceptBlock_dag: "has_hash s h \<Longrightarrow> has_hash (fst (acceptBlock E now pk s p v)) h"
  by (auto simp: acceptBlock_def has_hash_def setRep_def AddVertex_def HasVertex_def insertVertex_def Let_def
      split: option.splits)

lemma handleBlock_dag: "has_hash s h \<Longrightarrow> has_hash (fst (handleBlock E now pk s p payload)) h"
proof -
  assume h: "has_hash s h"
  have "has_hash s1 h" if "checkBlock E s v = (b, s1)" for v b s1
    using h checkBlock_dag [of E s v] that by (simp add: has_hash_def)
  then show ?thesis
    using h by (auto simp: handleBlock_def split: option.splits sum.splits prod.splits bool.splits intro!: acceptBlock_dag)
qed

definition block_step :: "('d, 'b) node_env \<Rightarrow> 'd Server \<Rightarrow> time \<times> string list \<times> Peer \<times> bytes \<Rightarrow> 'd Server" where
  "block_step E s m = (case m of (now, pk, p, payload) \<Rightarrow> fst (handleBlock E now pk s p payload))"

interpretation blocks: op_system "block_step E" "\<lambda>s. has_hash s h" for E :: "('d, 'b) node_env" and h
  by unfold_locales (auto simp: block_step_def handleBlock_dag)

section \<open>Properties\<close>

text \<open>C10: what a received block does. Let the server have all its components, and let the payload decode to
  \<open>v\<close>. If the DAG has a vertex with that hash, nothing at all happens. If the author's signature or
  stake is not valid, the DAG, the slasher and every account stay as they are. If it is valid but
  its author is recorded with another hash at its round, the DAG stays as it is, and the only change
  of any account is that the author's stake loses a tenth, rounded down. Otherwise the vertex
  is inserted, and the only change of any account is that the author's balance gets the block reward
  with half of the fees named in the payload. In no case is a transaction of the block executed.\<close>

theorem handle_block:
  assumes "full_server E s dag sl" and "K = neBadger E"
    and "length payload \<le> MaxBlockSize" and "decVertex (neCodec E) payload = Some v"
    and "handleBlock E now pk s p payload = (s', out)"
    and "valid \<longleftrightarrow> fst (ValidateBlock (neCrypto E) K (svState s) v) = None"
    and "flagged \<longleftrightarrow> fst (fst (RecordBlockSigned sl v))"
    and "accs = view K (svState s)" and "A = accs (vAuthor v)"
  shows "(HasVertex dag (vHash v) \<longrightarrow> s' = s)
    \<and> (\<not> HasVertex dag (vHash v) \<and> \<not> valid \<longrightarrow>
        svDAG s' = Some dag \<and> svSlasher s' = Some sl \<and> view K (svState s') = accs)
    \<and> (\<not> HasVertex dag (vHash v) \<and> valid \<and> flagged \<longrightarrow>
        svDAG s' = Some dag
        \<and> view K (svState s') = accs(vAuthor v := A\<lparr>accStake := of_nat (slashed_stake (unat (accStake A)))\<rparr>))
    \<and> (\<not> HasVertex dag (vHash v) \<and> valid \<and> \<not> flagged \<longrightarrow>
        svDAG s' = Some (insertVertex dag v)
        \<and> view K (svState s') = rewarded accs (vAuthor v) (blockFees (neCodec E) v) (vTimestamp v))"
  by (rule handle_block_cases [OF assms])

text \<open>C11: a block is processed once. As soon as the DAG has a vertex, then after any further run of
  block messages, from any peers, a message that decodes to a vertex with the same hash changes
  nothing: no account, no score, no slashing record, and nothing is sent. In particular its author
  is not rewarded again. Messages are handled one after the other here; \<open>Node_Races\<close> has what interleaving changes.\<close>

theorem block_rewarded_once:
  assumes "svDAG s = Some dag" and "HasVertex dag (vHash v)"
    and "decVertex (neCodec E) payload = Some w" and "vHash w = vHash v" and "length payload \<le> MaxBlockSize"
    and "s' = foldl (block_step E) s msgs"
  shows "handleBlock E now pk s' p payload = (s', [])"
proof -
  have "has_hash s (vHash v)" using assms(1,2) by (auto simp: has_hash_def)
  then have "has_hash s' (vHash w)" unfolding assms(4,6) by (rule blocks.inv_run)
  then show ?thesis using handleBlock_known assms(3,5) by (auto simp: has_hash_def)
qed

text \<open>A valid block of an author who has not signed at this round: it is stored, and no stake changes.\<close>

lemma accepted_full:
  assumes "full_server E s dag sl" and "C = neCrypto E" and "K = neBadger E"
    and "length b \<le> MaxBlockSize" and "decVertex (neCodec E) b = Some v" and "\<not> HasVertex dag (vHash v)"
    and "fst (ValidateBlock C K (svState s) v) = None" and "\<not> fst (fst (RecordBlockSigned sl v))"
    and "s1 = fst (handleBlock E now pk s p b)"
  shows "full_server E s1 (insertVertex dag v) (snd (RecordBlockSigned sl v))"
    "accStake (view K (svState s1) x) = accStake (view K (svState s) x)"
    "accGrantStake (view K (svState s1) x) = accGrantStake (view K (svState s) x)"
proof -
  define sm' where "sm' = snd (ValidateBlock C K (svState s) v)"
  define s0 where "s0 = s\<lparr>svState := sm', svSlasher := Some (snd (RecordBlockSigned sl v))\<rparr>"
  have full: "sm_wf K (svState s)" "svDAG s = Some dag" "svHasExecutor s" "svHasState s"
    "slConfig sl = DefaultSlashingConfig"
    using assms(1) by (auto simp: full_server_def assms(3))
  have sm': "view K sm' = view K (svState s)" "sm_wf K sm'"
    using ValidateBlock_state [of C K "svState s" v] full(1) by (auto simp: sm'_def)
  have "checkBlock E s v = (True, s0)"
    using checkBlock_full [OF assms(1), of v] assms(7,8) by (simp add: assms(2,3) sm'_def s0_def)
  then have "handleBlock E now pk s p b = acceptBlock E now pk s0 p v"
    using handleBlock_full [OF assms(1,4,5), of now pk p] assms(6) by simp
  then have acc: "acceptBlock E now pk s0 p v = (s1, snd (acceptBlock E now pk s0 p v))"
    by (simp add: assms(9))
  have s0: "sm_wf (neBadger E) (svState s0)" "svDAG s0 = Some dag" "svHasExecutor s0"
    using sm'(2) full by (simp_all add: s0_def flip: assms(3))
  note a1 = acceptBlock_full [OF s0 assms(6) acc]
  show "accStake (view K (svState s1) x) = accStake (view K (svState s) x)"
    "accGrantStake (view K (svState s1) x) = accGrantStake (view K (svState s) x)"
    using a1(2) sm'(1) by (simp_all add: s0_def rewarded_def Let_def flip: assms(3))
  show "full_server E s1 (insertVertex dag v) (snd (RecordBlockSigned sl v))"
    using a1 full by (simp add: full_server_def s0_def RecordBlockSigned_frame)
qed

text \<open>C12: mining two blocks costs a tenth of the stake. Let an honest author, with a valid key pair
  and the required stake, produce two vertices with \<open>NewVertex\<close>, at any two times, with different
  hashes, and let a node that has seen no vertex of this author receive both. The first is accepted;
  the second is rejected as a double signature, and the author's stake loses a tenth.\<close>

theorem honest_miner_slashed:
  assumes "full_server E s dag sl" and "signedAt sl 0 a = None" and "C = neCrypto E" and "K = neBadger E"
    and "ed25519_ok C" and "ed_key_from_seed C seed = priv" and "ed_public C priv = a"
    and "v1 = NewVertex C t1 ps1 a priv pay1 m1" and "v2 = NewVertex C t2 ps2 a priv pay2 m2"
    and "vHash v1 \<noteq> vHash v2" and "\<not> HasVertex dag (vHash v1)" and "\<not> HasVertex dag (vHash v2)"
    and "decVertex (neCodec E) b1 = Some v1" and "decVertex (neCodec E) b2 = Some v2"
    and "length b1 \<le> MaxBlockSize" and "length b2 \<le> MaxBlockSize"
    and "unat (accStake (view K (svState s) a)) + unat (accGrantStake (view K (svState s) a)) \<in> {1000000000 ..< 2 ^ 64}"
    and "s1 = fst (handleBlock E n1 pk s p b1)" and "s2 = fst (handleBlock E n2 pk s1 p b2)"
  shows "has_hash s1 (vHash v1) \<and> \<not> has_hash s2 (vHash v2)
    \<and> accStake (view K (svState s1) a) = accStake (view K (svState s) a)
    \<and> accStake (view K (svState s2) a) = of_nat (slashed_stake (unat (accStake (view K (svState s) a))))"
proof -
  have au: "vAuthor v1 = a" "vAuthor v2 = a" "vRound v1 = 0" "vRound v2 = 0"
    by (simp_all add: assms(8,9) NewVertex_def Let_def)
  have v1: "fst (ValidateBlock C K (svState s) v1) = None"
    unfolding assms(8) using assms(5-7,17) by (rule honest_validates)
  have fl1: "\<not> fst (fst (RecordBlockSigned sl v1))" using assms(2) by (simp add: RecordBlockSigned_flag au)
  note acc = accepted_full [OF assms(1,3,4,15,13,11) v1 fl1 assms(18)]
  have v2: "fst (ValidateBlock C K (svState s1) v2) = None"
    unfolding assms(9) by (rule honest_validates [OF assms(5-7)]) (use assms(17) in \<open>simp add: acc\<close>)
  have fl2: "fst (fst (RecordBlockSigned (snd (RecordBlockSigned sl v1)) v2))"
    using assms(2,10) by (simp add: RecordBlockSigned_flag RecordBlockSigned_signedAt au)
  have new2: "\<not> HasVertex (insertVertex dag v1) (vHash v2)"
    using assms(10,12) by (simp add: HasVertex_def insertVertex_def)
  have h2: "handleBlock E n2 pk s1 p b2 = (s2, snd (handleBlock E n2 pk s1 p b2))" by (simp add: assms(19))
  have "svDAG s2 = Some (insertVertex dag v1)
      \<and> view K (svState s2) = (view K (svState s1))(a := (view K (svState s1) a)
          \<lparr>accStake := of_nat (slashed_stake (unat (accStake (view K (svState s1) a))))\<rparr>)"
    using handle_block_cases [OF acc(1) assms(4,16,14) h2 refl refl refl refl] v2 fl2 new2
    by (simp add: au assms(3))
  then show ?thesis
    using acc new2 by (auto simp: full_server_def has_hash_def HasVertex_def insertVertex_def)
qed

text \<open>C13: transactions from peers are not authenticated. A \<open>MsgTx\<close> message whose payload decodes to a
  transaction with a sufficient fee, a current time stamp and a fresh nonce is put into the pool of a
  node whatever its signature is: unlike the UDP path, the handler never verifies it.\<close>

theorem p2p_tx_unverified:
  assumes "svMempool s = Some mp" and "Count mp < 10000" and "map_order (mpPending mp) (itPool it)"
    and "msgType msg = MsgTx" and "length (msgPayload msg) \<le> MaxTxSize"
    and "decTx (neCodec E) (msgPayload msg) = Some tx"
    and "acceptable (neBadger E) (itExpiry it) mp (Some (svState s)) tx"
  shows "\<exists>mp'. svMempool (fst (handleMessage E it now s p msg)) = Some mp'
    \<and> fmlookup (mpPending mp') (array32 (txSig tx)) = Some (new_entry (itAdded it) tx)"
proof -
  have add: "Mempool_Add (neBadger E) (itPool it) (itExpiry it) (itAdded it) mp (Some (svState s)) tx
      = admit (neBadger E) (itExpiry it) (itAdded it) mp (Some (svState s)) tx"
    using assms(2) by (simp add: Mempool_Add_def Count_def MaxMempoolSize_def)
  obtain ok mp' st where r: "admit (neBadger E) (itExpiry it) (itAdded it) mp (Some (svState s)) tx = (ok, mp', st)"
    by (metis prod_cases3)
  have "ok" "mp' = mp\<lparr>mpPending := fmupd (array32 (txSig tx)) (new_entry (itAdded it) tx) (mpPending mp)\<rparr>"
    using admit_eq [of "neBadger E" "itExpiry it" "itAdded it" mp "Some (svState s)" tx] assms(7) r by simp_all
  moreover have "length (msgPayload msg) \<le> MaxMessageSize"
    using assms(5) by (simp add: MaxTxSize_def MaxMessageSize_def)
  ultimately show ?thesis
    using assms(1,4-6)
    by (simp add: handleMessage_def ValidatePayloadSize_def handleTx_def SafeDecodeTransaction_def
        SafeDecode_def deliver_take add r setRep_def)
qed

text \<open>One inbound connection whose handshake fails.\<close>

definition failed_inbound :: "('d, 'b) node_env \<Rightarrow> time \<Rightarrow> string \<Rightarrow> 'd Server \<Rightarrow> 'd Server" where
  "failed_inbound E now remote s =
     (case acceptConn now s remote of
        (True, s) \<Rightarrow> fst (snd (handleConn E now now s remote False None))
      | (False, s) \<Rightarrow> s)"

text \<open>Failed handshakes use up the slots of an address. On a server that is not full, for an address
  that is not banned and has no connections counted: after \<open>n\<close> inbound connections from it that fail
  in the handshake, the next one is admitted if and only if \<open>n < 5\<close>. The count of a failed connection is never
  given back.\<close>

theorem conn_slots_leak:
  assumes "int (fmsize (svPeers s)) < svMaxPeers s" and "svMaxPerIP s = 5"
    and "\<not> IsAddressBanned now (svReputation s) (SplitHost remote)" and "connCount s (SplitHost remote) = 0"
  shows "fst (acceptConn now ((failed_inbound E now remote ^^ n) s) remote) \<longleftrightarrow> n < 5"
proof -
  let ?ip = "SplitHost remote" and ?s = "\<lambda>n. (failed_inbound E now remote ^^ n) s"
  have step: "failed_inbound E now remote x =
      (if svMaxPerIP x \<le> connCount x ?ip then x
       else x\<lparr>svConnCount := fmupd ?ip (connCount x ?ip + 1) (svConnCount x)\<rparr>)"
    if "int (fmsize (svPeers x)) < svMaxPeers x" "\<not> IsAddressBanned now (svReputation x) ?ip" for x :: "'a Server"
    using that by (simp add: failed_inbound_def acceptConn_def handleConn_def Let_def split: option.splits)
  have "svPeers (?s n) = svPeers s \<and> svMaxPeers (?s n) = svMaxPeers s \<and> svMaxPerIP (?s n) = 5
    \<and> svReputation (?s n) = svReputation s \<and> connCount (?s n) ?ip = int (min n 5)" for n
  proof (induction n)
    case (Suc n)
    then show ?case using assms step [of "?s n"] by (auto simp: connCount_def)
  qed (use assms in simp)
  then show ?thesis using assms by (auto simp: acceptConn_def Let_def)
qed

section \<open>Witnesses\<close>

text \<open>A node whose codec maps the one-byte message \<open>[i]\<close> to the \<open>i\<close>-th of two vertices and any
  transaction message to the sample transaction; hashes are lengths.\<close>

definition length_crypto :: crypto where
  "length_crypto = demo_crypto\<lparr>sha256 := \<lambda>bs. of_nat (length bs)\<rparr>"

definition demo_key :: bytes where
  "demo_key = ed_key_from_seed length_crypto (be_bytes 32 (2 :: addr))"

definition mined :: "bytes \<Rightarrow> Vertex" where
  "mined payload = NewVertex length_crypto 5 [9] 2 demo_key payload 4"

definition demo_codec :: codec where
  "demo_codec = \<lparr>decTx = (\<lambda>_. Some sample_tx), decVertex = (\<lambda>b. Some (mined b)), decTxs = (\<lambda>_. None),
     decAddr = (\<lambda>_. None), decDAG = (\<lambda>_. None), decHandshake = (\<lambda>_. None), encVertex = (\<lambda>_. None),
     encAddr = (\<lambda>_. []), encDAG = (\<lambda>_. []), encHandshake = (\<lambda>_. Some []), bufSize = 0\<rparr>"

definition demo_env :: "(bytes \<rightharpoonup> Account, Account) node_env" where
  "demo_env = \<lparr>neCrypto = length_crypto, neBadger = mem_badger,
     neGob = \<lparr>gob_vertex = \<lambda>_. None, gob_hashes = \<lambda>_. None, ungob_hashes = \<lambda>_. None\<rparr>,
     neOrd = sorted_list_of_fset, neCodec = demo_codec\<rparr>"

definition demo_server :: "(bytes \<rightharpoonup> Account) Server" where
  "demo_server = NewServer 10 ''me'' (Some empty_store) demo_sm True True (Some NewMempool)"

definition demo_peer :: Peer where
  "demo_peer = \<lparr>peerAddr = ''1.2.3.4:9000'', peerOutbound = False, peerNodeID = ''n''\<rparr>"

lemma demo_full: "full_server demo_env demo_server empty_store (NewSlasher None)"
  using demo_wf by (simp add: full_server_def demo_env_def demo_server_def NewServer_def NewSlasher_def)

lemma length_crypto_ok: "ed25519_ok length_crypto"
  using demo_crypto_ok by (simp add: ed25519_ok_def length_crypto_def Let_def)

lemma demo_key_public: "ed_public length_crypto demo_key = 2"
  by (simp add: demo_key_def length_crypto_def demo_crypto_def del: be_bytes.simps)

lemma mined_hash: "vHash (mined b) = of_nat (104 + length b)"
  by (simp add: mined_def NewVertex_def ComputeHash_def hashPreimage_def length_crypto_def Let_def del: be_bytes.simps)

lemma demo_env_simps:
  "neCrypto demo_env = length_crypto" "neBadger demo_env = mem_badger" "neCodec demo_env = demo_codec"
  "decVertex demo_codec b = Some (mined b)" "svState demo_server = demo_sm" "svDAG demo_server = Some empty_store"
  by (simp_all add: demo_env_def demo_codec_def demo_server_def NewServer_def)

lemma demo_stakes: "accStake (view mem_badger demo_sm 2) = 2000000000" "accGrantStake (view mem_badger demo_sm 2) = 0"
  by (simp_all add: demo_view zeroAccount_def)

lemma empty_has: "\<not> HasVertex empty_store h"
  by (simp add: HasVertex_def empty_store_def)

theorem honest_miner_slashed_witness:
  "let s1 = fst (handleBlock demo_env 6 [] demo_server demo_peer [1]);
       s2 = fst (handleBlock demo_env 7 [] s1 demo_peer [1, 2])
   in has_hash s1 105 \<and> accStake (view mem_badger (svState s2) 2) = 1800000000"
  using honest_miner_slashed [OF demo_full _ refl refl, where a = 2 and seed = "be_bytes 32 (2 :: addr)"
      and priv = demo_key and ?v1.0 = "mined [1]" and ?v2.0 = "mined [1, 2]" and ?t1.0 = 5 and ?t2.0 = 5
      and ?ps1.0 = "[9]" and ?ps2.0 = "[9]" and ?pay1.0 = "[1]" and ?pay2.0 = "[1, 2]" and ?m1.0 = 4 and ?m2.0 = 4
      and ?b1.0 = "[1]" and ?b2.0 = "[1, 2]" and ?n1.0 = 6 and ?n2.0 = 7 and pk = "[]" and p = demo_peer,
      OF _ _ _ _ _ _ _ _ _ _ _ _ _ _ refl refl]
  by (simp add: demo_env_simps length_crypto_ok demo_key_public mined_hash empty_has demo_stakes MaxBlockSize_def
      slashed_stake_def Let_def flip: demo_key_def mined_def del: be_bytes.simps)

theorem handle_block_witness:
  "accBalance (view mem_badger (svState (fst (handleBlock demo_env 6 [] demo_server demo_peer [1]))) 2) = 500000000"
proof -
  let ?r = "handleBlock demo_env 6 [] demo_server demo_peer [1]"
  have auth: "vAuthor (mined [1]) = 2" "vTimestamp (mined [1]) = 5"
    by (simp_all add: mined_def NewVertex_def Let_def UnixNano_def)
  have "fst (ValidateBlock length_crypto mem_badger demo_sm (mined [1])) = None"
    unfolding mined_def
    by (rule honest_validates [OF length_crypto_ok demo_key_def [symmetric] demo_key_public]) (simp add: demo_stakes)
  moreover have "\<not> fst (fst (RecordBlockSigned (NewSlasher None) (mined [1])))" by (simp add: RecordBlockSigned_flag)
  ultimately have "view mem_badger (svState (fst ?r)) =
      rewarded (view mem_badger demo_sm) 2 (blockFees demo_codec (mined [1])) 5"
    using handle_block [OF demo_full refl, of "[1]" "mined [1]" 6 "[]" demo_peer "fst ?r" "snd ?r",
        OF _ _ _ refl refl refl refl]
    by (simp add: demo_env_simps empty_has auth MaxBlockSize_def)
  then show ?thesis
    by (simp add: rewarded_def blockFees_def demo_codec_def demo_view zeroAccount_def reward_schedule_def halvings_at_def)
qed

theorem block_rewarded_once_witness:
  "let s = demo_server\<lparr>svDAG := Some (insertVertex empty_store (mined [1]))\<rparr>
   in handleBlock demo_env 9 [] (foldl (block_step demo_env) s [(6, [], demo_peer, [7])]) demo_peer [1]
      = (foldl (block_step demo_env) s [(6, [], demo_peer, [7])], [])"
  unfolding Let_def
  by (rule block_rewarded_once [where v = "mined [1]" and w = "mined [1]"
        and dag = "insertVertex empty_store (mined [1])", OF _ _ _ _ _ refl])
    (simp_all add: demo_env_simps MaxBlockSize_def, simp add: HasVertex_def insertVertex_def)

theorem p2p_tx_unverified_witness:
  "let msg = \<lparr>msgType = MsgTx, msgPayload = []\<rparr>;
       it = \<lparr>itPool = [], itExpiry = 1000000000000, itAdded = 1000000000500, itPeers = [], itKnown = [], itVertices = []\<rparr>
   in \<not> ed_verify length_crypto (txFrom sample_tx) (SerializeForSigning sample_tx) (txSig sample_tx)
      \<and> (\<exists>mp'. svMempool (fst (handleMessage demo_env it 1000000000900 demo_server demo_peer msg)) = Some mp'
           \<and> fmlookup (mpPending mp') (array32 (txSig sample_tx)) = Some (new_entry 1000000000500 sample_tx))"
proof -
  have "\<not> ed_verify length_crypto (txFrom sample_tx) (SerializeForSigning sample_tx) (txSig sample_tx)"
    by (auto simp: length_crypto_def demo_crypto_def sample_tx_def dest!: arg_cong [of _ _ length] simp del: be_bytes.simps)
  moreover have "acceptable mem_badger 1000000000000 NewMempool (Some demo_sm) sample_tx"
    by (simp add: acceptable_def sample_tx_def IsExpired_def UnixNano_def NewMempool_def demo_view zeroAccount_def
        TxMaxAge_def word_sless_alt Let_def)
  ultimately show ?thesis
    using p2p_tx_unverified [of demo_server NewMempool "\<lparr>itPool = [], itExpiry = 1000000000000, itAdded = 1000000000500, itPeers = [], itKnown = [], itVertices = []\<rparr>"
        "\<lparr>msgType = MsgTx, msgPayload = []\<rparr>" demo_env sample_tx 1000000000900 demo_peer]
    by (simp add: demo_env_simps map_order_def NewMempool_def Count_def demo_codec_def)
      (simp add: demo_server_def NewServer_def NewMempool_def)
qed

theorem conn_slots_leak_witness:
  "\<not> fst (acceptConn 5 ((failed_inbound demo_env 5 ''1.2.3.4:9000'' ^^ 5) demo_server) ''1.2.3.4:9000'')"
  using conn_slots_leak [where s = demo_server and now = 5 and remote = "''1.2.3.4:9000''" and E = demo_env and n = 5]
  by (simp add: demo_server_def NewServer_def IsAddressBanned_def NewReputationManager_def connCount_def)

end
