(* ===== verification/Peer_Session.thy ===== *)
theory Peer_Session
  imports P2P_Server
begin

text \<open>
  \<open>core/p2p/peer.go\<close> and the loops of \<open>core/p2p/server.go\<close>: what happens to a connection from its
  acceptance or dialling to its loss. The listener and the sockets of \<open>transport.go\<close> are represented by
  the events they deliver: accepted remote addresses, decoded messages, errors.
\<close>

section \<open>Peers\<close>

record PeerStats =
  psBytesReceived :: u64
  psBytesSent :: u64
  psLastSeen :: time

definition NewPeer :: "time \<Rightarrow> string \<Rightarrow> bool \<Rightarrow> Peer \<times> PeerStats" where
  "NewPeer now remote outbound =
     (\<lparr>peerAddr = remote, peerOutbound = outbound, peerNodeID = []\<rparr>,
      \<lparr>psBytesReceived = 0, psBytesSent = 0, psLastSeen = now\<rparr>)"

text \<open>\<open>encoded\<close> says whether the encoder accepts the message; bytes count as sent either way.\<close>

definition Peer_Send :: "bool \<Rightarrow> PeerStats \<Rightarrow> Message \<Rightarrow> bool \<times> PeerStats" where
  "Peer_Send encoded st msg = (encoded, st\<lparr>psBytesSent := psBytesSent st + of_nat (length (msgPayload msg))\<rparr>)"

definition Peer_Read :: "time \<Rightarrow> PeerStats \<Rightarrow> Message option \<Rightarrow> Message option \<times> PeerStats" where
  "Peer_Read now st received =
     (case received of
        None \<Rightarrow> (None, st)
      | Some msg \<Rightarrow>
          (Some msg, st\<lparr>psBytesReceived := psBytesReceived st + of_nat (length (msgPayload msg)), psLastSeen := now\<rparr>))"

section \<open>Loops\<close>

text \<open>\<open>readLoop\<close> over the messages that arrive before reading fails, each with the clock and the iteration
  orders of its handling; \<open>now\<close> is the time of the failure. The result has all messages sent and addresses
  dialled.\<close>

primrec readLoop :: "('d, 'b) node_env \<Rightarrow> time \<Rightarrow> 'd Server \<Rightarrow> Peer \<Rightarrow> (iteration \<times> time \<times> Message) list
    \<Rightarrow> 'd Server \<times> (string \<times> Message) list \<times> string list" where
  "readLoop E now s p [] = (disconnect now s p, [], [])"
| "readLoop E now s p (m # ms) =
     (let (s, out, dials) = handleMessage E (fst m) (fst (snd m)) s p (snd (snd m));
          (s, outs, dialss) = readLoop E now s p ms
      in (s, out @ outs, dials @ dialss))"

text \<open>\<open>acceptLoop\<close>: the connections for which \<open>handleConn\<close> is started, until the quit channel is closed.\<close>

datatype accept_event = QuitClosed | AcceptError | Accepted time string

primrec acceptLoop :: "'d Server \<Rightarrow> accept_event list \<Rightarrow> string list \<times> 'd Server" where
  "acceptLoop s [] = ([], s)"
| "acceptLoop s (ev # evs) =
     (case ev of
        QuitClosed \<Rightarrow> ([], s)
      | AcceptError \<Rightarrow> acceptLoop s evs
      | Accepted now remote \<Rightarrow>
          (case acceptConn now s remote of
             (True, s) \<Rightarrow> (let (cs, s) = acceptLoop s evs in (remote # cs, s))
           | (False, s) \<Rightarrow> acceptLoop s evs))"

text \<open>\<open>Connect\<close>: \<open>dialed\<close> is the outcome of dialling; on success the connection is handled as outbound.\<close>

definition Connect :: "('d, 'b) node_env \<Rightarrow> bool \<Rightarrow> time \<Rightarrow> time \<Rightarrow> 'd Server \<Rightarrow> string \<Rightarrow> Message option
    \<Rightarrow> bool \<times> Peer option \<times> 'd Server \<times> (string \<times> Message) list" where
  "Connect E dialed t1 t2 s addr reply =
     (if dialed then (True, handleConn E t1 t2 s addr True reply) else (False, None, s, []))"

definition GetReputationStats :: "string list \<Rightarrow> 'd Server \<Rightarrow> ReputationStats" where
  "GetReputationStats ks s = Reputation_Stats ks (svReputation s)"

definition GetPeerReputations :: "string list \<Rightarrow> 'd Server \<Rightarrow> PeerReputation list" where
  "GetPeerReputations ks s = GetAllReputations ks (svReputation s)"

section \<open>Lemmas\<close>

text \<open>The fields that count connections; messages do not touch them.\<close>

definition conns :: "'d Server \<Rightarrow> (string, Peer) fmap \<times> (string, int) fmap \<times> int \<times> int" where
  "conns s = (svPeers s, svConnCount s, svMaxPeers s, svMaxPerIP s)"

lemma conns_setRep [simp]: "conns (setRep s f) = conns s"
  by (simp add: conns_def setRep_def)

lemma conns_checkBlock: "conns (snd (checkBlock E s v)) = conns s"
  by (auto simp: checkBlock_def conns_def Let_def split: prod.splits option.splits if_splits)

lemma conns_acceptBlock: "conns (fst (acceptBlock E now pk s p v)) = conns s"
  by (auto simp: acceptBlock_def conns_def setRep_def Let_def split: prod.splits option.splits)

lemma conns_handleBlock: "conns (fst (handleBlock E now pk s p b)) = conns s"
proof -
  have c: "conns s1 = conns s" if "checkBlock E s v = (ok, s1)" for v ok s1
    using conns_checkBlock [of E s v] that by simp
  show ?thesis
    by (auto simp: handleBlock_def conns_acceptBlock split: prod.split option.split sum.split bool.split dest: c)
qed

lemma conns_handleBlocks: "conns (fst (handleBlocks E now pk s p bs)) = conns s"
  by (induction bs arbitrary: s) (auto simp: conns_handleBlock Let_def split: prod.splits, metis conns_handleBlock fst_conv)

lemma conns_handleMessage: "conns (fst (handleMessage E it now s p msg)) = conns s"
proof -
  have tx: "conns (handleTx E ks t1 t2 now s p b) = conns s" for ks t1 t2 b
    by (auto simp: handleTx_def conns_def setRep_def Let_def split: prod.splits option.splits sum.splits)
  have addr: "conns (snd (handleAddr X s b)) = conns s" for X b
    by (auto simp: handleAddr_def conns_def split: prod.splits option.splits)
  have dag: "conns (fst (handleDAG E now pk s p b)) = conns s" for pk b
    by (simp add: handleDAG_def conns_handleBlocks split: option.split)
  show ?thesis
    using tx addr dag conns_handleBlock [of E now _ s p]
    by (auto simp: handleMessage_def Let_def split: prod.splits) (metis fst_conv snd_conv)+
qed

lemma conns_readLoop: "conns (fst (readLoop E now s p ms)) = conns (disconnect now s p)"
proof (induction ms arbitrary: s)
  case (Cons m ms)
  obtain s1 out dials where h: "handleMessage E (fst m) (fst (snd m)) s p (snd (snd m)) = (s1, out, dials)" by (metis prod.collapse)
  then have "conns s1 = conns s" using conns_handleMessage by (metis fst_conv)
  then have "conns (disconnect now s1 p) = conns (disconnect now s p)"
    by (auto simp: disconnect_def RemovePeer_def conns_def setRep_def connCount_def Let_def split: option.splits)
  then show ?case using Cons.IH [of s1] h by (cases "readLoop E now s1 p ms") (simp add: Let_def)
qed simp

text \<open>A connection event: acceptance, the end of a handshake, a message, the loss of a connection.\<close>

datatype conn_event =
    CnAccept time string
  | CnHandshake time time string bool "Message option"
  | CnMessage iteration time Peer Message
  | CnLost time Peer

fun conn_step :: "('d, 'b) node_env \<Rightarrow> 'd Server \<Rightarrow> conn_event \<Rightarrow> 'd Server" where
  "conn_step E s (CnAccept now remote) = snd (acceptConn now s remote)"
| "conn_step E s (CnHandshake t1 t2 remote outbound reply) = fst (snd (handleConn E t1 t2 s remote outbound reply))"
| "conn_step E s (CnMessage it now p msg) = fst (handleMessage E it now s p msg)"
| "conn_step E s (CnLost now p) = disconnect now s p"

definition counted :: "'d Server \<Rightarrow> bool" where
  "counted s \<longleftrightarrow> 0 \<le> svMaxPerIP s \<and> (\<forall>ip. 0 \<le> connCount s ip \<and> connCount s ip \<le> svMaxPerIP s)"

lemma conns_counted: "conns s' = conns s \<Longrightarrow> counted s' = counted s"
  by (simp add: counted_def conns_def connCount_def)

lemma counted_accept: "counted s \<Longrightarrow> counted (snd (acceptConn now s remote))"
  by (auto simp: acceptConn_def counted_def connCount_def Let_def)

lemma counted_remove: "counted s \<Longrightarrow> counted (RemovePeer s addr)"
  unfolding counted_def RemovePeer_def connCount_def Let_def
  by (auto split: option.split) (drule spec [of _ "SplitHost addr"], simp)

lemma handleConn_conns:
  "svConnCount (fst (snd (handleConn E t1 t2 s remote outbound reply))) = svConnCount s"
  "svMaxPerIP (fst (snd (handleConn E t1 t2 s remote outbound reply))) = svMaxPerIP s"
  by (auto simp: handleConn_def AddPeer_def setRep_def Let_def split: option.split)

interpretation slots: op_system "conn_step E" counted for E :: "('d, 'b) node_env"
proof unfold_locales
  fix s :: "'d Server" and e :: conn_event
  assume "counted s"
  then show "counted (conn_step E s e)"
    by (cases e) (auto simp: counted_accept counted_remove disconnect_def conns_counted [OF conns_handleMessage]
        conns_counted [OF conns_setRep] counted_def [of "fst (snd (handleConn E _ _ s _ _ _))"] handleConn_conns connCount_def counted_def [of s])
qed

section \<open>Properties\<close>

text \<open>What a successful handshake registers.\<close>

lemma handleConn_peer:
  assumes "handleConn E t1 t2 s remote outbound reply = (Some p, s', out)"
  shows "peerAddr p = remote \<and> peerOutbound p = outbound \<and> svPeers s' = fmupd remote p (svPeers s)
    \<and> svKnownPeers s' = finsert remote (svKnownPeers s) \<and> svConnCount s' = svConnCount s
    \<and> svMaxPerIP s' = svMaxPerIP s \<and> svMaxPeers s' = svMaxPeers s"
  using assms by (auto simp: handleConn_def AddPeer_def setRep_def Let_def split: option.splits if_splits)

lemma disconnect_peer:
  assumes "fmlookup (svPeers s) (peerAddr p) \<noteq> None"
  shows "svPeers (disconnect now s p) = fmdrop (peerAddr p) (svPeers s)"
    "connCount (disconnect now s p) ip =
       (if ip = SplitHost (peerAddr p) \<and> 0 < connCount s ip then connCount s ip - 1 else connCount s ip)"
    "svMaxPeers (disconnect now s p) = svMaxPeers s" "svMaxPerIP (disconnect now s p) = svMaxPerIP s"
  using assms by (auto simp: disconnect_def RemovePeer_def setRep_def connCount_def Let_def split: option.splits)

text \<open>Connection slots over the life of connections. After any sequence of accepted connections, ended
  handshakes, messages and losses on a new server, the count of every address is between 0 and the
  limit of 5. A connection that is accepted, completes its handshake, exchanges any messages and is
  lost gives its slot back and is no longer a peer.\<close>

theorem session_slots:
  assumes "s = foldl (conn_step E) (NewServer maxPeers nodeID dag st hasState hasExec mempool) evs"
  shows "0 \<le> connCount s ip \<and> connCount s ip \<le> 5
    \<and> (\<forall>s1 s2 p out. acceptConn now s remote = (True, s1)
         \<and> handleConn E t1 t2 s1 remote False reply = (Some p, s2, out) \<longrightarrow>
         connCount (fst (readLoop E now' s2 p msgs)) ip = connCount s ip
         \<and> svPeers (fst (readLoop E now' s2 p msgs)) = fmdrop remote (svPeers s))"
proof (intro conjI allI impI)
  let ?new = "NewServer maxPeers nodeID dag st hasState hasExec mempool"
  have "counted ?new" by (simp add: counted_def NewServer_def connCount_def)
  then have "counted s" unfolding assms by (rule slots.inv_run)
  moreover have "svMaxPerIP (conn_step E x e) = svMaxPerIP x" for x e
    using handleConn_conns conns_handleMessage [of E _ _ x]
    by (cases e) (auto simp: acceptConn_def disconnect_def RemovePeer_def setRep_def conns_def Let_def split: option.split)
  then have "svMaxPerIP s = 5" unfolding assms by (induction evs rule: rev_induct) (simp_all add: NewServer_def)
  ultimately show c: "0 \<le> connCount s ip" "connCount s ip \<le> 5" by (simp_all add: counted_def)
  fix s1 s2 p out
  assume a: "acceptConn now s remote = (True, s1) \<and> handleConn E t1 t2 s1 remote False reply = (Some p, s2, out)"
  then have s1: "s1 = s\<lparr>svConnCount := fmupd (SplitHost remote) (connCount s (SplitHost remote) + 1) (svConnCount s)\<rparr>"
    by (auto simp: acceptConn_def Let_def split: if_splits)
  have nonneg: "0 \<le> connCount s ip" for ip using \<open>counted s\<close> by (simp add: counted_def)
  note p = handleConn_peer [OF conjunct2 [OF a]]
  note r = conns_readLoop [of E now' s2 p msgs]
  have d: "fmlookup (svPeers s2) (peerAddr p) \<noteq> None" using p by simp
  have "svPeers (fst (readLoop E now' s2 p msgs)) = fmdrop remote (svPeers s2)"
    using r disconnect_peer(1) [OF d] p by (simp add: conns_def)
  then show "svPeers (fst (readLoop E now' s2 p msgs)) = fmdrop remote (svPeers s)"
    using p s1 by (simp add: fmap_ext)
  have "connCount (fst (readLoop E now' s2 p msgs)) ip = connCount (disconnect now' s2 p) ip"
    using r by (simp add: conns_def connCount_def)
  moreover have "connCount s2 ip = (if ip = SplitHost remote then connCount s ip + 1 else connCount s ip)"
    using p s1 by (simp add: connCount_def)
  ultimately show "connCount (fst (readLoop E now' s2 p msgs)) ip = connCount s ip"
    using disconnect_peer(2) [OF d, of now' ip] p nonneg [of ip] by (auto split: if_splits)
qed

text \<open>The limit per address can be passed. Slots are counted on acceptance only, but given back by
  every lost connection, also by one that the node dialled itself. So when all slots of an address are
  taken and the node then dials that address, completes the handshake and loses the connection, one
  more inbound connection is admitted although no inbound peer has left.\<close>

theorem outbound_frees_slot:
  assumes "connCount s (SplitHost addr) = 5" and "svMaxPerIP s = 5"
    and "Connect E True t1 t2 s addr reply = (True, Some p, s1, out)" and "fmlookup (svPeers s) addr = None"
    and "s2 = fst (readLoop E now s1 p msgs)"
    and "SplitHost remote = SplitHost addr" and "int (fmsize (svPeers s)) < svMaxPeers s"
    and "\<not> IsAddressBanned now' (svReputation s2) (SplitHost remote)"
  shows "\<not> fst (acceptConn now' s remote) \<and> svPeers s2 = svPeers s \<and> fst (acceptConn now' s2 remote)"
proof (intro conjI)
  show "\<not> fst (acceptConn now' s remote)" using assms(1,2,6) by (simp add: acceptConn_def Let_def)
  have "handleConn E t1 t2 s addr True reply = (Some p, s1, out)" using assms(3) by (simp add: Connect_def)
  note p = handleConn_peer [OF this]
  note r = conns_readLoop [of E now s1 p msgs, folded assms(5)]
  have d: "fmlookup (svPeers s1) (peerAddr p) \<noteq> None" using p by simp
  have "svPeers s2 = fmdrop addr (svPeers s1)" using r disconnect_peer(1) [OF d] p by (simp add: conns_def)
  also have "\<dots> = svPeers s" using p assms(4) by (intro fmap_ext) auto
  finally show peers: "svPeers s2 = svPeers s" .
  have "connCount s2 (SplitHost addr) = connCount (disconnect now s1 p) (SplitHost addr)" using r by (simp add: conns_def connCount_def)
  moreover have "connCount s1 (SplitHost addr) = 5" using p assms(1) by (simp add: connCount_def)
  ultimately have "connCount s2 (SplitHost addr) = 4" using disconnect_peer(2) [OF d] p by simp
  moreover have "svMaxPeers s2 = svMaxPeers s" "svMaxPerIP s2 = 5"
    using r disconnect_peer(3,4) [OF d] p assms(2) by (simp_all add: conns_def)
  ultimately show "fst (acceptConn now' s2 remote)" using peers assms(6-8) by (simp add: acceptConn_def Let_def)
qed

section \<open>Witnesses\<close>

definition friendly_env :: "(bytes \<rightharpoonup> Account, Account) node_env" where
  "friendly_env = demo_env\<lparr>neCodec := demo_codec\<lparr>decHandshake := \<lambda>_. Some \<lparr>hsVersion = 1, hsNodeID = ''peer'',
     hsGenesisHash = ComputeGenesisHash length_crypto, hsHeight = 0\<rparr>\<rparr>\<rparr>"

lemma friendly_handshake:
  assumes "rmPeers (svReputation s) = fmempty"
  obtains p s' out where "handleConn friendly_env 0 0 s remote outbound (Some \<lparr>msgType = MsgHandshake, msgPayload = []\<rparr>) = (Some p, s', out)"
  using assms by (auto simp: handleConn_def friendly_env_def demo_env_def demo_codec_def IsBanned_def Let_def)

lemma demo_host: "SplitHost ''1.2.3.4:9000'' = ''1.2.3.4''" "SplitHost ''1.2.3.4:5555'' = ''1.2.3.4''"
  by (simp_all add: SplitHost_def Let_def)

theorem session_slots_witness:
  "\<exists>s1 s2 p out. acceptConn 0 demo_server ''1.2.3.4:9000'' = (True, s1)
     \<and> handleConn friendly_env 0 0 s1 ''1.2.3.4:9000'' False (Some \<lparr>msgType = MsgHandshake, msgPayload = []\<rparr>) = (Some p, s2, out)
     \<and> connCount (fst (readLoop friendly_env 0 s2 p [])) ''1.2.3.4'' = 0"
proof -
  have s: "demo_server = foldl (conn_step friendly_env) (NewServer 10 ''me'' (Some empty_store) demo_sm True True (Some NewMempool)) []"
    by (simp add: demo_server_def)
  obtain s1 where a: "acceptConn 0 demo_server ''1.2.3.4:9000'' = (True, s1)" "rmPeers (svReputation s1) = fmempty"
    by (simp add: demo_server_def NewServer_def acceptConn_def demo_host connCount_def IsAddressBanned_def NewReputationManager_def Let_def)
  obtain p s2 out where h: "handleConn friendly_env 0 0 s1 ''1.2.3.4:9000'' False (Some \<lparr>msgType = MsgHandshake, msgPayload = []\<rparr>) = (Some p, s2, out)"
    by (rule friendly_handshake [OF a(2)])
  have "connCount (fst (readLoop friendly_env 0 s2 p [])) ''1.2.3.4'' = connCount demo_server ''1.2.3.4''"
    using session_slots [OF s] a(1) h by blast
  then show ?thesis using a(1) h by (auto simp: demo_server_def NewServer_def connCount_def)
qed

abbreviation busy_server :: "(bytes \<rightharpoonup> Account) Server" where
  "busy_server \<equiv> demo_server\<lparr>svConnCount := fmupd ''1.2.3.4'' 5 fmempty\<rparr>"

theorem outbound_frees_slot_witness:
  "\<exists>s2. \<not> fst (acceptConn (3600 * 1000000000) busy_server ''1.2.3.4:5555'') \<and> svPeers s2 = svPeers busy_server
     \<and> fst (acceptConn (3600 * 1000000000) (s2 :: (bytes \<rightharpoonup> Account) Server) ''1.2.3.4:5555'')"
proof -
  let ?hello = "Some \<lparr>msgType = MsgHandshake, msgPayload = []\<rparr>"
  have r: "rmPeers (svReputation busy_server) = fmempty" by (simp add: demo_server_def NewServer_def NewReputationManager_def)
  obtain p s1 out where h: "handleConn friendly_env 0 0 busy_server ''1.2.3.4:9000'' True ?hello = (Some p, s1, out)"
    by (rule friendly_handshake [OF r])
  then have c: "Connect friendly_env True 0 0 busy_server ''1.2.3.4:9000'' ?hello = (True, Some p, s1, out)" by (simp add: Connect_def)
  have "rmBanned (svReputation s1) = fmempty"
    using h by (auto simp: handleConn_def demo_server_def NewServer_def NewReputationManager_def GetOrCreate_def AddPeer_def setRep_def Let_def
        split: option.splits if_splits)
  then have "\<not> IsAddressBanned (3600 * 1000000000) (svReputation (fst (readLoop friendly_env 0 s1 p []))) ip" for ip
    by (auto simp: disconnect_def RemovePeer_def setRep_def RecordDisconnect_def AdjustScore_def IsAddressBanned_def BanDuration_def Let_def
        split: option.splits if_splits)
  moreover have "connCount busy_server (SplitHost ''1.2.3.4:9000'') = 5" "svMaxPerIP busy_server = 5"
    "fmlookup (svPeers busy_server) ''1.2.3.4:9000'' = None" "int (fmsize (svPeers busy_server)) < svMaxPeers busy_server"
    by (simp_all add: demo_server_def NewServer_def connCount_def demo_host)
  ultimately show ?thesis
    using outbound_frees_slot [OF _ _ c _ refl, where remote = "''1.2.3.4:5555''" and now = 0 and msgs = "[]" and now' = "3600 * 1000000000"]
      demo_host by metis
qed

end
