(* ===== verification/Bounded_Cache.thy ===== *)
theory Bounded_Cache
  imports Nova_Prelude
begin

text \<open>
  \<open>core/cache/lru.go\<close>: the LRU cache, the bounded slice and the bounded map.

  The LRU cache is modelled with its pointers: \<open>container/list\<close> elements have identities (natural
  numbers), \<open>lruElems\<close> is the store of the entries they point to, \<open>lruOrder\<close> is the linked list from
  front to back, \<open>lruItems\<close> the index from keys to elements. Its abstraction is the list of
  key/value pairs, most recently used first. A Go panic, and a loop that never ends, is \<open>None\<close>.
\<close>

section \<open>LRU\<close>

record ('k, 'v) LRU =
  lruMaxSize :: int
  lruItems :: "('k, nat) fmap"
  lruOrder :: "nat list"
  lruElems :: "(nat, 'k \<times> 'v) fmap"
  lruNext :: nat

definition NewLRU :: "int \<Rightarrow> ('k, 'v) LRU" where
  "NewLRU maxSize =
     \<lparr>lruMaxSize = maxSize, lruItems = fmempty, lruOrder = [], lruElems = fmempty, lruNext = 0\<rparr>"

definition MoveToFront :: "nat \<Rightarrow> nat list \<Rightarrow> nat list" where
  "MoveToFront e es = e # remove1 e es"

definition LRU_Get :: "('k, 'v) LRU \<Rightarrow> 'k \<Rightarrow> 'v option \<times> ('k, 'v) LRU" where
  "LRU_Get c key =
     (case fmlookup (lruItems c) key of
        Some e \<Rightarrow> (map_option snd (fmlookup (lruElems c) e),
                    c\<lparr>lruOrder := MoveToFront e (lruOrder c)\<rparr>)
      | None \<Rightarrow> (None, c))"

definition evictBack :: "('k, 'v) LRU \<Rightarrow> ('k, 'v) LRU" where
  "evictBack c =
     (let oldest = last (lruOrder c);
          c = c\<lparr>lruOrder := butlast (lruOrder c)\<rparr>
      in case fmlookup (lruElems c) oldest of
           Some (k, v) \<Rightarrow> c\<lparr>lruItems := fmdrop k (lruItems c)\<rparr>
         | None \<Rightarrow> c)"

partial_function (option) evictLoop :: "('k, 'v) LRU \<Rightarrow> ('k, 'v) LRU option" where
  "evictLoop c =
     (if lruMaxSize c < int (length (lruOrder c))
      then evictLoop (if lruOrder c \<noteq> [] then evictBack c else c)
      else Some c)"

definition LRU_Set :: "('k, 'v) LRU \<Rightarrow> 'k \<Rightarrow> 'v \<Rightarrow> ('k, 'v) LRU option" where
  "LRU_Set c key value =
     (case fmlookup (lruItems c) key of
        Some e \<Rightarrow> Some (c\<lparr>lruOrder := MoveToFront e (lruOrder c),
                            lruElems := fmupd e (key, value) (lruElems c)\<rparr>)
      | None \<Rightarrow>
          let e = lruNext c in
          evictLoop (c\<lparr>lruNext := e + 1, lruElems := fmupd e (key, value) (lruElems c),
                       lruOrder := e # lruOrder c, lruItems := fmupd key e (lruItems c)\<rparr>))"

definition LRU_Delete :: "('k, 'v) LRU \<Rightarrow> 'k \<Rightarrow> ('k, 'v) LRU" where
  "LRU_Delete c key =
     (case fmlookup (lruItems c) key of
        Some e \<Rightarrow> c\<lparr>lruOrder := remove1 e (lruOrder c), lruItems := fmdrop key (lruItems c)\<rparr>
      | None \<Rightarrow> c)"

definition LRU_Len :: "('k, 'v) LRU \<Rightarrow> nat" where
  "LRU_Len c = length (lruOrder c)"

definition LRU_Keys :: "('k, 'v) LRU \<Rightarrow> 'k list" where
  "LRU_Keys c = List.map_filter (\<lambda>e. map_option fst (fmlookup (lruElems c) e)) (lruOrder c)"

section \<open>Bounded slices and maps\<close>

record 't BoundedSlice =
  bsItems :: "'t list"
  bsMaxSize :: int

definition NewBoundedSlice :: "int \<Rightarrow> 't BoundedSlice option" where
  "NewBoundedSlice maxSize = (if maxSize < 0 then None else Some \<lparr>bsItems = [], bsMaxSize = maxSize\<rparr>)"

definition Slice_Append :: "'t BoundedSlice \<Rightarrow> 't \<Rightarrow> 't BoundedSlice option" where
  "Slice_Append s item =
     (let items = bsItems s in
      if bsMaxSize s \<le> int (length items)
      then if items = [] then None
           else Some (s\<lparr>bsItems := (tl items @ [last items])[length items - 1 := item]\<rparr>)
      else Some (s\<lparr>bsItems := items @ [item]\<rparr>))"

definition Slice_GetAll :: "'t BoundedSlice \<Rightarrow> 't list" where
  "Slice_GetAll s = bsItems s"

definition Slice_GetLast :: "'t BoundedSlice \<Rightarrow> int \<Rightarrow> 't list option" where
  "Slice_GetLast s n =
     (let n = (if n > int (length (bsItems s)) then int (length (bsItems s)) else n);
          start = int (length (bsItems s)) - n
      in if n < 0 then None else Some (drop (nat start) (bsItems s)))"

definition Slice_Len :: "'t BoundedSlice \<Rightarrow> nat" where
  "Slice_Len s = length (bsItems s)"

record ('k, 'v) BoundedMap =
  bmData :: "('k, 'v BoundedSlice) fmap"
  bmPerKeyMax :: int
  bmMaxKeys :: int
  bmKeyOrder :: "'k list"

definition NewBoundedMap :: "int \<Rightarrow> int \<Rightarrow> ('k, 'v) BoundedMap option" where
  "NewBoundedMap perKeyMax maxKeys =
     (if maxKeys < 0 then None
      else Some \<lparr>bmData = fmempty, bmPerKeyMax = perKeyMax, bmMaxKeys = maxKeys, bmKeyOrder = []\<rparr>)"

text \<open>The branch for a new key, up to the append of the value.\<close>

definition Map_addKey :: "('k, 'v) BoundedMap \<Rightarrow> 'k \<Rightarrow> (('k, 'v) BoundedMap \<times> 'v BoundedSlice) option" where
  "Map_addKey m key =
     (case (if bmMaxKeys m \<le> int (length (bmKeyOrder m))
            then (case bmKeyOrder m of
                    [] \<Rightarrow> None
                  | oldestKey # rest \<Rightarrow>
                      Some (m\<lparr>bmData := fmdrop oldestKey (bmData m), bmKeyOrder := rest\<rparr>))
            else Some m) of
        None \<Rightarrow> None
      | Some m \<Rightarrow>
          (case NewBoundedSlice (bmPerKeyMax m) of
             None \<Rightarrow> None
           | Some slc \<Rightarrow>
               Some (m\<lparr>bmData := fmupd key slc (bmData m), bmKeyOrder := bmKeyOrder m @ [key]\<rparr>, slc)))"

definition Map_Append :: "('k, 'v) BoundedMap \<Rightarrow> 'k \<Rightarrow> 'v \<Rightarrow> ('k, 'v) BoundedMap option" where
  "Map_Append m key value =
     (case (case fmlookup (bmData m) key of Some slc \<Rightarrow> Some (m, slc) | None \<Rightarrow> Map_addKey m key) of
        None \<Rightarrow> None
      | Some (m, slc) \<Rightarrow>
          map_option (\<lambda>slc. m\<lparr>bmData := fmupd key slc (bmData m)\<rparr>) (Slice_Append slc value))"

definition Map_Get :: "('k, 'v) BoundedMap \<Rightarrow> 'k \<Rightarrow> 'v list" where
  "Map_Get m key = (case fmlookup (bmData m) key of Some slc \<Rightarrow> Slice_GetAll slc | None \<Rightarrow> [])"

definition Map_Len :: "('k, 'v) BoundedMap \<Rightarrow> nat" where
  "Map_Len m = fmsize (bmData m)"

section \<open>The LRU cache refines a recency list\<close>

definition entries :: "('k, 'v) LRU \<Rightarrow> ('k \<times> 'v) list" where
  "entries c = map (\<lambda>e. the (fmlookup (lruElems c) e)) (lruOrder c)"

definition lru_inv :: "('k, 'v) LRU \<Rightarrow> bool" where
  "lru_inv c \<longleftrightarrow> distinct (lruOrder c)
     \<and> (\<forall>e\<in>set (lruOrder c). e < lruNext c \<and> fmlookup (lruElems c) e \<noteq> None)
     \<and> (\<forall>k e. fmlookup (lruItems c) k = Some e \<longleftrightarrow>
            e \<in> set (lruOrder c) \<and> (\<exists>v. fmlookup (lruElems c) e = Some (k, v)))"

abbreviation without :: "'k \<Rightarrow> ('k \<times> 'v) list \<Rightarrow> ('k \<times> 'v) list" where
  "without k \<equiv> filter (\<lambda>p. fst p \<noteq> k)"

lemma inv_keys_distinct: "lru_inv c \<Longrightarrow> distinct (map fst (entries c))"
  unfolding lru_inv_def entries_def map_map
  by (subst distinct_map) (auto simp: inj_on_def, metis prod.collapse option.sel)

lemma entries_lookup:
  assumes "lru_inv c"
  shows "map_of (entries c) k = (case fmlookup (lruItems c) k of None \<Rightarrow> None
     | Some e \<Rightarrow> map_option snd (fmlookup (lruElems c) e))"
proof (cases "fmlookup (lruItems c) k")
  case None
  then have "k \<notin> fst ` set (entries c)"
    using assms by (auto simp: lru_inv_def entries_def) (metis prod.collapse option.exhaust_sel option.distinct(1))
  with None show ?thesis by (simp add: map_of_eq_None_iff)
next
  case (Some e)
  then obtain v where "e \<in> set (lruOrder c)" "fmlookup (lruElems c) e = Some (k, v)"
    using assms by (auto simp: lru_inv_def)
  then show ?thesis
    using Some inv_keys_distinct [OF assms] by (auto simp: entries_def intro!: map_of_is_SomeI image_eqI [of _ _ e])
qed

lemma without_remove1:
  assumes "lru_inv c" "fmlookup (lruItems c) k = Some e"
  shows "map (\<lambda>e. the (fmlookup (lruElems c) e)) (remove1 e (lruOrder c)) = without k (entries c)"
proof -
  have d: "distinct (lruOrder c)" using assms(1) by (simp add: lru_inv_def)
  have "e' \<noteq> e \<longleftrightarrow> fst (the (fmlookup (lruElems c) e')) \<noteq> k" if "e' \<in> set (lruOrder c)" for e'
    using assms that unfolding lru_inv_def by (metis fst_conv option.sel prod.collapse option.exhaust_sel)
  then have "filter (\<lambda>x. x \<noteq> e) (lruOrder c) = filter (\<lambda>x. fst (the (fmlookup (lruElems c) x)) \<noteq> k) (lruOrder c)"
    by (intro filter_cong) auto
  then show ?thesis
    using d by (simp add: distinct_remove1_removeAll removeAll_filter_not_eq entries_def filter_map o_def neq_commute)
qed

lemma inv_remove:
  assumes "lru_inv c" "fmlookup (lruItems c) k = Some e" "distinct es" "set es = set (lruOrder c) - {e}"
  shows "lru_inv (c\<lparr>lruOrder := es, lruItems := fmdrop k (lruItems c)\<rparr>)"
proof -
  have ix: "fmlookup (lruItems c) k' = Some e' \<longleftrightarrow>
      e' \<in> set (lruOrder c) \<and> (\<exists>v. fmlookup (lruElems c) e' = Some (k', v))" for k' e'
    using assms(1) by (simp add: lru_inv_def)
  obtain v where v: "fmlookup (lruElems c) e = Some (k, v)" using ix assms(2) by blast
  have "fmlookup (fmdrop k (lruItems c)) k' = Some e' \<longleftrightarrow>
      e' \<in> set es \<and> (\<exists>v. fmlookup (lruElems c) e' = Some (k', v))" for k' e'
  proof (cases "k' = k")
    case True
    have "\<not> (e' \<in> set (lruOrder c) - {e} \<and> (\<exists>v. fmlookup (lruElems c) e' = Some (k, v)))"
      using ix [of k e'] assms(2) by auto
    then show ?thesis using True assms(4) by simp
  next
    case False
    then have "(\<exists>v. fmlookup (lruElems c) e' = Some (k', v)) \<longrightarrow> e' \<noteq> e" using v by auto
    then show ?thesis using False assms(4) ix [of k' e'] by auto
  qed
  moreover have "\<forall>x\<in>set es. x < lruNext c \<and> fmlookup (lruElems c) x \<noteq> None"
    using assms(1,4) by (auto simp: lru_inv_def)
  ultimately show ?thesis using assms(3) unfolding lru_inv_def by simp
qed

lemma evictBack_refines:
  assumes "lru_inv c" "lruOrder c \<noteq> []"
  shows "lru_inv (evictBack c)" "entries (evictBack c) = butlast (entries c)"
    "lruMaxSize (evictBack c) = lruMaxSize c"
proof -
  have l: "last (lruOrder c) \<in> set (lruOrder c)" using assms(2) by simp
  then obtain k v where kv: "fmlookup (lruElems c) (last (lruOrder c)) = Some (k, v)"
    using assms(1) by (fastforce simp: lru_inv_def)
  have e: "evictBack c = c\<lparr>lruOrder := butlast (lruOrder c), lruItems := fmdrop k (lruItems c)\<rparr>"
    using kv by (simp add: evictBack_def Let_def)
  have i: "fmlookup (lruItems c) k = Some (last (lruOrder c))"
    using assms(1) kv l by (simp add: lru_inv_def)
  obtain es x where es: "lruOrder c = es @ [x]" using assms(2) by (metis rev_exhaust)
  have "distinct (lruOrder c)" using assms(1) by (simp add: lru_inv_def)
  then show "lru_inv (evictBack c)"
    unfolding e by (intro inv_remove [OF assms(1) i]) (auto simp: es)
  show "entries (evictBack c) = butlast (entries c)" "lruMaxSize (evictBack c) = lruMaxSize c"
    by (simp_all add: e entries_def map_butlast)
qed

lemma take_butlast_le: "n < length xs \<Longrightarrow> take n (butlast xs) = take n xs"
  by (simp add: take_butlast)

lemma evictLoop_refines:
  assumes "lru_inv c" "0 \<le> lruMaxSize c"
  shows "\<exists>c'. evictLoop c = Some c' \<and> lru_inv c' \<and> lruMaxSize c' = lruMaxSize c
    \<and> entries c' = take (nat (lruMaxSize c)) (entries c)"
  using assms
proof (induction "length (lruOrder c)" arbitrary: c)
  case 0
  then show ?case by (subst evictLoop.simps) (simp add: entries_def)
next
  case (Suc n)
  have len: "length (entries c) = Suc n" using Suc.hyps(2) by (simp add: entries_def)
  show ?case
  proof (cases "lruMaxSize c < int (length (lruOrder c))")
    case False
    then have "length (entries c) \<le> nat (lruMaxSize c)" using len Suc.hyps(2) by linarith
    with False Suc.prems show ?thesis by (subst evictLoop.simps) simp
  next
    case True
    have ne: "lruOrder c \<noteq> []" using Suc.hyps(2) by auto
    note b = evictBack_refines [OF Suc.prems(1) ne]
    have "length (lruOrder (evictBack c)) = n"
      using arg_cong [OF b(2), of length] len by (simp add: entries_def)
    from Suc.hyps(1) [OF this [symmetric] b(1)] b(3) Suc.prems(2) obtain c' where
      c': "evictLoop (evictBack c) = Some c'" "lru_inv c'" "lruMaxSize c' = lruMaxSize c"
        "entries c' = take (nat (lruMaxSize c)) (entries (evictBack c))" by auto
    have "nat (lruMaxSize c) < length (entries c)" using True len Suc.hyps(2) Suc.prems(2) by linarith
    then have "entries c' = take (nat (lruMaxSize c)) (entries c)"
      using c'(4) b(2) take_butlast_le by metis
    moreover have "evictLoop c = Some c'" using True ne c'(1) by (subst evictLoop.simps) simp
    ultimately show ?thesis using c' by auto
  qed
qed

lemma Get_refines:
  assumes "lru_inv c"
  shows "fst (LRU_Get c k) = map_of (entries c) k" "lru_inv (snd (LRU_Get c k))"
    "lruMaxSize (snd (LRU_Get c k)) = lruMaxSize c"
    "entries (snd (LRU_Get c k)) =
       (case map_of (entries c) k of Some v \<Rightarrow> (k, v) # without k (entries c) | None \<Rightarrow> entries c)"
proof -
  show "fst (LRU_Get c k) = map_of (entries c) k"
    using entries_lookup [OF assms, of k] by (simp add: LRU_Get_def split: option.splits)
  show "lru_inv (snd (LRU_Get c k))"
    using assms by (auto simp: LRU_Get_def MoveToFront_def lru_inv_def split: option.splits)
  show "lruMaxSize (snd (LRU_Get c k)) = lruMaxSize c" by (simp add: LRU_Get_def split: option.splits)
  show "entries (snd (LRU_Get c k)) =
       (case map_of (entries c) k of Some v \<Rightarrow> (k, v) # without k (entries c) | None \<Rightarrow> entries c)"
  proof (cases "fmlookup (lruItems c) k")
    case None
    then show ?thesis using entries_lookup [OF assms, of k] by (simp add: LRU_Get_def)
  next
    case (Some e)
    then obtain v where "fmlookup (lruElems c) e = Some (k, v)" using assms by (auto simp: lru_inv_def)
    then show ?thesis
      using Some entries_lookup [OF assms, of k] without_remove1 [OF assms Some]
      by (simp add: LRU_Get_def MoveToFront_def) (simp add: entries_def)
  qed
qed

lemma Delete_refines:
  assumes "lru_inv c"
  shows "lru_inv (LRU_Delete c k)" "lruMaxSize (LRU_Delete c k) = lruMaxSize c"
    "entries (LRU_Delete c k) = without k (entries c)"
proof -
  show "lruMaxSize (LRU_Delete c k) = lruMaxSize c" by (simp add: LRU_Delete_def split: option.splits)
  have "lru_inv (LRU_Delete c k) \<and> entries (LRU_Delete c k) = without k (entries c)"
  proof (cases "fmlookup (lruItems c) k")
    case None
    then have "map_of (entries c) k = None" using entries_lookup [OF assms, of k] by simp
    then have "without k (entries c) = entries c"
      by (auto simp: map_of_eq_None_iff intro!: filter_True)
    then show ?thesis using None assms by (simp add: LRU_Delete_def)
  next
    case (Some e)
    then obtain v where v: "fmlookup (lruElems c) e = Some (k, v)" using assms by (auto simp: lru_inv_def)
    have "lru_inv (LRU_Delete c k)"
      using assms inv_remove [OF assms Some, of "remove1 e (lruOrder c)"]
      by (simp add: LRU_Delete_def Some) (simp add: lru_inv_def)
    then show ?thesis
      using Some without_remove1 [OF assms Some] by (simp add: LRU_Delete_def) (simp add: entries_def)
  qed
  then show "lru_inv (LRU_Delete c k)" "entries (LRU_Delete c k) = without k (entries c)" by auto
qed

lemma Set_new:
  assumes "lru_inv c" "0 \<le> lruMaxSize c" and None: "fmlookup (lruItems c) k = None"
  shows "\<exists>c'. LRU_Set c k v = Some c' \<and> lru_inv c' \<and> lruMaxSize c' = lruMaxSize c
    \<and> entries c' = take (nat (lruMaxSize c)) ((k, v) # without k (entries c))"
proof -
  define e where "e = lruNext c"
  define c1 where "c1 = c\<lparr>lruNext := e + 1, lruElems := fmupd e (k, v) (lruElems c),
                       lruOrder := e # lruOrder c, lruItems := fmupd k e (lruItems c)\<rparr>"
  have fresh: "e \<notin> set (lruOrder c)" using assms(1) by (auto simp: lru_inv_def e_def)
  have nokey: "fst (the (fmlookup (lruElems c) x)) \<noteq> k" if x: "x \<in> set (lruOrder c)" for x
  proof
    assume "fst (the (fmlookup (lruElems c) x)) = k"
    moreover obtain p where "fmlookup (lruElems c) x = Some p"
      using assms(1) x by (fastforce simp: lru_inv_def)
    ultimately have "fmlookup (lruItems c) k = Some x" using assms(1) x unfolding lru_inv_def by (cases p) auto
    with None show False by simp
  qed
  have "lru_inv c1"
    using assms(1) fresh None nokey unfolding lru_inv_def c1_def e_def
    by (auto simp: less_Suc_eq split: if_splits) (use nokey in fastforce)
  moreover have "entries c1 = (k, v) # without k (entries c)"
  proof -
    have "map (\<lambda>x. the (fmlookup (fmupd e (k, v) (lruElems c)) x)) (lruOrder c) = entries c"
      unfolding entries_def using fresh by (intro map_cong) auto
    moreover have "without k (entries c) = entries c"
      using nokey by (auto simp: entries_def intro!: filter_True)
    ultimately show ?thesis by (simp add: c1_def entries_def)
  qed
  moreover have "LRU_Set c k v = evictLoop c1" by (simp add: LRU_Set_def None Let_def c1_def e_def)
  ultimately show ?thesis using evictLoop_refines [of c1] assms(2) by (simp add: c1_def)
qed

lemma Set_hit:
  assumes "lru_inv c" "int (length (entries c)) \<le> lruMaxSize c" and Some: "fmlookup (lruItems c) k = Some e"
  shows "\<exists>c'. LRU_Set c k v = Some c' \<and> lru_inv c' \<and> lruMaxSize c' = lruMaxSize c
    \<and> entries c' = take (nat (lruMaxSize c)) ((k, v) # without k (entries c))"
proof -
  define c1 where "c1 = c\<lparr>lruOrder := MoveToFront e (lruOrder c), lruElems := fmupd e (k, v) (lruElems c)\<rparr>"
  obtain w where w: "e \<in> set (lruOrder c)" "fmlookup (lruElems c) e = Some (k, w)"
    using Some assms(1) by (auto simp: lru_inv_def)
  have d: "distinct (lruOrder c)" using assms(1) by (simp add: lru_inv_def)
  have "lru_inv c1"
    using assms(1) w unfolding lru_inv_def c1_def MoveToFront_def by auto
  moreover have en: "entries c1 = (k, v) # without k (entries c)"
  proof -
    have "map (\<lambda>x. the (fmlookup (fmupd e (k, v) (lruElems c)) x)) (remove1 e (lruOrder c))
        = map (\<lambda>x. the (fmlookup (lruElems c) x)) (remove1 e (lruOrder c))"
      using d by (intro map_cong) auto
    then show ?thesis using without_remove1 [OF assms(1) Some]
      by (simp add: c1_def entries_def MoveToFront_def)
  qed
  moreover have "length (entries c1) = length (entries c)"
    using w(1) by (simp add: c1_def entries_def MoveToFront_def length_remove1) 
      (metis One_nat_def Suc_pred length_pos_if_in_set)
  ultimately show ?thesis using assms(2)
    by (auto simp: LRU_Set_def Some c1_def)
qed

lemma Set_refines:
  assumes "lru_inv c" "0 \<le> lruMaxSize c" "int (length (entries c)) \<le> lruMaxSize c"
  shows "\<exists>c'. LRU_Set c k v = Some c' \<and> lru_inv c' \<and> lruMaxSize c' = lruMaxSize c
    \<and> entries c' = take (nat (lruMaxSize c)) ((k, v) # without k (entries c))"
  using Set_new [OF assms(1,2), of k v] Set_hit [OF assms(1,3), of k _ v] by (cases "fmlookup (lruItems c) k") auto

section \<open>The interface of a recency cache\<close>

datatype ('k, 'v) cache_op = CGet 'k | CSet 'k 'v | CDelete 'k

fun recency_step :: "nat \<Rightarrow> ('k \<times> 'v) list \<Rightarrow> ('k, 'v) cache_op \<Rightarrow> ('k \<times> 'v) list" where
  "recency_step n xs (CGet k) = (case map_of xs k of Some v \<Rightarrow> (k, v) # without k xs | None \<Rightarrow> xs)"
| "recency_step n xs (CSet k v) = take n ((k, v) # without k xs)"
| "recency_step n xs (CDelete k) = without k xs"

fun op_key :: "('k, 'v) cache_op \<Rightarrow> 'k" where
  "op_key (CGet k) = k" | "op_key (CSet k v) = k" | "op_key (CDelete k) = k"

primrec orun :: "('s \<Rightarrow> 'o \<Rightarrow> 's option) \<Rightarrow> 's \<Rightarrow> 'o list \<Rightarrow> 's option" where
  "orun step s [] = Some s"
| "orun step s (e # es) = (case step s e of None \<Rightarrow> None | Some s' \<Rightarrow> orun step s' es)"

lemma orun_append: "orun step s (xs @ ys) = Option.bind (orun step s xs) (\<lambda>s. orun step s ys)"
  by (induction xs arbitrary: s) (auto split: option.splits)

text \<open>A key is fresh enough when only keys of a set \<open>T\<close> precede it in the recency list.\<close>

definition recent_in :: "'k set \<Rightarrow> 'k \<Rightarrow> 'v \<Rightarrow> ('k \<times> 'v) list \<Rightarrow> bool" where
  "recent_in T k v xs \<longleftrightarrow> (\<exists>ys zs. xs = ys @ (k, v) # zs \<and> fst ` set ys \<subseteq> T)"

lemma recent_in_push:
  assumes "fst ` set ys \<subseteq> T" "j \<in> T" "finite T" "card T < n" and w: "without j xs = without j ys @ (k, v) # zs"
    and "distinct (map fst ys)"
  shows "recent_in T k v (take n ((j, u) # without j xs))"
proof -
  let ?f = "(j, u) # without j ys"
  have "distinct (map fst ?f)" using assms(6) by (auto simp: distinct_map_filter)
  then have "length ?f = card (fst ` set ?f)" using distinct_card by (metis length_map list.set_map)
  also have "\<dots> \<le> card T" using assms(1-3) by (intro card_mono) auto
  finally have "length ?f < n" using assms(4) by simp
  then have "take n ((j, u) # without j xs) = ?f @ (k, v) # take (n - length ?f - 1) zs"
    unfolding w by (cases n) (auto simp: take_Cons')
  then show ?thesis unfolding recent_in_def using assms(1,2) by (intro exI [of _ ?f] exI [of _ "take (n - length ?f - 1) zs"]) auto
qed

lemma recent_in_step:
  assumes "recent_in T k v xs" "distinct (map fst xs)" "finite T" "card T < n" "k \<notin> T"
    and "op_key e \<in> T \<or> e = CGet k"
  shows "recent_in T k v (recency_step n xs e)"
proof -
  obtain ys zs where xs: "xs = ys @ (k, v) # zs" and ys: "fst ` set ys \<subseteq> T"
    using assms(1) by (auto simp: recent_in_def)
  show ?thesis
  proof (cases "e = CGet k")
    case True
    have "k \<notin> fst ` set ys" using ys assms(5) by auto
    then have "map_of ys k = None" by (simp add: map_of_eq_None_iff)
    then have "map_of xs k = Some v" by (simp add: xs map_add_def)
    with True show ?thesis
      unfolding recent_in_def by (intro exI [of _ "[]"] exI [of _ "without k xs"]) simp
  next
    case False
    define j where "j = op_key e"
    have j: "j \<in> T" "j \<noteq> k" using False assms(5,6) by (auto simp: j_def)
    have w: "without j xs = without j ys @ (k, v) # without j zs" using j(2) xs by auto
    have front: "recent_in T k v ((j, u) # without j xs)" for u
      unfolding recent_in_def w using ys j(1) by (intro exI [of _ "(j, u) # without j ys"] exI [of _ "without j zs"]) auto
    have keep: "recent_in T k v (take n ((j, u) # without j xs))" for u
      using recent_in_push [OF ys j(1) assms(3,4) w] assms(2) xs by simp
    show ?thesis
    proof (cases e)
      case (CGet i)
      then show ?thesis using front assms(1) by (auto simp: j_def split: option.splits)
    next
      case (CSet i u)
      then show ?thesis using keep [of u] by (simp add: j_def)
    next
      case (CDelete i)
      then show ?thesis unfolding recent_in_def using ys w
        by (intro exI [of _ "without i ys"] exI [of _ "without i zs"]) (auto simp: j_def)
    qed
  qed
qed

locale recency_cache =
  fixes step :: "'s \<Rightarrow> ('k, 'v) cache_op \<Rightarrow> 's option"
    and contents :: "'s \<Rightarrow> ('k \<times> 'v) list"
    and inv :: "'s \<Rightarrow> bool"
    and capacity :: nat
  assumes step_refines: "inv s \<Longrightarrow>
      \<exists>s'. step s e = Some s' \<and> inv s' \<and> contents s' = recency_step capacity (contents s) e"
    and keys_distinct: "inv s \<Longrightarrow> distinct (map fst (contents s))"
begin

lemma run_refines:
  "inv s \<Longrightarrow> \<exists>s'. orun step s es = Some s' \<and> inv s' \<and> contents s' = foldl (recency_step capacity) (contents s) es"
proof (induction es arbitrary: s)
  case (Cons e es)
  from step_refines [OF Cons.prems, of e] obtain s1 where
    "step s e = Some s1" "inv s1" "contents s1 = recency_step capacity (contents s) e" by auto
  with Cons.IH [of s1] show ?case by auto
qed simp

lemma retention:
  assumes "inv s" "recent_in T k v (contents s)" "finite T" "card T < capacity" "k \<notin> T"
    and "\<forall>e\<in>set es. op_key e \<in> T \<or> e = CGet k"
  shows "\<exists>s'. orun step s es = Some s' \<and> inv s' \<and> recent_in T k v (contents s')"
  using assms(1,2,6)
proof (induction es arbitrary: s)
  case (Cons e es)
  obtain s1 where s1: "step s e = Some s1" "inv s1" "contents s1 = recency_step capacity (contents s) e"
    using step_refines [OF Cons.prems(1), of e] by auto
  have "recent_in T k v (contents s1)"
    unfolding s1(3) using Cons.prems assms(3-5) by (intro recent_in_step keys_distinct) auto
  with Cons.IH [of s1] Cons.prems(3) s1 show ?case by auto
qed simp

end

fun lru_step :: "('k, 'v) LRU \<Rightarrow> ('k, 'v) cache_op \<Rightarrow> ('k, 'v) LRU option" where
  "lru_step c (CGet k) = Some (snd (LRU_Get c k))"
| "lru_step c (CSet k v) = LRU_Set c k v"
| "lru_step c (CDelete k) = Some (LRU_Delete c k)"

definition lru_ok :: "nat \<Rightarrow> ('k, 'v) LRU \<Rightarrow> bool" where
  "lru_ok n c \<longleftrightarrow> lru_inv c \<and> lruMaxSize c = int n \<and> length (entries c) \<le> n"

lemma lru_ok_new [simp]: "lru_ok n (NewLRU (int n))" "entries (NewLRU m) = []"
  by (auto simp: lru_ok_def lru_inv_def NewLRU_def entries_def)

lemma length_without_found: "map_of xs k = Some v \<Longrightarrow> length (without k xs) < length xs"
  by (rule length_filter_less [of "(k, v)"]) (auto dest: map_of_SomeD)

interpretation lru: recency_cache lru_step entries "lru_ok n" n for n
proof
  fix c :: "('k, 'v) LRU" and e
  assume ok: "lru_ok n c"
  then have i: "lru_inv c" "lruMaxSize c = int n" "length (entries c) \<le> n" by (auto simp: lru_ok_def)
  show "distinct (map fst (entries c))" using i(1) by (rule inv_keys_distinct)
  show "\<exists>s'. lru_step c e = Some s' \<and> lru_ok n s' \<and> entries s' = recency_step n (entries c) e"
  proof (cases e)
    case (CGet k)
    then show ?thesis using i Get_refines [OF i(1), of k] length_without_found [of "entries c" k]
      by (auto simp: lru_ok_def split: option.splits)
  next
    case (CSet k v)
    then show ?thesis using i Set_refines [of c k v] by (auto simp: lru_ok_def simp del: take_Suc_Cons)
  next
    case (CDelete k)
    then show ?thesis using i Delete_refines [OF i(1), of k] le_trans [OF length_filter_le i(3)]
      by (auto simp: lru_ok_def)
  qed
qed

lemma evictLoop_nonneg:
  assumes "evictLoop c = Some c'"
  shows "0 \<le> lruMaxSize c"
proof (rule evictLoop.raw_induct [where P = "\<lambda>c c'. 0 \<le> lruMaxSize c", OF _ assms])
  fix f :: "('a, 'b) LRU \<Rightarrow> ('a, 'b) LRU option" and c c'
  assume IH: "\<And>c c'. f c = Some c' \<Longrightarrow> 0 \<le> lruMaxSize c"
    and body: "(if lruMaxSize c < int (length (lruOrder c))
       then f (if lruOrder c \<noteq> [] then evictBack c else c) else Some c) = Some c'"
  have "lruMaxSize (if lruOrder c \<noteq> [] then evictBack c else c) = lruMaxSize c"
    by (simp add: evictBack_def Let_def split: option.splits)
  with body show "0 \<le> lruMaxSize c"
    by (cases "lruMaxSize c < int (length (lruOrder c))") (fastforce dest: IH)+
qed

lemma Keys_entries: "lru_inv c \<Longrightarrow> LRU_Keys c = map fst (entries c)"
proof -
  assume "lru_inv c"
  then have "\<forall>e\<in>set (lruOrder c). \<exists>p. fmlookup (lruElems c) e = Some p"
    by (fastforce simp: lru_inv_def)
  then have "List.map_filter (\<lambda>e. map_option fst (fmlookup (lruElems c) e)) es
      = map (\<lambda>e. fst (the (fmlookup (lruElems c) e))) es" if "set es \<subseteq> set (lruOrder c)" for es
    using that by (induction es) (auto simp: map_filter_simps)
  then show ?thesis by (simp add: LRU_Keys_def entries_def o_def)
qed

section \<open>Bounded slices and maps keep suffixes\<close>

definition lastn :: "nat \<Rightarrow> 't list \<Rightarrow> 't list" where
  "lastn n xs = drop (length xs - n) xs"

lemma lastn_snoc:
  assumes "0 < n"
  shows "lastn n (xs @ [x]) = (if n \<le> length xs then tl (lastn n xs) else lastn n xs) @ [x]"
proof (cases "n \<le> length xs")
  case True
  then have "Suc (length xs) - n = Suc (length xs - n)" by (simp add: Suc_diff_le)
  then show ?thesis using True assms by (simp add: lastn_def drop_Suc tl_drop)
qed (use assms in \<open>simp add: lastn_def\<close>)

lemma length_lastn [simp]: "length (lastn n xs) = min n (length xs)"
  by (auto simp: lastn_def min_def)

lemma lastn_Nil [simp]: "lastn n [] = []"
  by (simp add: lastn_def)

lemma lastn_single [simp]: "0 < n \<Longrightarrow> lastn n [x] = [x]"
  by (simp add: lastn_def)

lemma shift_in: "ys \<noteq> [] \<Longrightarrow> (tl ys @ [last ys])[length ys - 1 := x] = tl ys @ [x]"
  by (cases ys) (auto simp: list_update_append)

lemma Slice_Append_eq:
  assumes "0 < n" "bsMaxSize s = int n" "bsItems s = lastn n xs"
  shows "Slice_Append s x = Some (s\<lparr>bsItems := lastn n (xs @ [x])\<rparr>)"
proof (cases "n \<le> length xs")
  case True
  then have "length (lastn n xs) = n" "lastn n xs \<noteq> []"
    using assms(1) by (auto simp flip: length_greater_0_conv)
  then show ?thesis
    using assms True shift_in [of "lastn n xs" x] by (simp add: Slice_Append_def Let_def lastn_snoc)
qed (use assms in \<open>simp add: Slice_Append_def Let_def lastn_snoc\<close>)

definition map_step :: "('k, 'v) BoundedMap \<Rightarrow> 'k \<times> 'v \<Rightarrow> ('k, 'v) BoundedMap option" where
  "map_step m kv = Map_Append m (fst kv) (snd kv)"

definition values_of :: "'k \<Rightarrow> ('k \<times> 'v) list \<Rightarrow> 'v list" where
  "values_of k kvs = map snd (filter (\<lambda>p. fst p = k) kvs)"

text \<open>What the map holds after the appends \<open>kvs\<close>: each present key has the last \<open>p\<close> of its values
  since some point of the history, the whole history for as long as no key was evicted.\<close>

definition bm_inv :: "nat \<Rightarrow> nat \<Rightarrow> ('k \<times> 'v) list \<Rightarrow> ('k, 'v) BoundedMap \<Rightarrow> bool" where
  "bm_inv p n kvs m \<longleftrightarrow> bmPerKeyMax m = int p \<and> bmMaxKeys m = int n
     \<and> distinct (bmKeyOrder m) \<and> length (bmKeyOrder m) \<le> n
     \<and> set (bmKeyOrder m) = fset (fmdom (bmData m)) \<and> set (bmKeyOrder m) \<subseteq> fst ` set kvs
     \<and> (\<forall>k s. fmlookup (bmData m) k = Some s \<longrightarrow> bsMaxSize s = int p
          \<and> (\<exists>d. bsItems s = lastn p (drop d (values_of k kvs))))
     \<and> (card (fst ` set kvs) \<le> n \<longrightarrow> set (bmKeyOrder m) = fst ` set kvs
          \<and> (\<forall>k s. fmlookup (bmData m) k = Some s \<longrightarrow> bsItems s = lastn p (values_of k kvs)))"

lemma values_of_snoc [simp]: "values_of k (kvs @ [(j, v)]) = (if j = k then values_of k kvs @ [v] else values_of k kvs)"
  by (simp add: values_of_def)

lemma bm_invD:
  assumes "bm_inv p n kvs m"
  shows "bmPerKeyMax m = int p" "bmMaxKeys m = int n" "distinct (bmKeyOrder m)"
    "length (bmKeyOrder m) \<le> n" "set (bmKeyOrder m) = fset (fmdom (bmData m))"
    "set (bmKeyOrder m) \<subseteq> fst ` set kvs"
    "\<forall>k s. fmlookup (bmData m) k = Some s \<longrightarrow> bsMaxSize s = int p
          \<and> (\<exists>d. bsItems s = lastn p (drop d (values_of k kvs)))"
    "card (fst ` set kvs) \<le> n \<longrightarrow> set (bmKeyOrder m) = fst ` set kvs
          \<and> (\<forall>k s. fmlookup (bmData m) k = Some s \<longrightarrow> bsItems s = lastn p (values_of k kvs))"
  using assms unfolding bm_inv_def by - (elim conjE, assumption)+

lemma bm_append_known:
  assumes "0 < p" "bm_inv p n kvs m" "fmlookup (bmData m) k = Some s"
  shows "\<exists>m'. Map_Append m k v = Some m' \<and> bm_inv p n (kvs @ [(k, v)]) m'"
proof -
  let ?xs = "values_of k kvs"
  note inv = bm_invD [OF assms(2)]
  obtain d where d: "bsMaxSize s = int p" "bsItems s = lastn p (drop d ?xs)"
    using inv(7) assms(3) by blast
  define items where "items = lastn p (drop d ?xs @ [v])"
  define m' where "m' = m\<lparr>bmData := fmupd k (s\<lparr>bsItems := items\<rparr>) (bmData m)\<rparr>"
  have suffix: "\<exists>d'. items = lastn p (drop d' (?xs @ [v]))"
    unfolding items_def by (rule exI [of _ "min d (length ?xs)"]) (auto simp: min_def)
  have whole: "items = lastn p (?xs @ [v])" if "bsItems s = lastn p ?xs"
    using Slice_Append_eq [OF assms(1) d(1) d(2), of v] Slice_Append_eq [OF assms(1) d(1) that, of v]
    by (auto simp: items_def dest: arg_cong [of _ _ bsItems])
  have mem: "k \<in> set (bmKeyOrder m)" using assms(3) inv(5) by (auto intro: fmdomI)
  then have kv: "fst ` set (kvs @ [(k, v)]) = fst ` set kvs" using inv(6) by auto
  have app: "Map_Append m k v = Some m'"
    by (simp add: Map_Append_def assms(3) Slice_Append_eq [OF assms(1) d] m'_def items_def)
  have "bm_inv p n (kvs @ [(k, v)]) m'"
    unfolding bm_inv_def kv
  proof (intro conjI allI impI)
    show "set (bmKeyOrder m') = fset (fmdom (bmData m'))" using inv(5) mem by (auto simp: m'_def)
  next
    fix j t assume "fmlookup (bmData m') j = Some t"
    then show "bsMaxSize t = int p" "\<exists>d. bsItems t = lastn p (drop d (values_of j (kvs @ [(k, v)])))"
      using inv(7) d(1) suffix by (auto simp: m'_def simp del: drop_append split: if_splits)
  next
    assume "card (fst ` set kvs) \<le> n"
    then have c: "set (bmKeyOrder m) = fst ` set kvs"
        "\<forall>k s. fmlookup (bmData m) k = Some s \<longrightarrow> bsItems s = lastn p (values_of k kvs)"
      using inv(8) by blast+
    show "set (bmKeyOrder m') = fst ` set kvs" by (simp add: m'_def c(1))
    fix j t assume "fmlookup (bmData m') j = Some t"
    then show "bsItems t = lastn p (values_of j (kvs @ [(k, v)]))"
      using c(2) assms(3) whole by (auto simp: m'_def split: if_splits)
  qed (use inv(1-4,6) in \<open>simp_all add: m'_def\<close>)
  with app show ?thesis by blast
qed

lemma bm_add_key:
  assumes "0 < n" "bm_inv p n kvs m" "fmlookup (bmData m) k = None"
  shows "\<exists>m' old. Map_addKey m k = Some (m', \<lparr>bsItems = [], bsMaxSize = int p\<rparr>)
    \<and> bmPerKeyMax m' = int p \<and> bmMaxKeys m' = int n
    \<and> bmKeyOrder m' = drop old (bmKeyOrder m) @ [k]
    \<and> bmData m' = fmupd k \<lparr>bsItems = [], bsMaxSize = int p\<rparr>
        (fmfilter (\<lambda>j. j \<in> set (drop old (bmKeyOrder m))) (bmData m))
    \<and> old = (if length (bmKeyOrder m) < n then 0 else 1) \<and> length (bmKeyOrder m') \<le> n"
proof -
  note inv = assms(2) [unfolded bm_inv_def]
  have dom: "set (bmKeyOrder m) = fset (fmdom (bmData m))" using inv by blast
  show ?thesis
  proof (cases "length (bmKeyOrder m) < n")
    case True
    have "fmfilter (\<lambda>j. j \<in> set (bmKeyOrder m)) (bmData m) = bmData m"
      by (rule fmfilter_true) (auto simp: dom intro: fmdomI)
    then show ?thesis using True inv by (simp add: Map_addKey_def NewBoundedSlice_def)
  next
    case False
    then have l: "length (bmKeyOrder m) = n" using inv by linarith
    then obtain o1 rest where o: "bmKeyOrder m = o1 # rest" using assms(1) by (cases "bmKeyOrder m") auto
    have "fmfilter (\<lambda>j. j \<in> set rest) (bmData m) = fmdrop o1 (bmData m)"
    proof -
      have "distinct (o1 # rest)" using inv o by metis
      then have r: "set rest = fset (fmdom (bmData m)) - {o1}" using dom o by auto
      show ?thesis unfolding fmfilter_alt_defs by (rule fmfilter_cong) (auto simp: r fmlookup_dom_iff)
    qed
    then show ?thesis using l o inv by (simp add: Map_addKey_def NewBoundedSlice_def)
  qed
qed

lemma bm_append_new:
  assumes "0 < p" "0 < n" "bm_inv p n kvs m" "fmlookup (bmData m) k = None"
  shows "\<exists>m'. Map_Append m k v = Some m' \<and> bm_inv p n (kvs @ [(k, v)]) m'"
proof -
  obtain m1 old where m1: "Map_addKey m k = Some (m1, \<lparr>bsItems = [], bsMaxSize = int p\<rparr>)"
    "bmPerKeyMax m1 = int p" "bmMaxKeys m1 = int n" "bmKeyOrder m1 = drop old (bmKeyOrder m) @ [k]"
    "bmData m1 = fmupd k \<lparr>bsItems = [], bsMaxSize = int p\<rparr>
        (fmfilter (\<lambda>j. j \<in> set (drop old (bmKeyOrder m))) (bmData m))"
    "old = (if length (bmKeyOrder m) < n then 0 else 1)" "length (bmKeyOrder m1) \<le> n"
    using bm_add_key [OF assms(2-4)] by metis
  define m' where "m' = m1\<lparr>bmData := fmupd k \<lparr>bsItems = [v], bsMaxSize = int p\<rparr> (bmData m1)\<rparr>"
  have app: "Map_Append m k v = Some m'"
    using assms(1) by (simp add: Map_Append_def assms(4) m1(1) m'_def Slice_Append_def)
  note inv = bm_invD [OF assms(3)]
  let ?keep = "set (drop old (bmKeyOrder m))"
  have keep: "?keep \<subseteq> set (bmKeyOrder m)" by (rule set_drop_subset)
  have k: "k \<notin> set (bmKeyOrder m)" using assms(4) inv(5) by (simp add: fmlookup_dom_iff)
  have look: "fmlookup (bmData m') j = Some s \<longleftrightarrow>
      (if j = k then s = \<lparr>bsItems = [v], bsMaxSize = int p\<rparr> else j \<in> ?keep \<and> fmlookup (bmData m) j = Some s)" for j s
    using k keep by (auto simp: m'_def m1(5))
  have full: "k \<notin> fst ` set kvs \<and> old = 0 \<and> card (fst ` set kvs) \<le> n"
    if "card (fst ` set (kvs @ [(k, v)])) \<le> n"
  proof -
    have le: "card (fst ` set kvs) \<le> n"
      using that by (rule order_trans [rotated]) (auto intro: card_mono)
    then have "k \<notin> fst ` set kvs" using inv(8) k by auto
    then show ?thesis using that le inv(3) inv(8) m1(6) distinct_card [OF inv(3)] by auto
  qed
  have "bm_inv p n (kvs @ [(k, v)]) m'"
    unfolding bm_inv_def
  proof (intro conjI allI impI)
    show "set (bmKeyOrder m') = fset (fmdom (bmData m'))"
      using keep inv(5) by (auto simp: m'_def m1(4,5))
    show "set (bmKeyOrder m') \<subseteq> fst ` set (kvs @ [(k, v)])"
      using keep inv(6) by (auto simp: m'_def m1(4))
  next
    fix j s assume "fmlookup (bmData m') j = Some s"
    then show "bsMaxSize s = int p" "\<exists>d. bsItems s = lastn p (drop d (values_of j (kvs @ [(k, v)])))"
      using inv(7) assms(1) by (auto simp: look split: if_splits intro!: exI [of _ "length (values_of k kvs)"])
  next
    assume c: "card (fst ` set (kvs @ [(k, v)])) \<le> n"
    show "set (bmKeyOrder m') = fst ` set (kvs @ [(k, v)])"
      using full [OF c] inv(8) by (simp add: m'_def m1(4))
    fix j s assume "fmlookup (bmData m') j = Some s"
    moreover have "values_of k kvs = []" using full [OF c] by (auto simp: values_of_def filter_empty_conv)
    ultimately show "bsItems s = lastn p (values_of j (kvs @ [(k, v)]))"
      using inv(8) full [OF c] assms(1) by (auto simp: look split: if_splits)
  qed (use inv(3) k keep m1 in \<open>auto simp: m'_def distinct_drop\<close>)
  with app show ?thesis by blast
qed

lemma bm_run:
  assumes "0 < p" "0 < n" "bm_inv p n pre m"
  shows "\<exists>m'. orun map_step m kvs = Some m' \<and> bm_inv p n (pre @ kvs) m'"
  using assms(3)
proof (induction kvs arbitrary: pre m)
  case (Cons kv kvs)
  obtain k v where kv: "kv = (k, v)" by (cases kv)
  obtain m1 where m1: "Map_Append m k v = Some m1" "bm_inv p n (pre @ [(k, v)]) m1"
    using bm_append_new [OF assms(1,2) Cons.prems] bm_append_known [OF assms(1) Cons.prems]
    by (cases "fmlookup (bmData m) k") blast+
  from Cons.IH [OF m1(2)] m1(1) show ?case by (simp add: kv map_step_def)
qed simp

section \<open>Properties\<close>

text \<open>C30: the LRU cache with its linked list and index behaves as a recency list. For every
  capacity \<open>n\<close>, after any sequence of \<open>Get\<close>, \<open>Set\<close> and \<open>Delete\<close> on a new cache every call has returned
  (the eviction loop terminates), the entries are those of the abstract list (a hit or a \<open>Set\<close>
  moves the key to the front, the list is cut to its \<open>n\<close> first entries), \<open>Get\<close> returns the entry of
  its key, \<open>Keys\<close> lists the keys most recent first without repetition and \<open>Len\<close> is at most \<open>n\<close>.\<close>

theorem lru_refinement:
  "\<exists>c. orun lru_step (NewLRU (int n)) ops = Some c
     \<and> entries c = foldl (recency_step n) [] ops
     \<and> fst (LRU_Get c k) = map_of (foldl (recency_step n) [] ops) k
     \<and> LRU_Keys c = map fst (foldl (recency_step n) [] ops) \<and> distinct (LRU_Keys c)
     \<and> LRU_Len c \<le> n"
proof -
  obtain c where c: "orun lru_step (NewLRU (int n)) ops = Some c" "lru_ok n c"
    "entries c = foldl (recency_step n) [] ops"
    using lru.run_refines [OF lru_ok_new(1), of n ops] by auto
  then have i: "lru_inv c" "length (entries c) \<le> n" by (auto simp: lru_ok_def)
  have "LRU_Len c \<le> n" using i(2) by (simp add: LRU_Len_def entries_def)
  with c i Get_refines(1) [OF i(1)] Keys_entries [OF i(1)] inv_keys_distinct [OF i(1)]
  show ?thesis by auto
qed

text \<open>An entry survives fewer than \<open>n\<close> other keys. After \<open>Set k v\<close> on a cache of capacity \<open>n\<close>
  that has seen any operations, and further operations on at most \<open>n - 1\<close> different other keys and
  lookups of \<open>k\<close> itself, \<open>Get k\<close> still returns \<open>v\<close>.\<close>

theorem lru_retention:
  assumes "finite T" and "card T < n" and "k \<notin> T" and "\<forall>e\<in>set es. op_key e \<in> T \<or> e = CGet k"
  shows "\<exists>c. orun lru_step (NewLRU (int n)) (ops @ CSet k v # es) = Some c \<and> fst (LRU_Get c k) = Some v"
proof -
  obtain c0 where c0: "orun lru_step (NewLRU (int n)) ops = Some c0" "lru_ok n c0"
    using lru.run_refines [OF lru_ok_new(1), of n ops] by auto
  obtain c1 where c1: "lru_step c0 (CSet k v) = Some c1" "lru_ok n c1"
    "entries c1 = recency_step n (entries c0) (CSet k v)"
    using lru.step_refines [OF c0(2), of "CSet k v"] by auto
  have "recent_in T k v (entries c1)"
    unfolding recent_in_def c1(3) using assms(2)
    by (intro exI [of _ "[]"] exI [of _ "take (n - 1) (without k (entries c0))"]) (cases n, auto)
  from lru.retention [OF c1(2) this assms(1-4)] obtain c2 where
    c2: "orun lru_step c1 es = Some c2" "lru_ok n c2" "recent_in T k v (entries c2)" by auto
  have "map_of (entries c2) k = Some v"
    using c2(3) assms(3)
    by (fastforce simp: recent_in_def map_add_def split: option.splits dest: map_of_SomeD)
  then have "fst (LRU_Get c2 k) = Some v" using c2(2) Get_refines(1) [of c2 k] by (simp add: lru_ok_def)
  then show ?thesis using c0 c1 c2 by (simp add: orun_append)
qed

theorem lru_retention_witness:
  "\<exists>c. orun lru_step (NewLRU (int 2)) ([CSet 1 ''x''] @ CSet 2 ''a'' # [CSet 3 ''b'', CGet 3, CGet (2 :: nat)]) = Some c
     \<and> fst (LRU_Get c 2) = Some ''a''"
  by (rule lru_retention [where T = "{3}"]) auto

text \<open>C31: \<open>Set\<close> on a new cache returns if and only if its capacity is not negative: with a negative
  capacity the eviction loop empties the list and then runs for ever.\<close>

theorem lru_set_returns: "LRU_Set (NewLRU m) k v \<noteq> None \<longleftrightarrow> 0 \<le> m"
proof
  assume "LRU_Set (NewLRU m) k v \<noteq> None"
  then show "0 \<le> m" by (auto simp: LRU_Set_def NewLRU_def Let_def dest: evictLoop_nonneg)
next
  assume "0 \<le> m"
  then show "LRU_Set (NewLRU m) k v \<noteq> None"
    using lru.step_refines [OF lru_ok_new(1), of "nat m" "CSet k v"] by auto
qed

text \<open>A bounded slice of size \<open>n > 0\<close> holds exactly the last \<open>n\<close> appended items in order,
  and \<open>GetLast m\<close> is their last \<open>m\<close>; with size 0 the first \<open>Append\<close> panics.\<close>

theorem bounded_slice_window:
  "\<exists>s0. NewBoundedSlice (int n) = Some s0
     \<and> (case orun Slice_Append s0 xs of
          Some s \<Rightarrow> (0 < n \<or> xs = []) \<and> Slice_GetAll s = lastn n xs \<and> Slice_Len s = min n (length xs)
            \<and> Slice_GetLast s (int m) = Some (lastn m (lastn n xs))
        | None \<Rightarrow> n = 0 \<and> xs \<noteq> [])"
proof -
  define s0 :: "'a BoundedSlice" where "s0 = \<lparr>bsItems = [], bsMaxSize = int n\<rparr>"
  have new: "NewBoundedSlice (int n) = Some s0" by (simp add: NewBoundedSlice_def s0_def)
  have run: "orun Slice_Append \<lparr>bsItems = lastn n pre, bsMaxSize = int n\<rparr> xs
      = Some \<lparr>bsItems = lastn n (pre @ xs), bsMaxSize = int n\<rparr>" if "0 < n" for pre xs
    using that by (induction xs arbitrary: pre) (simp_all add: Slice_Append_eq)
  have last: "Slice_GetLast \<lparr>bsItems = ys, bsMaxSize = k\<rparr> (int m) = Some (lastn m ys)" for ys :: "'a list" and k
    by (auto simp: Slice_GetLast_def lastn_def Let_def nat_diff_distrib)
  show ?thesis
  proof (cases "n = 0")
    case True
    then show ?thesis using new last [of "[]"]
      by (cases xs) (auto simp: s0_def Slice_Append_def Slice_GetAll_def Slice_Len_def lastn_def)
  next
    case False
    then show ?thesis using new run [of "[]" xs] last
      by (simp add: s0_def Slice_GetAll_def Slice_Len_def)
  qed
qed

text \<open>The per-address history. For positive limits no sequence of appends panics, there are
  never more than \<open>maxKeys\<close> keys nor more than \<open>perKeyMax\<close> values for a key, the values of a key are
  always a contiguous run of the values appended for it that ends at the latest one, or none; and as
  long as at most \<open>maxKeys\<close> different keys were used, they are exactly the last \<open>perKeyMax\<close> of them.\<close>

theorem bounded_map_history:
  assumes "0 < p" and "0 < n"
  shows "\<exists>m0 m. NewBoundedMap (int p) (int n) = Some m0 \<and> orun map_step m0 kvs = Some m
    \<and> Map_Len m \<le> n \<and> length (Map_Get m k) \<le> p
    \<and> (\<exists>d. Map_Get m k = lastn p (drop d (values_of k kvs)))
    \<and> (card (fst ` set kvs) \<le> n \<longrightarrow> Map_Get m k = lastn p (values_of k kvs))"
proof -
  define m0 :: "('a, 'b) BoundedMap" where
    "m0 = \<lparr>bmData = fmempty, bmPerKeyMax = int p, bmMaxKeys = int n, bmKeyOrder = []\<rparr>"
  have "bm_inv p n [] m0" by (simp add: bm_inv_def m0_def)
  from bm_run [OF assms this, of kvs] obtain m where
    m: "orun map_step m0 kvs = Some m" "bm_inv p n kvs m" by auto
  note inv = bm_invD [OF m(2)]
  have "Map_Len m = length (bmKeyOrder m)"
    unfolding Map_Len_def by (rule map_order_length [symmetric]) (simp add: map_order_def inv(3,5))
  then have len: "Map_Len m \<le> n" using inv(4) by simp
  have get: "\<exists>d. Map_Get m k = lastn p (drop d (values_of k kvs))"
  proof (cases "fmlookup (bmData m) k")
    case None
    then show ?thesis
      by (auto simp: Map_Get_def lastn_def intro!: exI [of _ "length (values_of k kvs)"])
  next
    case (Some s)
    then show ?thesis using inv(7) by (auto simp: Map_Get_def Slice_GetAll_def)
  qed
  have exact: "Map_Get m k = lastn p (values_of k kvs)" if "card (fst ` set kvs) \<le> n"
  proof (cases "fmlookup (bmData m) k")
    case None
    then have "k \<notin> fst ` set kvs" using inv(5,8) that by (auto simp: fmlookup_dom_iff)
    then have "values_of k kvs = []" by (auto simp: values_of_def filter_empty_conv)
    then show ?thesis using None by (simp add: Map_Get_def lastn_def)
  next
    case (Some s)
    then show ?thesis using inv(8) that by (auto simp: Map_Get_def Slice_GetAll_def)
  qed
  from get have "length (Map_Get m k) \<le> p" by auto
  with len get exact m(1) show ?thesis by (auto simp: NewBoundedMap_def m0_def)
qed

theorem bounded_map_history_witness:
  "\<exists>m0 m. NewBoundedMap (int 2) (int 2) = Some m0
     \<and> orun map_step m0 [(CHR ''a'', 1), (CHR ''b'', 5), (CHR ''a'', 2), (CHR ''a'', 3)] = Some m
     \<and> Map_Get m (CHR ''a'') = [2, 3 :: nat]"
  using bounded_map_history [of 2 2 "[(CHR ''a'', 1), (CHR ''b'', 5), (CHR ''a'', 2), (CHR ''a'', 3)]" "CHR ''a''"]
  by (auto simp: values_of_def lastn_def card_insert_if)

end
