(* ===== verification/Finality.thy ===== *)
theory Finality
  imports Pulse_Store
begin

text \<open>
  \<open>core/pulse/finality.go\<close>: confirmation counting and finality. The clock is an argument of each
  operation that reads it. Confirmation counts are natural numbers (a Go \<open>int\<close> that only ever
  grows by one from 0). The \<open>Progress\<close> field of \<open>FinalityStatus\<close> is a floating-point expression.
\<close>

record FinalityConfig =
  fcMinConfirmations :: int
  fcMinAge :: i64
  fcMinStakePercent :: int

definition DefaultFinalityConfig :: FinalityConfig where
  "DefaultFinalityConfig = \<lparr>fcMinConfirmations = 6, fcMinAge = 30, fcMinStakePercent = 66\<rparr>"

record FinalityTracker =
  ftConfig :: FinalityConfig
  ftConfirmations :: "(hash, nat) fmap"
  ftStakeWeight :: "(hash, addr fset) fmap"
  ftFinalized :: "hash fset"

definition NewFinalityTracker :: "FinalityConfig option \<Rightarrow> FinalityTracker" where
  "NewFinalityTracker config =
     \<lparr>ftConfig = (case config of None \<Rightarrow> DefaultFinalityConfig | Some c \<Rightarrow> c),
      ftConfirmations = fmempty, ftStakeWeight = fmempty, ftFinalized = {||}\<rparr>"

definition GetConfirmations :: "FinalityTracker \<Rightarrow> hash \<Rightarrow> nat" where
  "GetConfirmations ft h = (case fmlookup (ftConfirmations ft) h of Some n \<Rightarrow> n | None \<Rightarrow> 0)"

definition validatorsOf :: "FinalityTracker \<Rightarrow> hash \<Rightarrow> addr fset" where
  "validatorsOf ft h = (case fmlookup (ftStakeWeight ft) h of Some s \<Rightarrow> s | None \<Rightarrow> {||})"

text \<open>The body of the loop over \<open>v.Parents\<close>.\<close>

definition recordParent :: "addr \<Rightarrow> FinalityTracker \<Rightarrow> hash \<Rightarrow> FinalityTracker" where
  "recordParent author ft p =
     ft\<lparr>ftConfirmations := fmupd p (GetConfirmations ft p + 1) (ftConfirmations ft),
        ftStakeWeight := fmupd p (finsert author (validatorsOf ft p)) (ftStakeWeight ft)\<rparr>"

definition RecordVertex :: "FinalityTracker \<Rightarrow> Vertex \<Rightarrow> FinalityTracker" where
  "RecordVertex ft v =
     (let ft = foldl (recordParent (vAuthor v)) ft (vParents v);
          ft = (if GetConfirmations ft (vHash v) = 0
                then ft\<lparr>ftConfirmations := fmupd (vHash v) 0 (ftConfirmations ft)\<rparr> else ft)
      in if fmlookup (ftStakeWeight ft) (vHash v) = None
         then ft\<lparr>ftStakeWeight := fmupd (vHash v) {||} (ftStakeWeight ft)\<rparr> else ft)"

definition vertexAge :: "time \<Rightarrow> Vertex \<Rightarrow> i64" where
  "vertexAge now v = go_sdiv (UnixNano now - vTimestamp v) 1000000000"

definition checkFinality :: "FinalityTracker \<Rightarrow> VertexStore \<Rightarrow> time \<Rightarrow> hash \<Rightarrow> bool" where
  "checkFinality ft vs now h =
     (case GetVertex vs h of
        None \<Rightarrow> False
      | Some v \<Rightarrow>
          if int (GetConfirmations ft h) < fcMinConfirmations (ftConfig ft) then False
          else if vertexAge now v <s fcMinAge (ftConfig ft) then False
          else if int (fcard (validatorsOf ft h)) < fcMinStakePercent (ftConfig ft) sdiv 10 then False
          else True)"

definition IsFinalized ::
  "FinalityTracker \<Rightarrow> VertexStore \<Rightarrow> time \<Rightarrow> hash \<Rightarrow> bool \<times> FinalityTracker" where
  "IsFinalized ft vs now h =
     (if h |\<in>| ftFinalized ft then (True, ft)
      else if checkFinality ft vs now h
      then (True, ft\<lparr>ftFinalized := finsert h (ftFinalized ft)\<rparr>)
      else (False, ft))"

record FinalityStatus =
  fsHash :: hash
  fsConfirmations :: nat
  fsAge :: i64
  fsValidatorCount :: nat
  fsIsFinalized :: bool
  fsProgress :: f64

definition progressOf :: "int \<Rightarrow> int \<Rightarrow> f64" where
  "progressOf reached required = F_cap (F_mul (F_div (F_lit reached) (F_lit required)) (F_lit 100))"

definition finalityProgress :: "FinalityConfig \<Rightarrow> nat \<Rightarrow> i64 \<Rightarrow> nat \<Rightarrow> f64" where
  "finalityProgress c confirmCount age validatorCount =
     F_div (F_add (F_add (progressOf (int confirmCount) (fcMinConfirmations c)) (progressOf (sint age) (sint (fcMinAge c))))
                  (progressOf (int (validatorCount * 10)) (fcMinStakePercent c)))
           (F_lit 3)"

definition GetFinalityStatus :: "FinalityTracker \<Rightarrow> VertexStore \<Rightarrow> time \<Rightarrow> hash \<Rightarrow> FinalityStatus option" where
  "GetFinalityStatus ft vs now h =
     (case GetVertex vs h of
        None \<Rightarrow> None
      | Some v \<Rightarrow> Some \<lparr>fsHash = h, fsConfirmations = GetConfirmations ft h, fsAge = vertexAge now v,
          fsValidatorCount = fcard (validatorsOf ft h), fsIsFinalized = h |\<in>| ftFinalized ft,
          fsProgress = finalityProgress (ftConfig ft) (GetConfirmations ft h) (vertexAge now v) (fcard (validatorsOf ft h))\<rparr>)"

text \<open>\<open>all\<close> is the result of \<open>GetAllVertices\<close>, in the order Go ranges over its map.\<close>

definition Cleanup :: "FinalityTracker \<Rightarrow> Vertex list \<Rightarrow> int \<Rightarrow> FinalityTracker" where
  "Cleanup ft all keepRecent =
     (if int (length all) \<le> keepRecent then ft
      else let keepSet = vHash ` set (drop (nat (int (length all) - keepRecent)) all);
               keep = (\<lambda>h. h \<in> keepSet \<or> h |\<notin>| ftFinalized ft)
        in ft\<lparr>ftConfirmations := fmfilter keep (ftConfirmations ft),
              ftStakeWeight := fmfilter
                (\<lambda>h. h |\<notin>| fmdom (ftConfirmations ft) \<or> keep h) (ftStakeWeight ft)\<rparr>)"

section \<open>What the tracker counts\<close>

lemma recordParent_counts:
  "GetConfirmations (recordParent a ft p) h = GetConfirmations ft h + (if h = p then 1 else 0)"
  "validatorsOf (recordParent a ft p) h = (if h = p then finsert a (validatorsOf ft h) else validatorsOf ft h)"
  by (auto simp: recordParent_def GetConfirmations_def validatorsOf_def)

lemma recordParents_counts:
  "GetConfirmations (foldl (recordParent a) ft ps) h = GetConfirmations ft h + count_list ps h"
  "validatorsOf (foldl (recordParent a) ft ps) h =
     (if h \<in> set ps then finsert a (validatorsOf ft h) else validatorsOf ft h)"
  by (induction ps arbitrary: ft) (auto simp: recordParent_counts)

lemma RecordVertex_counts:
  "GetConfirmations (RecordVertex ft v) h = GetConfirmations ft h + count_list (vParents v) h"
  "validatorsOf (RecordVertex ft v) h =
     (if h \<in> set (vParents v) then finsert (vAuthor v) (validatorsOf ft h) else validatorsOf ft h)"
proof -
  let ?ft = "foldl (recordParent (vAuthor v)) ft (vParents v)"
  have "GetConfirmations (RecordVertex ft v) h = GetConfirmations ?ft h"
    by (auto simp: RecordVertex_def Let_def GetConfirmations_def)
  then show "GetConfirmations (RecordVertex ft v) h = GetConfirmations ft h + count_list (vParents v) h"
    by (simp add: recordParents_counts)
  have "validatorsOf (RecordVertex ft v) h = validatorsOf ?ft h"
    by (auto simp: RecordVertex_def Let_def validatorsOf_def)
  then show "validatorsOf (RecordVertex ft v) h =
     (if h \<in> set (vParents v) then finsert (vAuthor v) (validatorsOf ft h) else validatorsOf ft h)"
    by (simp add: recordParents_counts)
qed

lemma recordParents_frame:
  "ftConfig (foldl (recordParent a) ft ps) = ftConfig ft"
  "ftFinalized (foldl (recordParent a) ft ps) = ftFinalized ft"
  by (induction ps arbitrary: ft) (simp_all add: recordParent_def)

lemma RecordVertex_frame:
  "ftConfig (RecordVertex ft v) = ftConfig ft" "ftFinalized (RecordVertex ft v) = ftFinalized ft"
  by (simp_all add: RecordVertex_def Let_def recordParents_frame)

lemma run_counts:
  "GetConfirmations (foldl RecordVertex ft ws) h
     = GetConfirmations ft h + count_list (concat (map vParents ws)) h"
  "fset (validatorsOf (foldl RecordVertex ft ws) h)
     = fset (validatorsOf ft h) \<union> {vAuthor w |w. w \<in> set ws \<and> h \<in> set (vParents w)}"
  "ftConfig (foldl RecordVertex ft ws) = ftConfig ft"
  "ftFinalized (foldl RecordVertex ft ws) = ftFinalized ft"
  by (induction ws arbitrary: ft) (auto simp: RecordVertex_counts RecordVertex_frame)

lemma new_counts [simp]:
  "GetConfirmations (NewFinalityTracker c) h = 0" "validatorsOf (NewFinalityTracker c) h = {||}"
  "ftFinalized (NewFinalityTracker c) = {||}"
  by (simp_all add: NewFinalityTracker_def GetConfirmations_def validatorsOf_def)

section \<open>Operations of a tracker\<close>

datatype fin_op = FRecord Vertex | FQuery VertexStore time hash | FCleanup "Vertex list" int

fun fin_step :: "FinalityTracker \<Rightarrow> fin_op \<Rightarrow> FinalityTracker" where
  "fin_step ft (FRecord v) = RecordVertex ft v"
| "fin_step ft (FQuery vs now h) = snd (IsFinalized ft vs now h)"
| "fin_step ft (FCleanup all k) = Cleanup ft all k"

lemma finalized_grows: "ftFinalized ft |\<subseteq>| ftFinalized (fin_step ft e)"
  by (cases e) (auto simp: RecordVertex_frame IsFinalized_def Cleanup_def Let_def)

interpretation finality: monotone_system fin_step "\<lambda>_. True" "\<lambda>ft ft'. ftFinalized ft |\<subseteq>| ftFinalized ft'"
  by unfold_locales (auto simp: finalized_grows)

section \<open>Properties\<close>

text \<open>The tracker counts references. After recording the vertices \<open>ws\<close>, in any order, on a fresh
  tracker, the confirmations of a hash are the number of times it is listed as a parent (with
  repetitions inside one vertex counted), and its validators are the authors of the vertices that
  list it.\<close>

theorem finality_counts:
  "GetConfirmations (foldl RecordVertex (NewFinalityTracker c) ws) h
     = count_list (concat (map vParents ws)) h
   \<and> fset (validatorsOf (foldl RecordVertex (NewFinalityTracker c) ws) h)
     = {vAuthor w |w. w \<in> set ws \<and> h \<in> set (vParents w)}"
  by (simp add: run_counts)

text \<open>C19: when a vertex is final. With the default configuration, a tracker that has recorded \<open>ws\<close>
  and not yet finalised \<open>h\<close> reports it final at time \<open>now\<close> if and only if the store holds the vertex,
  it is listed at least 6 times as a parent, by at least 6 different authors, and it is at least 30
  seconds old. (The clock and the time stamp are assumed to be non-negative \<open>int64\<close> values.)\<close>

theorem finality_exact:
  assumes "0 \<le> now" "now < 2 ^ 63" and "\<And>v. GetVertex vs h = Some v \<Longrightarrow> 0 \<le> sint (vTimestamp v)"
  shows "fst (IsFinalized (foldl RecordVertex (NewFinalityTracker None) ws) vs now h) \<longleftrightarrow>
    GetVertex vs h \<noteq> None
    \<and> 6 \<le> count_list (concat (map vParents ws)) h
    \<and> 6 \<le> card {vAuthor w |w. w \<in> set ws \<and> h \<in> set (vParents w)}
    \<and> (\<forall>v. GetVertex vs h = Some v \<longrightarrow> 30 * 1000000000 \<le> now - sint (vTimestamp v))"
proof -
  let ?ft = "foldl RecordVertex (NewFinalityTracker None) ws"
  have age: "vertexAge now v <s 30 \<longleftrightarrow> now - sint (vTimestamp v) < 30 * 1000000000"
    if "0 \<le> sint (vTimestamp v)" for v
  proof -
    have "sint (UnixNano now) = now" using assms(1,2) by (simp add: UnixNano_def sint_word_of_int_i64)
    then have "sint (UnixNano now - vTimestamp v) = now - sint (vTimestamp v)"
      using assms(1,2) that sint_i64_bounds [of "vTimestamp v"] by (subst sint_sub_i64) auto
    then have "sint (vertexAge now v) = (now - sint (vTimestamp v)) sdiv 1000000000"
      by (simp add: vertexAge_def sint_go_sdiv)
    moreover have "d sdiv 1000000000 < 30 \<longleftrightarrow> d < 30 * 1000000000" for d :: int
      by (cases "0 \<le> d") (auto simp: sdiv_nonneg sdiv_nonpos div_less_iff_less_mult
          intro: le_less_trans [of _ 0] pos_imp_zdiv_nonneg_iff [THEN iffD2])
    ultimately show ?thesis by (simp add: word_sless_alt)
  qed
  have "fcard (validatorsOf ?ft h) = card {vAuthor w |w. w \<in> set ws \<and> h \<in> set (vParents w)}"
    by (simp add: fcard.rep_eq run_counts)
  moreover have "ftConfig ?ft = DefaultFinalityConfig"
    by (simp add: run_counts NewFinalityTracker_def)
  ultimately show ?thesis
    using age assms(3)
    by (auto simp: IsFinalized_def checkFinality_def run_counts DefaultFinalityConfig_def not_less
        split: option.splits)
qed

text \<open>C20: finality is permanent. Once \<open>IsFinalized\<close> has returned true for a vertex it returns true for
  it forever: after any sequence of recorded vertices, queries and cleanups, whatever the clock and
  the vertex store then say.\<close>

theorem finality_permanent:
  assumes "IsFinalized ft vs now h = (True, ft')"
  shows "fst (IsFinalized (foldl fin_step ft' ops) vs' now' h)"
proof -
  have "h |\<in>| ftFinalized ft'" using assms by (auto simp: IsFinalized_def split: if_splits)
  moreover have "ftFinalized ft' |\<subseteq>| ftFinalized (foldl fin_step ft' ops)"
    by (rule finality.below_run) simp
  ultimately show ?thesis by (auto simp: IsFinalized_def)
qed

definition six_children :: "Vertex list" where
  "six_children = map (\<lambda>i. demo_vertex\<lparr>vAuthor := of_nat i, vParents := [77], vHash := of_nat (100 + i)\<rparr>)
     [1, 2, 3, 4, 5, 6]"

abbreviation demo_tracker :: FinalityTracker where
  "demo_tracker \<equiv> foldl RecordVertex (NewFinalityTracker None) six_children"

abbreviation demo_store :: VertexStore where
  "demo_store \<equiv> insertVertex empty_store demo_vertex"

lemma six_authors: "{vAuthor w |w. w \<in> set six_children \<and> 77 \<in> set (vParents w)} = {1, 2, 3, 4, 5, 6}"
proof -
  have "{vAuthor w |w. w \<in> set six_children \<and> 77 \<in> set (vParents w)}
    = vAuthor ` set (filter (\<lambda>w. 77 \<in> set (vParents w)) six_children)" by auto
  then show ?thesis by (simp add: six_children_def)
qed

lemma demo_final_iff: "GetVertex demo_store 77 = Some demo_vertex"
  by (simp add: GetVertex_def insertVertex_def demo_vertex_def)

theorem finality_exact_witness:
  "fst (IsFinalized demo_tracker demo_store 30000000005 77)
   \<and> \<not> fst (IsFinalized demo_tracker demo_store 30000000004 77)"
  using finality_exact [of 30000000005 demo_store 77 six_children]
    finality_exact [of 30000000004 demo_store 77 six_children]
  unfolding six_authors demo_final_iff by (simp add: six_children_def demo_vertex_def)

theorem finality_permanent_witness:
  "fst (IsFinalized (foldl fin_step (snd (IsFinalized (demo_tracker\<lparr>ftFinalized := {|77|}\<rparr>) demo_store 0 77))
     [FCleanup [demo_vertex] 0, FRecord demo_vertex]) empty_store 0 77)"
  using finality_permanent [of "demo_tracker\<lparr>ftFinalized := {|77|}\<rparr>" demo_store 0 77
      "demo_tracker\<lparr>ftFinalized := {|77|}\<rparr>" "[FCleanup [demo_vertex] 0, FRecord demo_vertex]" empty_store 0]
  by (simp add: IsFinalized_def)

end
