(* ===== verification/Node_Genesis.thy ===== *)
theory Node_Genesis
  imports P2P_Server
begin

text \<open>
  \<open>main.go\<close>, part 1: configuration, genesis allocation, node identity and the automatic grant to new
  peers.

  The environment is a function from names to values (the empty string when unset); \<open>file\<close> is the
  effect of \<open>json.Unmarshal\<close> of \<open>config.json\<close> on the default configuration, \<open>None\<close> when the file cannot
  be read. What \<open>rand.Read\<close> puts into the 32-byte buffer of a seed is an argument.
\<close>

section \<open>Configuration\<close>

record Config =
  cfgP2PPort :: string
  cfgUDPPort :: i64
  cfgMaxPeers :: i64
  cfgMaxPerIP :: i64
  cfgGenesisSeed1 :: string
  cfgGenesisSeed2 :: string
  cfgGenesisSeed3 :: string
  cfgDataDir :: string
  cfgEnableTLS :: bool
  cfgTLSCertFile :: string
  cfgTLSKeyFile :: string
  cfgAPIPort :: string
  cfgCommunityValidators :: "string list"

definition getEnvOrDefault :: "(string \<Rightarrow> string) \<Rightarrow> string \<Rightarrow> string \<Rightarrow> string" where
  "getEnvOrDefault getenv key defaultVal = (if getenv key \<noteq> [] then getenv key else defaultVal)"

text \<open>\<open>fmt.Sscanf(s, "%d", &x)\<close> for an \<open>int\<close>: leading blanks, an optional sign, decimal digits; anything may
  follow. A number outside 64 bits is an error, and \<open>x\<close> is not written.\<close>

definition isDigit :: "char \<Rightarrow> bool" where
  "isDigit c \<longleftrightarrow> 48 \<le> (of_char c :: nat) \<and> (of_char c :: nat) \<le> 57"

definition decimal :: "string \<Rightarrow> nat" where
  "decimal ds = foldl (\<lambda>n c. 10 * n + (of_char c - 48)) 0 ds"

definition Sscanf_d :: "string \<Rightarrow> i64 option" where
  "Sscanf_d str =
     (let s = dropWhile (\<lambda>c. c = CHR '' '' \<or> c = CHR 0x09) str;
          neg = (s \<noteq> [] \<and> hd s = CHR ''-'');
          s = (if s \<noteq> [] \<and> (hd s = CHR ''-'' \<or> hd s = CHR ''+'') then tl s else s);
          ds = takeWhile isDigit s;
          n = (if neg then - int (decimal ds) else int (decimal ds))
      in if ds = [] then None
         else if n < - (2 ^ 63) \<or> 2 ^ 63 \<le> n then None
         else Some (word_of_int n))"

definition defaultConfig :: Config where
  "defaultConfig = \<lparr>cfgP2PPort = '':9000'', cfgUDPPort = 8080, cfgMaxPeers = 100, cfgMaxPerIP = 5,
     cfgGenesisSeed1 = [], cfgGenesisSeed2 = [], cfgGenesisSeed3 = [], cfgDataDir = ''./data'',
     cfgEnableTLS = False, cfgTLSCertFile = [], cfgTLSKeyFile = [], cfgAPIPort = '':8000'',
     cfgCommunityValidators = []\<rparr>"

definition override :: "(string \<Rightarrow> string) \<Rightarrow> string \<Rightarrow> (string \<Rightarrow> Config \<Rightarrow> Config) \<Rightarrow> Config \<Rightarrow> Config" where
  "override getenv key upd cfg = (if getenv key \<noteq> [] then upd (getenv key) cfg else cfg)"

definition readUDPPort :: "(string \<Rightarrow> string) \<Rightarrow> Config \<Rightarrow> Config" where
  "readUDPPort getenv = override getenv ''SUPERNOVA_UDP_PORT''
     (\<lambda>v c. case Sscanf_d v of Some n \<Rightarrow> c\<lparr>cfgUDPPort := n\<rparr> | None \<Rightarrow> c)"

definition loadConfig :: "(Config \<Rightarrow> Config) option \<Rightarrow> (string \<Rightarrow> string) \<Rightarrow> Config" where
  "loadConfig file getenv =
     (let cfg = (case file of Some unmarshal \<Rightarrow> unmarshal defaultConfig | None \<Rightarrow> defaultConfig);
          cfg = override getenv ''SUPERNOVA_P2P_PORT'' (\<lambda>v c. c\<lparr>cfgP2PPort := v\<rparr>) cfg;
          cfg = readUDPPort getenv cfg;
          cfg = override getenv ''SUPERNOVA_GENESIS_SEED_1'' (\<lambda>v c. c\<lparr>cfgGenesisSeed1 := v\<rparr>) cfg;
          cfg = override getenv ''SUPERNOVA_GENESIS_SEED_2'' (\<lambda>v c. c\<lparr>cfgGenesisSeed2 := v\<rparr>) cfg;
          cfg = override getenv ''SUPERNOVA_GENESIS_SEED_3'' (\<lambda>v c. c\<lparr>cfgGenesisSeed3 := v\<rparr>) cfg;
          cfg = override getenv ''SUPERNOVA_DATA_DIR'' (\<lambda>v c. c\<lparr>cfgDataDir := v\<rparr>) cfg;
          cfg = override getenv ''SUPERNOVA_API_PORT'' (\<lambda>v c. c\<lparr>cfgAPIPort := v\<rparr>) cfg;
          cfg = (if getenv ''SUPERNOVA_ENABLE_TLS'' = ''true'' then cfg\<lparr>cfgEnableTLS := True\<rparr> else cfg);
          cfg = override getenv ''SUPERNOVA_TLS_CERT'' (\<lambda>v c. c\<lparr>cfgTLSCertFile := v\<rparr>) cfg;
          cfg = override getenv ''SUPERNOVA_TLS_KEY'' (\<lambda>v c. c\<lparr>cfgTLSKeyFile := v\<rparr>) cfg
      in if cfgGenesisSeed1 cfg = []
         then cfg\<lparr>cfgGenesisSeed1 := ''dev-only-insecure-seed-do-not-use-in-production''\<rparr>
         else cfg)"

section \<open>Genesis\<close>

definition deriveGenesisSeed :: "256 word \<Rightarrow> string \<Rightarrow> bytes" where
  "deriveGenesisSeed rnd seedStr =
     (if seedStr = [] then be_bytes 32 rnd
      else let (decoded, ok) = DecodeString seedStr in
        if ok \<and> length decoded = 32 then decoded
        else take 32 (string_bytes seedStr @ replicate 32 0))"

definition genesisID :: "crypto \<Rightarrow> bytes \<Rightarrow> addr" where
  "genesisID C seed = ed_public C (ed_key_from_seed C seed)"

definition defaultCommunity :: "string list" where
  "defaultCommunity =
     [''809677ea09986593d3dedbeb3b6f5d1fe66855ef4a3ea28a9ba64c05cdad7076'',
      ''0810a0748d15669e791a23828b013e775223ab124672fb39a6d07be5a66e258b'']"

text \<open>The identity of community validator \<open>i\<close>: the zero address when it is missing or malformed.\<close>

definition communityID :: "Config \<Rightarrow> nat \<Rightarrow> addr" where
  "communityID cfg i =
     (let communityValidators =
            (if cfgCommunityValidators cfg = [] then defaultCommunity else cfgCommunityValidators cfg) in
      if i < length communityValidators
      then let (pubBytes, ok) = DecodeString (communityValidators ! i) in
        if ok \<and> length pubBytes = 32 then array32 pubBytes else 0
      else 0)"

definition genBalance :: u64 where "genBalance = 3333333333 * 1000000"
definition genStake :: u64 where "genStake = 1666666666 * 1000000"
definition userBalance :: u64 where "userBalance = 10000000 * 1000000"
definition userStake :: u64 where "userStake = 5000000 * 1000000"

definition allocate :: "('d, 'b) badger \<Rightarrow> u64 \<Rightarrow> u64 \<Rightarrow> 'd StateManager \<Rightarrow> addr \<Rightarrow> 'd StateManager" where
  "allocate K bal stk sm a = SetStake K (SetBalance K sm a bal) a stk"

record entropy =
  rnd1 :: "256 word"
  rnd2 :: "256 word"
  rnd3 :: "256 word"

definition genesisIDs :: "crypto \<Rightarrow> entropy \<Rightarrow> Config \<Rightarrow> addr list \<times> addr list" where
  "genesisIDs C rnd cfg =
     ([genesisID C (deriveGenesisSeed (rnd1 rnd) (cfgGenesisSeed1 cfg)),
       genesisID C (deriveGenesisSeed (rnd2 rnd) (cfgGenesisSeed2 cfg)),
       genesisID C (deriveGenesisSeed (rnd3 rnd) (cfgGenesisSeed3 cfg))],
      [communityID cfg 0, communityID cfg 1])"

text \<open>The ``Big Bang'' of \<open>main\<close>; it runs at every start of the node.\<close>

definition bigBang :: "crypto \<Rightarrow> ('d, 'b) badger \<Rightarrow> entropy \<Rightarrow> Config \<Rightarrow> 'd StateManager \<Rightarrow> 'd StateManager" where
  "bigBang C K rnd cfg sm =
     (let (gens, users) = genesisIDs C rnd cfg
      in foldl (allocate K userBalance userStake) (foldl (allocate K genBalance genStake) sm gens) users)"

section \<open>Identity and automatic grants\<close>

definition identitySeed :: "string \<Rightarrow> bytes \<Rightarrow> bytes" where
  "identitySeed minerKey genSeed1 =
     (let (decoded, ok) = DecodeString minerKey in
      if minerKey \<noteq> [] \<and> ok \<and> length decoded = 32 then decoded else genSeed1)"

definition nodeIDOf :: "crypto \<Rightarrow> bytes \<Rightarrow> string" where
  "nodeIDOf C seed = EncodeToString (be_bytes 32 (genesisID C seed))"

record 'd grants =
  grState :: "'d StateManager"
  grGranted :: "string fset"

text \<open>The callback \<open>OnPeerConnected\<close> up to its decision (\<open>Some a\<close>: a grant to \<open>a\<close> is due), and its effect.
  Only the accesses to \<open>grantedPeers\<close> hold the mutex: two callbacks may interleave between the two.\<close>

definition grantCheck :: "('d, 'b) badger \<Rightarrow> bool \<Rightarrow> 'd grants \<Rightarrow> string \<Rightarrow> addr option \<times> 'd grants" where
  "grantCheck K isGenesis1 g peer =
     (if \<not> isGenesis1 then (None, g)
      else if peer |\<in>| grGranted g then (None, g)
      else let (pubBytes, ok) = DecodeString peer in
        if \<not> ok \<or> length pubBytes \<noteq> 32 then (None, g)
        else
          let a = array32 pubBytes;
              (stk, sm) = GetStake K (grState g) a;
              (grant, sm) = GetGrantStake K sm a;
              currentStake = stk + grant
          in (if currentStake < 1000 * 1000000 then Some a else None, g\<lparr>grState := sm\<rparr>))"

definition grantApply :: "('d, 'b) badger \<Rightarrow> 'd grants \<Rightarrow> string \<Rightarrow> addr \<Rightarrow> 'd grants" where
  "grantApply K g peer a =
     g\<lparr>grState := AddGrantStake K (grState g) a (1500 * 1000000), grGranted := finsert peer (grGranted g)\<rparr>"

definition OnPeerConnected :: "('d, 'b) badger \<Rightarrow> bool \<Rightarrow> 'd grants \<Rightarrow> string \<Rightarrow> 'd grants" where
  "OnPeerConnected K isGenesis1 g peer =
     (case grantCheck K isGenesis1 g peer of (None, g) \<Rightarrow> g | (Some a, g) \<Rightarrow> grantApply K g peer a)"

section \<open>Lemmas\<close>

lemma view_allocate:
  "sm_wf K sm \<Longrightarrow> view K (allocate K b s sm a) = (view K sm)(a := (view K sm a)\<lparr>accBalance := b, accStake := s\<rparr>)"
  "sm_wf K sm \<Longrightarrow> sm_wf K (allocate K b s sm a)"
  by (simp_all add: allocate_def)

lemma view_allocates:
  "sm_wf K sm \<Longrightarrow> sm_wf K (foldl (allocate K b s) sm as) \<and>
     view K (foldl (allocate K b s) sm as) =
       (\<lambda>a. if a \<in> set as then (view K sm a)\<lparr>accBalance := b, accStake := s\<rparr> else view K sm a)"
  by (induction as arbitrary: sm) (auto simp: view_allocate fun_eq_iff)

lemma view_bigBang:
  assumes "sm_wf K sm" "genesisIDs C rnd cfg = (gens, users)"
  shows "sm_wf K (bigBang C K rnd cfg sm)"
    "view K (bigBang C K rnd cfg sm) = (\<lambda>a.
       if a \<in> set users then (view K sm a)\<lparr>accBalance := userBalance, accStake := userStake\<rparr>
       else if a \<in> set gens then (view K sm a)\<lparr>accBalance := genBalance, accStake := genStake\<rparr>
       else view K sm a)"
  using view_allocates [OF assms(1), of genBalance genStake gens]
    view_allocates [of K "foldl (allocate K genBalance genStake) sm gens" userBalance userStake users]
  by (auto simp: bigBang_def assms(2) fun_eq_iff)

lemma tot_overwrite:
  assumes "finite S"
  shows "tot (\<lambda>a. if a \<in> S then b else f a) + (\<Sum>a\<in>S. f a) = tot f + card S * b"
  using assms
proof induction
  case (insert x S)
  let ?g = "\<lambda>a. if a \<in> S then b else f a"
  have "(\<lambda>a. if a \<in> insert x S then b else f a) = ?g(x := b)" by (simp add: fun_eq_iff)
  moreover have "?g x = f x" using insert.hyps by simp
  ultimately show ?case using insert tot_upd [of ?g x b] by simp
qed simp

text \<open>\<open>config_of file\<close>: the configuration before the environment is read.\<close>

definition config_of :: "(Config \<Rightarrow> Config) option \<Rightarrow> Config" where
  "config_of file = (case file of Some unmarshal \<Rightarrow> unmarshal defaultConfig | None \<Rightarrow> defaultConfig)"

lemma override_keep: "(\<And>v c. f (upd v c) = f c) \<Longrightarrow> f (override env key upd cfg) = f cfg"
  by (simp add: override_def)

lemma override_set: "(\<And>v c. f (upd v c) = v) \<Longrightarrow> f (override env key upd cfg) = getEnvOrDefault env key (f cfg)"
  by (simp add: override_def getEnvOrDefault_def)

lemmas override_sel =
  override_keep [where f = cfgP2PPort] override_set [where f = cfgP2PPort]
  override_keep [where f = cfgUDPPort] override_keep [where f = cfgMaxPeers]
  override_keep [where f = cfgGenesisSeed1] override_set [where f = cfgGenesisSeed1]
  override_keep [where f = cfgGenesisSeed2] override_set [where f = cfgGenesisSeed2]
  override_keep [where f = cfgGenesisSeed3] override_set [where f = cfgGenesisSeed3]
  override_keep [where f = cfgAPIPort] override_set [where f = cfgAPIPort]
  override_keep [where f = cfgEnableTLS] override_keep [where f = cfgCommunityValidators]

lemma readUDPPort_sel:
  "cfgP2PPort (readUDPPort env c) = cfgP2PPort c" "cfgMaxPeers (readUDPPort env c) = cfgMaxPeers c"
  "cfgEnableTLS (readUDPPort env c) = cfgEnableTLS c"
  "cfgGenesisSeed1 (readUDPPort env c) = cfgGenesisSeed1 c" "cfgGenesisSeed2 (readUDPPort env c) = cfgGenesisSeed2 c"
  "cfgGenesisSeed3 (readUDPPort env c) = cfgGenesisSeed3 c" "cfgAPIPort (readUDPPort env c) = cfgAPIPort c"
  "cfgCommunityValidators (readUDPPort env c) = cfgCommunityValidators c"
  by (simp_all add: readUDPPort_def override_def split: option.split)

lemma readUDPPort_port:
  "cfgUDPPort (readUDPPort env c) = (case Sscanf_d (env ''SUPERNOVA_UDP_PORT'') of Some n \<Rightarrow> n | None \<Rightarrow> cfgUDPPort c)"
  by (auto simp: readUDPPort_def override_def Sscanf_d_def split: option.split)

section \<open>Properties\<close>

text \<open>A non-empty environment variable wins over \<open>config.json\<close>, which wins over the defaults;
  a UDP port that is not a number is ignored; TLS can be switched on but not off by the environment;
  the first genesis seed is never empty, and falls back to the public development seed.\<close>

theorem config_precedence:
  "cfgP2PPort (loadConfig file env) = getEnvOrDefault env ''SUPERNOVA_P2P_PORT'' (cfgP2PPort (config_of file))
   \<and> cfgUDPPort (loadConfig file env) =
       (case Sscanf_d (env ''SUPERNOVA_UDP_PORT'') of Some n \<Rightarrow> n | None \<Rightarrow> cfgUDPPort (config_of file))
   \<and> cfgMaxPeers (loadConfig file env) = cfgMaxPeers (config_of file)
   \<and> cfgGenesisSeed1 (loadConfig file env) =
       (let seed = getEnvOrDefault env ''SUPERNOVA_GENESIS_SEED_1'' (cfgGenesisSeed1 (config_of file))
        in if seed = [] then ''dev-only-insecure-seed-do-not-use-in-production'' else seed)
   \<and> cfgGenesisSeed2 (loadConfig file env) = getEnvOrDefault env ''SUPERNOVA_GENESIS_SEED_2'' (cfgGenesisSeed2 (config_of file))
   \<and> cfgGenesisSeed3 (loadConfig file env) = getEnvOrDefault env ''SUPERNOVA_GENESIS_SEED_3'' (cfgGenesisSeed3 (config_of file))
   \<and> cfgAPIPort (loadConfig file env) = getEnvOrDefault env ''SUPERNOVA_API_PORT'' (cfgAPIPort (config_of file))
   \<and> cfgEnableTLS (loadConfig file env) = (env ''SUPERNOVA_ENABLE_TLS'' = ''true'' \<or> cfgEnableTLS (config_of file))
   \<and> cfgCommunityValidators (loadConfig file env) = cfgCommunityValidators (config_of file)"
  by (auto simp: loadConfig_def override_sel readUDPPort_sel readUDPPort_port config_of_def [symmetric] Let_def
      cong: option.case_cong)

text \<open>Every genesis seed has the 32 bytes that \<open>ed25519.NewKeyFromSeed\<close> demands, so node start
  does not panic; a seed given as 64 hexadecimal digits is taken as it is. A pass phrase is cut or
  padded to 32 bytes, not hashed as the comment says: two pass phrases (neither of them 64 hexadecimal
  digits) that agree in their first 32 characters give the same validator.\<close>

theorem genesis_seed:
  "length (deriveGenesisSeed rnd str) = 32
   \<and> (length seed = 32 \<longrightarrow> deriveGenesisSeed rnd (EncodeToString seed) = seed)
   \<and> (32 \<le> length pre \<and> length (pre @ s) \<noteq> 64 \<and> length (pre @ t) \<noteq> 64 \<longrightarrow>
        genesisID C (deriveGenesisSeed rnd (pre @ s)) = genesisID C (deriveGenesisSeed rnd' (pre @ t)))"
proof -
  have "length (fst (DecodeString u)) = length u div 2" if "snd (DecodeString u)" for u
    using that by (induction u rule: DecodeString.induct) (auto simp: Let_def split: option.splits prod.splits)
  moreover have "even (length u)" if "snd (DecodeString u)" for u
    using that by (induction u rule: DecodeString.induct) (auto simp: Let_def split: option.splits prod.splits)
  ultimately have hex: "length u = 64" if "DecodeString u = (d, True)" "length d = 32" for u d
    using that by (metis dvd_mult_div_cancel fst_conv mult_2 numeral_Bit0 snd_conv)
  have phrase: "deriveGenesisSeed r u = take 32 (string_bytes u @ replicate 32 0)" if "u \<noteq> []" "length u \<noteq> 64" for r u
    using that hex by (auto simp: deriveGenesisSeed_def split: prod.split)
  have "take 32 (string_bytes (pre @ u) @ replicate 32 0) = take 32 (string_bytes pre)" if "32 \<le> length pre" for u
    using that by (simp add: string_bytes_def)
  moreover have "EncodeToString seed \<noteq> []" if "length seed = 32"
    using that length_EncodeToString [of seed] by (metis length_0_conv mult_eq_0_iff zero_neq_numeral)
  moreover have "pre @ u \<noteq> []" if "32 \<le> length pre" for u using that by auto
  ultimately show ?thesis
    by (auto simp: phrase) (auto simp: deriveGenesisSeed_def string_bytes_def split: prod.split)
qed

theorem genesis_seed_witness:
  "length (deriveGenesisSeed 5 ''dev-only-insecure-seed-do-not-use-in-production'') = 32
   \<and> deriveGenesisSeed 5 (EncodeToString (replicate 32 7)) = replicate 32 7
   \<and> genesisID demo_crypto (deriveGenesisSeed 5 (replicate 32 CHR ''x'' @ ''one''))
       = genesisID demo_crypto (deriveGenesisSeed 6 (replicate 32 CHR ''x'' @ ''other''))"
  using genesis_seed [of 5 "''dev-only-insecure-seed-do-not-use-in-production''" "replicate 32 7"]
    genesis_seed [of 5 _ _ "replicate 32 CHR ''x''" "''one''" "''other''" demo_crypto 6] by simp

text \<open>C35: at every start, over whatever accounts the database holds, the genesis allocation overwrites
  balance and stake of the three genesis and two community validators and leaves everything else as it
  is. When the five are different, the total supply afterwards is the one before, less what these five
  held, plus 15,029,999,997 NVN: on an empty ledger that is the supply (the comment says 10 billion),
  and at a restart everything that a genesis validator has spent since is minted again.\<close>

theorem genesis_mints:
  assumes "sm_wf K sm" and "genesisIDs C rnd cfg = (gens, users)" and "distinct (gens @ users)"
    and "L = ledger (view K sm)" and "sm' = bigBang C K rnd cfg sm"
  shows "(\<forall>a. view K sm' a = (view K sm a)\<lparr>accBalance := accBalance (view K sm' a), accStake := accStake (view K sm' a)\<rparr>)
    \<and> (\<forall>a. a \<notin> set (gens @ users) \<longrightarrow> view K sm' a = view K sm a)
    \<and> total_supply (ledger (view K sm')) + (\<Sum>a\<in>set (gens @ users). Bal L a + Stk L a)
        = total_supply L + 15029999997 * 10 ^ 6"
proof -
  let ?S = "set gens" and ?T = "set users"
  have c: "card ?S = 3" "card ?T = 2"
    using assms(2,3) by (auto simp: genesisIDs_def)
  have disj: "?S \<inter> ?T = {}" using assms(3) by auto
  note v = view_bigBang [OF assms(1,2)]
  have tot2: "tot (\<lambda>a. if a \<in> ?T then u else if a \<in> ?S then g else f a) + (\<Sum>a\<in>?S \<union> ?T. f a) = tot f + 3 * g + 2 * u"
    for u g f
  proof -
    have "(\<Sum>a\<in>?T. if a \<in> ?S then g else f a) = (\<Sum>a\<in>?T. f a)"
      using disj by (intro sum.cong) auto
    then show ?thesis
      using tot_overwrite [of ?S g f] tot_overwrite [of ?T u "\<lambda>a. if a \<in> ?S then g else f a"] c
      by (simp add: sum.union_disjoint [OF _ _ disj])
  qed
  have "Bal (ledger (view K sm')) = (\<lambda>a. if a \<in> ?T then unat userBalance else if a \<in> ?S then unat genBalance else Bal L a)"
    "Stk (ledger (view K sm')) = (\<lambda>a. if a \<in> ?T then unat userStake else if a \<in> ?S then unat genStake else Stk L a)"
    "Grt (ledger (view K sm')) = Grt L" "Unb (ledger (view K sm')) = Unb L"
    by (auto simp: assms(4,5) v(2) ledger_def fun_eq_iff)
  then have "total_supply (ledger (view K sm')) + (\<Sum>a\<in>?S \<union> ?T. Bal L a + Stk L a)
      = total_supply L + 3 * (unat genBalance + unat genStake) + 2 * (unat userBalance + unat userStake)"
    using tot2 [of "unat userBalance" "unat genBalance" "Bal L"] tot2 [of "unat userStake" "unat genStake" "Stk L"]
    by (simp add: total_supply_def sum.distrib)
  moreover have "3 * (unat genBalance + unat genStake) + 2 * (unat userBalance + unat userStake) = 15029999997 * 10 ^ 6"
    by (simp add: genBalance_def genStake_def userBalance_def userStake_def)
  ultimately show ?thesis by (auto simp: assms(5) v(2))
qed

abbreviation hex_id :: "addr \<Rightarrow> string" where
  "hex_id a \<equiv> EncodeToString (be_bytes 32 a)"

definition demo_config :: Config where
  "demo_config = defaultConfig\<lparr>cfgGenesisSeed1 := hex_id 1, cfgGenesisSeed2 := hex_id 2, cfgGenesisSeed3 := hex_id 3,
     cfgCommunityValidators := [hex_id 4, hex_id 5]\<rparr>"

definition demo_entropy :: entropy where
  "demo_entropy = \<lparr>rnd1 = 1, rnd2 = 2, rnd3 = 3\<rparr>"

lemma demo_seed: "deriveGenesisSeed r (hex_id a) = be_bytes 32 a"
  by (auto simp: deriveGenesisSeed_def dest: arg_cong [where f = length])

lemma demo_ids: "genesisIDs demo_crypto demo_entropy demo_config = ([1, 2, 3], [4, 5])"
  by (simp add: genesisIDs_def demo_config_def demo_seed genesisID_def demo_crypto_def communityID_def)

theorem genesis_mints_witness:
  "total_supply (ledger (view mem_badger (bigBang demo_crypto mem_badger demo_entropy demo_config
     (NewStateManager (Some Map.empty))))) = 15029999997 * 10 ^ 6"
proof -
  let ?sm = "NewStateManager (Some Map.empty) :: (bytes \<rightharpoonup> Account) StateManager"
  have wf: "sm_wf mem_badger ?sm" using synced_new [OF mem_badger_reliable] by (simp add: synced_def)
  have L: "ledger (view mem_badger ?sm) = \<lparr>Bal = \<lambda>_. 0, Stk = \<lambda>_. 0, Grt = \<lambda>_. 0, Unb = \<lambda>_. 0,
      Rel = \<lambda>_. 0, Non = \<lambda>_. 0, Del = \<lambda>_ _. 0\<rparr>"
    by (simp add: demo_start ledger_def zeroAccount_def)
  show ?thesis
    using genesis_mints [OF wf demo_ids _ refl refl] by (simp add: L total_supply_def tot_def)
qed

section \<open>Automatic grants\<close>

lemma grantCheck_eq:
  "grantCheck K b g peer =
     (if b \<and> peer |\<notin>| grGranted g then
        (case DecodeString peer of (bs, ok) \<Rightarrow>
           if ok \<and> length bs = 32
           then (if accStake (view K (grState g) (array32 bs)) + accGrantStake (view K (grState g) (array32 bs)) < 10 ^ 9
                 then Some (array32 bs) else None,
                 g\<lparr>grState := touch K (touch K (grState g) (array32 bs)) (array32 bs)\<rparr>)
           else (None, g))
      else (None, g))"
  by (auto simp: grantCheck_def get_eq Let_def split: prod.split)

text \<open>An address that is below the threshold, as the callback computes it.\<close>

definition poor :: "Account \<Rightarrow> bool" where
  "poor acc \<longleftrightarrow> accStake acc + accGrantStake acc < 10 ^ 9"

definition granted :: "Account \<Rightarrow> Account" where
  "granted acc = acc\<lparr>accGrantStake := accGrantStake acc + 1500000000\<rparr>"

lemma poor_granted: "poor acc \<Longrightarrow> \<not> poor (granted acc)"
proof -
  assume p: "poor acc"
  let ?x = "accStake acc + accGrantStake acc"
  have "unat ?x < 10 ^ 9" using p by (simp add: poor_def word_less_nat_alt)
  then have "unat (?x + 1500000000) = unat ?x + 1500000000" by (simp add: unat_word_ariths)
  then show ?thesis by (simp add: poor_def granted_def word_less_nat_alt add.assoc [symmetric])
qed

lemma OnPeerConnected_view:
  assumes "sm_wf K (grState g)"
  shows "sm_wf K (grState (OnPeerConnected K b g peer))"
    "view K (grState (OnPeerConnected K b g peer)) = (\<lambda>a.
       if b \<and> peer |\<notin>| grGranted g \<and> DecodeString peer = (be_bytes 32 a, True) \<and> poor (view K (grState g) a)
       then granted (view K (grState g) a) else view K (grState g) a)"
    "grGranted (OnPeerConnected K b g peer) =
       (if b \<and> peer |\<notin>| grGranted g \<and> (\<exists>a. DecodeString peer = (be_bytes 32 a, True) \<and> poor (view K (grState g) a))
        then finsert peer (grGranted g) else grGranted g)"
proof -
  have dec: "DecodeString peer = (be_bytes 32 a, True) \<longleftrightarrow>
      snd (DecodeString peer) \<and> length (fst (DecodeString peer)) = 32 \<and> a = array32 (fst (DecodeString peer))" for a
    by (cases "DecodeString peer") (auto simp: be_bytes_array32)
  show "sm_wf K (grState (OnPeerConnected K b g peer))"
    using assms by (auto simp: OnPeerConnected_def grantCheck_eq grantApply_def split: prod.split)
  show "view K (grState (OnPeerConnected K b g peer)) = (\<lambda>a.
       if b \<and> peer |\<notin>| grGranted g \<and> DecodeString peer = (be_bytes 32 a, True) \<and> poor (view K (grState g) a)
       then granted (view K (grState g) a) else view K (grState g) a)"
    "grGranted (OnPeerConnected K b g peer) =
       (if b \<and> peer |\<notin>| grGranted g \<and> (\<exists>a. DecodeString peer = (be_bytes 32 a, True) \<and> poor (view K (grState g) a))
        then finsert peer (grGranted g) else grGranted g)"
    unfolding dec using assms
    by (auto simp: OnPeerConnected_def grantCheck_eq grantApply_def poor_def granted_def fun_eq_iff split: prod.split)
qed

text \<open>Connections that arrive one after the other grant each needy peer exactly once. After any
  sequence of connections to the node that runs as genesis validator 1, an account has received 1500
  NVN of licence stake if a peer with its address connected while its stake and licence stake were
  below 1000 NVN, and no other account has changed; on any other node no account changes.\<close>

theorem auto_grant:
  assumes "sm_wf K (grState g)" and "grGranted g = {||}" and "g' = foldl (OnPeerConnected K b) g peers"
  shows "view K (grState g') a =
    (if b \<and> (\<exists>p\<in>set peers. DecodeString p = (be_bytes 32 a, True)) \<and> poor (view K (grState g) a)
     then granted (view K (grState g) a) else view K (grState g) a)"
proof -
  have "sm_wf K (grState (foldl (OnPeerConnected K b) g peers))
    \<and> (\<forall>a. view K (grState (foldl (OnPeerConnected K b) g peers)) a =
        (if b \<and> (\<exists>p\<in>set peers. DecodeString p = (be_bytes 32 a, True)) \<and> poor (view K (grState g) a)
         then granted (view K (grState g) a) else view K (grState g) a))
    \<and> (\<forall>p. p |\<in>| grGranted (foldl (OnPeerConnected K b) g peers) \<longrightarrow> p \<in> set peers)"
  proof (induction peers rule: rev_induct)
    case (snoc p ps)
    then show ?case
      by (auto simp: OnPeerConnected_view poor_granted)
  qed (simp add: assms(1,2))
  then show ?thesis unfolding assms(3) by blast
qed

theorem auto_grant_witness:
  "accGrantStake (view mem_badger (grState (foldl (OnPeerConnected mem_badger True)
     \<lparr>grState = demo_sm, grGranted = {||}\<rparr> [hex_id 1, hex_id 1, hex_id 2])) 1) = 1500000000"
  using auto_grant [OF _ _ refl, of mem_badger "\<lparr>grState = demo_sm, grGranted = {||}\<rparr>" True "[hex_id 1, hex_id 1, hex_id 2]" 1]
  by (simp add: demo_wf demo_view poor_def granted_def zeroAccount_def)

text \<open>The check and the grant are not one step. When two connections of the same needy peer
  overlap, so that both callbacks pass the check before either grants, the peer receives 3000 NVN.\<close>

theorem auto_grant_race:
  assumes "sm_wf K (grState g)" and "peer |\<notin>| grGranted g" and "DecodeString peer = (be_bytes 32 a, True)"
    and "poor (view K (grState g) a)"
    and "grantCheck K True g peer = (d1, g1)" and "grantCheck K True g1 peer = (d2, g2)"
  shows "d1 = Some a \<and> d2 = Some a
    \<and> accGrantStake (view K (grState (grantApply K (grantApply K g2 peer a) peer a)) a)
        = accGrantStake (view K (grState g) a) + 3000000000"
  using assms by (auto simp: grantCheck_eq grantApply_def poor_def)

theorem auto_grant_race_witness:
  "\<exists>g1 g2. grantCheck mem_badger True \<lparr>grState = demo_sm, grGranted = {||}\<rparr> (hex_id 1) = (Some 1, g1)
     \<and> grantCheck mem_badger True g1 (hex_id 1) = (Some 1, g2)
     \<and> accGrantStake (view mem_badger (grState (grantApply mem_badger (grantApply mem_badger g2 (hex_id 1) 1) (hex_id 1) 1)) 1)
         = 3000000000"
proof -
  let ?g = "\<lparr>grState = demo_sm, grGranted = {||}\<rparr>"
  obtain d1 g1 where 1: "grantCheck mem_badger True ?g (hex_id 1) = (d1, g1)" by fastforce
  obtain d2 g2 where 2: "grantCheck mem_badger True g1 (hex_id 1) = (d2, g2)" by fastforce
  show ?thesis
    using auto_grant_race [OF _ _ _ _ 1 2, of 1] 1 2 by (auto simp: demo_wf demo_view poor_def zeroAccount_def)
qed

end
