(* ===== verification/Explorer_Index.thy ===== *)
theory Explorer_Index
  imports Bounded_Cache Finality Node_Genesis
begin

text \<open>
  \<open>explorer.go\<close>, part 1: the index of blocks, transactions and account histories that the explorer API
  keeps over the DAG, and the read-only endpoints.

  JSON and HTTP framing are left out: an endpoint is a function from the query parameters to an HTTP
  status with its error text, or the value that is encoded. Index operations return \<open>None\<close> when a bounded
  container would panic or not return. The gob decoder of a block payload is the parameter \<open>decTxs\<close> of the codec.
\<close>

section \<open>Values of the responses\<close>

definition nvn :: "u64 \<Rightarrow> f64" where
  "nvn x = F_div (F_u64 x) (F_lit 1000000)"

record JSONVertex =
  jvHash :: string
  jvTimestamp :: i64
  jvAuthor :: string
  jvParents :: "string list"
  jvRounds :: u64
  jvMerkleRoot :: string
  jvReward :: f64
  jvSize :: nat
  jvTxCount :: nat

record Stats =
  stTotalBlocks :: nat
  stTPS :: nat
  stValidators :: nat
  stLatency :: nat

record TxRecord =
  trHash :: string
  trType :: string
  trFrom :: string
  trTo :: string
  trAmount :: f64
  trFee :: f64
  trNonce :: u64
  trSignature :: string
  trBlockHash :: string
  trBlockRound :: u64
  trTime :: i64

record AccountResp =
  arAddress :: string
  arBalance :: f64
  arStake :: f64
  arGrantStake :: f64
  arUnbonding :: f64
  arDelegations :: "(string, f64) fmap"
  arHistory :: "TxRecord list"

type_synonym http_error = "nat \<times> string"

definition getTxTypeString :: "TxType \<Rightarrow> string" where
  "getTxTypeString t =
     (if t = TxTransfer then ''TRANSFER''
      else if t = TxStake then ''STAKE''
      else if t = TxUnstake then ''UNSTAKE''
      else if t = TxDelegate then ''DELEGATE''
      else if t = TxWithdraw then ''WITHDRAW''
      else if t = TxGrant then ''GRANT_LICENSE''
      else if t = TxBuyLicense then ''BUY_LICENSE''
      else ''UNKNOWN'')"

definition toJSONVertex :: "Vertex \<Rightarrow> f64 \<Rightarrow> nat \<Rightarrow> JSONVertex" where
  "toJSONVertex v reward txCount =
     \<lparr>jvHash = Hash_String (vHash v), jvTimestamp = go_sdiv (vTimestamp v) 1000000,
      jvAuthor = EncodeToString (be_bytes 32 (vAuthor v)), jvParents = map Hash_String (vParents v),
      jvRounds = vRound v, jvMerkleRoot = EncodeToString (be_bytes 32 (vMerkleRoot v)),
      jvReward = reward, jvSize = length (vTxPayload v), jvTxCount = txCount\<rparr>"

section \<open>The index\<close>

definition MaxHistoryPerAddress :: int where "MaxHistoryPerAddress = 1000"
definition MaxAddressesTracked :: int where "MaxAddressesTracked = 10000"
definition MaxTxIndexSize :: int where "MaxTxIndexSize = 50000"
definition MaxBlockIndexSize :: int where "MaxBlockIndexSize = 10000"

record Index =
  ixHistory :: "(string, TxRecord) BoundedMap"
  ixTx :: "(string, Transaction) LRU"
  ixBlock :: "(string, Vertex) LRU"

definition newIndex :: "Index option" where
  "newIndex = map_option (\<lambda>h. \<lparr>ixHistory = h, ixTx = NewLRU MaxTxIndexSize, ixBlock = NewLRU MaxBlockIndexSize\<rparr>)
     (NewBoundedMap MaxHistoryPerAddress MaxAddressesTracked)"

definition txRecord :: "Vertex \<Rightarrow> Transaction \<Rightarrow> TxRecord" where
  "txRecord v tx =
     \<lparr>trHash = EncodeToString (txSig tx), trType = getTxTypeString (txType tx),
      trFrom = EncodeToString (be_bytes 32 (txFrom tx)), trTo = EncodeToString (be_bytes 32 (txTo tx)),
      trAmount = nvn (txAmount tx), trFee = nvn (txFee tx), trNonce = txNonce tx,
      trSignature = EncodeToString (txSig tx), trBlockHash = Hash_String (vHash v), trBlockRound = vRound v,
      trTime = go_sdiv (vTimestamp v) 1000000\<rparr>"

definition miningRecord :: "Vertex \<Rightarrow> f64 \<Rightarrow> TxRecord" where
  "miningRecord v amount =
     \<lparr>trHash = Hash_String (vHash v), trType = ''MINING'', trFrom = ''SYSTEM'',
      trTo = EncodeToString (be_bytes 32 (vAuthor v)), trAmount = amount, trFee = F_lit 0, trNonce = 0,
      trSignature = [], trBlockHash = Hash_String (vHash v), trBlockRound = vRound v,
      trTime = go_sdiv (vTimestamp v) 1000000\<rparr>"

definition appendHistory :: "Index \<Rightarrow> string \<Rightarrow> TxRecord \<Rightarrow> Index option" where
  "appendHistory ix a rec = map_option (\<lambda>h. ix\<lparr>ixHistory := h\<rparr>) (Map_Append (ixHistory ix) a rec)"

definition zeroAddress :: string where
  "zeroAddress = replicate 64 (CHR ''0'')"

text \<open>The body of the loop over the transactions of a block, the same at start-up and for a new vertex.\<close>

definition indexTx :: "Vertex \<Rightarrow> Index \<Rightarrow> Transaction \<Rightarrow> Index option" where
  "indexTx v ix tx =
     (case LRU_Set (ixTx ix) (EncodeToString (txSig tx)) tx of
        None \<Rightarrow> None
      | Some t \<Rightarrow>
          let ix = ix\<lparr>ixTx := t\<rparr>; rec = txRecord v tx in
          (case appendHistory ix (trFrom rec) rec of
             None \<Rightarrow> None
           | Some ix \<Rightarrow> if trTo rec \<noteq> zeroAddress then appendHistory ix (trTo rec) rec else Some ix))"

definition indexBlock :: "Index \<Rightarrow> Vertex \<Rightarrow> Index option" where
  "indexBlock ix v = map_option (\<lambda>b. ix\<lparr>ixBlock := b\<rparr>) (LRU_Set (ixBlock ix) (Hash_String (vHash v)) v)"

definition blockTxs :: "codec \<Rightarrow> Vertex \<Rightarrow> Transaction list" where
  "blockTxs X v = (case decTxs X (vTxPayload v) of None \<Rightarrow> [] | Some txs \<Rightarrow> txs)"

text \<open>Start-up: the mining record, of a fixed 100, comes before the transactions.\<close>

definition rebuildVertex :: "codec \<Rightarrow> Index \<Rightarrow> Vertex \<Rightarrow> Index option" where
  "rebuildVertex X ix v =
     (case indexBlock ix v of
        None \<Rightarrow> None
      | Some ix \<Rightarrow>
          (case appendHistory ix (EncodeToString (be_bytes 32 (vAuthor v))) (miningRecord v (F_lit 100)) of
             None \<Rightarrow> None
           | Some ix \<Rightarrow> orun (indexTx v) ix (blockTxs X v)))"

definition rebuildIndex :: "codec \<Rightarrow> Vertex list \<Rightarrow> Index option" where
  "rebuildIndex X all = (case newIndex of None \<Rightarrow> None | Some ix \<Rightarrow> orun (rebuildVertex X) ix all)"

definition approxReward :: "u64 \<Rightarrow> f64" where
  "approxReward fees = F_add (F_lit 500) (F_div (F_div (F_u64 fees) (F_lit 2)) (F_lit 1000000))"

text \<open>The \<open>OnNewVertex\<close> callback: the new index and the vertex that is broadcast to the websocket clients.\<close>

definition onNewVertex :: "codec \<Rightarrow> Index \<Rightarrow> Vertex \<Rightarrow> (Index \<times> JSONVertex) option" where
  "onNewVertex X ix v =
     (case indexBlock ix v of
        None \<Rightarrow> None
      | Some ix \<Rightarrow>
          (case orun (indexTx v) ix (blockTxs X v) of
             None \<Rightarrow> None
           | Some ix \<Rightarrow>
               let reward = approxReward (blockFees X v) in
               (case appendHistory ix (EncodeToString (be_bytes 32 (vAuthor v))) (miningRecord v reward) of
                  None \<Rightarrow> None
                | Some ix \<Rightarrow> Some (ix, toJSONVertex v reward (length (blockTxs X v))))))"

text \<open>The callback that is finally installed also feeds the finality tracker.\<close>

definition onNewVertexTracked :: "codec \<Rightarrow> FinalityTracker \<times> Index \<Rightarrow> Vertex \<Rightarrow> ((FinalityTracker \<times> Index) \<times> JSONVertex) option" where
  "onNewVertexTracked X fi v =
     map_option (\<lambda>(ix, jv). ((RecordVertex (fst fi) v, ix), jv)) (onNewVertex X (snd fi) v)"

text \<open>The websocket hub: a connection is registered when it is upgraded; the broadcaster takes a snapshot of
  the clients, \<open>peers\<close>, and drops each of them to which the write fails. It answers who received the vertex.\<close>

definition wsConnect :: "bool \<Rightarrow> 'c \<Rightarrow> 'c fset \<Rightarrow> 'c fset" where
  "wsConnect upgraded ws clients = (if upgraded then finsert ws clients else clients)"

definition wsBroadcast :: "('c \<Rightarrow> bool) \<Rightarrow> 'c list \<Rightarrow> 'c fset \<Rightarrow> 'c list \<times> 'c fset" where
  "wsBroadcast write_ok peers clients =
     (filter write_ok peers, foldl (\<lambda>cl c. if write_ok c then cl else cl |-| {|c|}) clients peers)"

section \<open>Endpoints\<close>

text \<open>\<open>strconv.Atoi\<close>: an optional sign and one or more decimal digits, nothing else; out of range is an error.\<close>

definition Atoi :: "string \<Rightarrow> i64 option" where
  "Atoi s =
     (let neg = (s \<noteq> [] \<and> hd s = CHR ''-'');
          ds = (if s \<noteq> [] \<and> (hd s = CHR ''-'' \<or> hd s = CHR ''+'') then tl s else s);
          n = (if neg then - int (decimal ds) else int (decimal ds))
      in if ds = [] \<or> \<not> list_all isDigit ds then None
         else if n < - (2 ^ 63) \<or> 2 ^ 63 \<le> n then None
         else Some (word_of_int n))"

definition pageParam :: "string \<Rightarrow> i64" where
  "pageParam p = (case Atoi p of Some v \<Rightarrow> if p \<noteq> [] \<and> 0 <s v then v else 1 | None \<Rightarrow> 1)"

definition limitParam :: "string \<Rightarrow> i64" where
  "limitParam l = (case Atoi l of Some v \<Rightarrow> if l \<noteq> [] \<and> 0 <s v \<and> v \<le>s 100 then v else 20 | None \<Rightarrow> 20)"

record BlocksPage =
  bpBlocks :: "JSONVertex list"
  bpPage :: i64
  bpLimit :: i64
  bpTotal :: i64
  bpTotalPages :: i64

definition blockJSON :: "codec \<Rightarrow> Vertex \<Rightarrow> JSONVertex" where
  "blockJSON X v = toJSONVertex v (approxReward (blockFees X v)) (length (blockTxs X v))"

text \<open>\<open>/api/blocks\<close> over the vertices in the order that \<open>GetAllVertices\<close> returns them. A slice expression
  \<open>reversed[start:end]\<close> with a negative or inverted range panics: \<open>None\<close>.\<close>

definition apiBlocks :: "codec \<Rightarrow> Vertex list \<Rightarrow> i64 \<Rightarrow> i64 \<Rightarrow> BlocksPage option" where
  "apiBlocks X all page limit =
     (let total = (of_nat (length all) :: i64);
          start = (page - 1) * limit;
          stop = start + limit;
          start = (if total <s start then total else start);
          stop = (if total <s stop then total else stop);
          reversed = rev all
      in if start <s 0 \<or> stop <s start then None
         else Some \<lparr>bpBlocks = map (blockJSON X) (take (unat stop - unat start) (drop (unat start) reversed)),
                    bpPage = page, bpLimit = limit, bpTotal = total,
                    bpTotalPages = go_sdiv (total + limit - 1) limit\<rparr>)"

definition apiStats :: "Vertex list \<Rightarrow> Stats" where
  "apiStats all = \<lparr>stTotalBlocks = length all, stTPS = 1500, stValidators = 5, stLatency = 50\<rparr>"

text \<open>\<open>ds\<close> is an iteration order of the delegations of the account.\<close>

definition apiAccount :: "('d, 'b) badger \<Rightarrow> addr list \<Rightarrow> 'd StateManager \<Rightarrow> Index \<Rightarrow> string
    \<Rightarrow> (http_error + AccountResp) \<times> 'd StateManager" where
  "apiAccount K ds sm ix addrStr =
     (if addrStr = [] then (Inl (400, ''addr required''), sm)
      else
        let (b, ok) = DecodeString addrStr in
        if \<not> ok \<or> length b \<noteq> 32 then (Inl (400, ''invalid address hex''), sm)
        else
          let a = array32 b;
              (bal, sm) = GetBalance K sm a;
              (stk, sm) = GetStake K sm a;
              recs = Map_Get (ixHistory ix) addrStr;
              (grant, sm) = GetGrantStake K sm a;
              ((unbonding, _), sm) = GetUnbonding K sm a;
              (delegations, sm) = IterateDelegations K sm a ds
                 (\<lambda>validator amount m. fmupd (EncodeToString (be_bytes 32 validator)) (nvn amount) m) fmempty
          in (Inr \<lparr>arAddress = addrStr, arBalance = nvn bal, arStake = nvn stk, arGrantStake = nvn grant,
                   arUnbonding = nvn unbonding, arDelegations = delegations, arHistory = recs\<rparr>, sm))"

text \<open>What is known of a transaction that is not in the history of its sender: no block, no time.\<close>

definition partialRecord :: "string \<Rightarrow> Transaction \<Rightarrow> TxRecord" where
  "partialRecord h tx =
     \<lparr>trHash = h, trType = getTxTypeString (txType tx), trFrom = EncodeToString (be_bytes 32 (txFrom tx)),
      trTo = EncodeToString (be_bytes 32 (txTo tx)), trAmount = nvn (txAmount tx), trFee = nvn (txFee tx),
      trNonce = txNonce tx, trSignature = h, trBlockHash = [], trBlockRound = 0, trTime = 0\<rparr>"

text \<open>\<open>/api/transaction\<close>: the index is returned because a lookup moves the entry to the front.\<close>

definition apiTransaction :: "Index \<Rightarrow> string \<Rightarrow> (http_error + TxRecord) \<times> Index" where
  "apiTransaction ix h =
     (case LRU_Get (ixTx ix) h of
        (None, t) \<Rightarrow> (Inl (404, ''tx not found''), ix\<lparr>ixTx := t\<rparr>)
      | (Some tx, t) \<Rightarrow>
          let ix = ix\<lparr>ixTx := t\<rparr>;
              from_addr = EncodeToString (be_bytes 32 (txFrom tx));
              found = List.find (\<lambda>r. trHash r = h) (Map_Get (ixHistory ix) from_addr)
          in (Inr (case found of
                 Some r \<Rightarrow> if trHash r \<noteq> [] then r else partialRecord h tx
               | None \<Rightarrow> partialRecord h tx), ix))"

definition apiBlock :: "codec \<Rightarrow> Index \<Rightarrow> string \<Rightarrow> (http_error + JSONVertex) \<times> Index" where
  "apiBlock X ix h =
     (case LRU_Get (ixBlock ix) h of
        (None, b) \<Rightarrow> (Inl (404, ''block not found''), ix\<lparr>ixBlock := b\<rparr>)
      | (Some v, b) \<Rightarrow> (Inr (blockJSON X v), ix\<lparr>ixBlock := b\<rparr>))"

definition apiFinality :: "FinalityTracker \<Rightarrow> VertexStore \<Rightarrow> time \<Rightarrow> string \<Rightarrow> http_error + FinalityStatus" where
  "apiFinality ft vs now hashStr =
     (if hashStr = [] then Inl (400, ''hash required'')
      else
        let (hashBytes, ok) = DecodeString hashStr in
        if \<not> ok \<or> length hashBytes \<noteq> 32 then Inl (400, ''invalid hash'')
        else case GetFinalityStatus ft vs now (array32 hashBytes) of
               None \<Rightarrow> Inl (404, ''block not found'')
             | Some status \<Rightarrow> Inr status)"

datatype SearchResult = SearchNone | SearchBlock string | SearchTx string | SearchAddress string

definition apiSearch :: "Index \<Rightarrow> string \<Rightarrow> SearchResult \<times> Index" where
  "apiSearch ix q =
     (let (isBlock, b) = LRU_Get (ixBlock ix) q; (isTx, t) = LRU_Get (ixTx ix) q in
      (if isBlock \<noteq> None then SearchBlock q
       else if isTx \<noteq> None then SearchTx q
       else if length q = 64 then SearchAddress q else SearchNone,
       ix\<lparr>ixBlock := b, ixTx := t\<rparr>))"

text \<open>\<open>/api/peers\<close>: \<open>pk\<close> is an iteration order of the peers; the reported latency is computed from the length
  of the request body.\<close>

record PeerInfo =
  piAddr :: string
  piNodeID :: string
  piLatency :: i64

definition apiPeers :: "string list \<Rightarrow> i64 \<Rightarrow> 'd Server option \<Rightarrow> http_error + PeerInfo list" where
  "apiPeers pk contentLength server =
     (case server of
        None \<Rightarrow> Inl (503, ''p2p server unavailable'')
      | Some s \<Rightarrow>
          Inr (List.map_filter (\<lambda>a. map_option (\<lambda>p. \<lparr>piAddr = a, piNodeID = peerNodeID p,
                  piLatency = 10 + word_of_int (sint contentLength smod 50)\<rparr>) (fmlookup (svPeers s) a)) pk))"

record RepInfo =
  riNodeID :: string
  riScore :: i64
  riValidBlocks :: i64
  riInvalidBlocks :: i64
  riValidTxs :: i64
  riInvalidTxs :: i64
  riIsBanned :: bool
  riStatus :: string

definition repStatus :: "PeerReputation \<Rightarrow> string" where
  "repStatus r =
     (if prIsBanned r then ''banned''
      else if 75 \<le>s prScore r then ''trusted''
      else if prScore r <s 0 then ''suspicious''
      else ''normal'')"

definition apiReputation :: "string list \<Rightarrow> 'd Server option \<Rightarrow> http_error + ReputationStats \<times> RepInfo list" where
  "apiReputation ks server =
     (case server of
        None \<Rightarrow> Inl (503, ''p2p server unavailable'')
      | Some s \<Rightarrow>
          Inr (Reputation_Stats ks (svReputation s),
               map (\<lambda>r. \<lparr>riNodeID = prNodeID r, riScore = prScore r, riValidBlocks = prValidBlocks r,
                  riInvalidBlocks = prInvalidBlocks r, riValidTxs = prValidTxs r, riInvalidTxs = prInvalidTxs r,
                  riIsBanned = prIsBanned r, riStatus = repStatus r\<rparr>) (GetAllReputations ks (svReputation s))))"

record SlashInfo =
  siValidator :: string
  siOffense :: string
  siAmount :: f64
  siTimestamp :: i64
  siJailedUntil :: i64

definition apiSlashing :: "'d Server option \<Rightarrow> SlashInfo list \<times> nat" where
  "apiSlashing server =
     (case Option.bind server svSlasher of
        None \<Rightarrow> ([], 0)
      | Some sl \<Rightarrow>
          let slashList = map (\<lambda>r. \<lparr>siValidator = EncodeToString (be_bytes 32 (srValidator r)),
                 siOffense = offenseString (srOffense r), siAmount = nvn (srAmount r), siTimestamp = srTimestamp r,
                 siJailedUntil = srJailedUntil r\<rparr>) (GetAllSlashRecords sl)
          in (slashList, length slashList))"

definition apiMempool :: "addr list \<Rightarrow> Mempool option \<Rightarrow> Transaction list" where
  "apiMempool ks mempool = (case mempool of None \<Rightarrow> [] | Some mp \<Rightarrow> GetAll ks mp)"

record MempoolStatsResp =
  mrTxCount :: nat
  mrTotalFees :: f64
  mrMinFee :: f64
  mrMaxFee :: f64
  mrAvgFee :: f64

definition apiMempoolStats :: "addr list \<Rightarrow> Mempool option \<Rightarrow> MempoolStatsResp" where
  "apiMempoolStats ks mempool =
     (case mempool of
        None \<Rightarrow> \<lparr>mrTxCount = 0, mrTotalFees = F_lit 0, mrMinFee = F_lit 0, mrMaxFee = F_lit 0, mrAvgFee = F_lit 0\<rparr>
      | Some mp \<Rightarrow>
          let st = Mempool_GetStats ks mp in
          \<lparr>mrTxCount = msTxCount st, mrTotalFees = nvn (msTotalFees st), mrMinFee = nvn (msMinFee st),
           mrMaxFee = nvn (msMaxFee st), mrAvgFee = nvn (msAvgFee st)\<rparr>)"

section \<open>Lemmas\<close>

text \<open>The records that a new vertex adds to the histories, in order.\<close>

definition txLog :: "Vertex \<Rightarrow> Transaction \<Rightarrow> (string \<times> TxRecord) list" where
  "txLog v tx = (let r = txRecord v tx in (trFrom r, r) # (if trTo r \<noteq> zeroAddress then [(trTo r, r)] else []))"

definition vertexLog :: "codec \<Rightarrow> Vertex \<Rightarrow> (string \<times> TxRecord) list" where
  "vertexLog X v = concat (map (txLog v) (blockTxs X v))
     @ [(EncodeToString (be_bytes 32 (vAuthor v)), miningRecord v (approxReward (blockFees X v)))]"

definition ix_inv :: "(string \<times> TxRecord) list \<Rightarrow> Index \<Rightarrow> bool" where
  "ix_inv kvs ix \<longleftrightarrow> bm_inv 1000 10000 kvs (ixHistory ix) \<and> lru_ok 50000 (ixTx ix) \<and> lru_ok 10000 (ixBlock ix)"

lemma bm_append:
  assumes "bm_inv 1000 10000 kvs m"
  shows "\<exists>m'. Map_Append m k v = Some m' \<and> bm_inv 1000 10000 (kvs @ [(k, v)]) m'"
  using bm_append_new [OF _ _ assms] bm_append_known [OF _ assms] by (cases "fmlookup (bmData m) k") auto

lemma appendHistory_ok:
  assumes "ix_inv kvs ix"
  shows "\<exists>ix'. appendHistory ix a r = Some ix' \<and> ix_inv (kvs @ [(a, r)]) ix' \<and> ixTx ix' = ixTx ix \<and> ixBlock ix' = ixBlock ix"
  using assms bm_append [of kvs "ixHistory ix" a r] by (auto simp: appendHistory_def ix_inv_def)

lemma LRU_Set_ok:
  assumes "lru_ok n c"
  shows "\<exists>c'. LRU_Set c k v = Some c' \<and> lru_ok n c' \<and> entries c' = recency_step n (entries c) (CSet k v)"
  using lru.step_refines [OF assms, of "CSet k v"] by simp

lemma indexTx_ok:
  assumes "ix_inv kvs ix"
  shows "\<exists>ix'. indexTx v ix tx = Some ix' \<and> ix_inv (kvs @ txLog v tx) ix' \<and> ixBlock ix' = ixBlock ix
    \<and> entries (ixTx ix') = recency_step 50000 (entries (ixTx ix)) (CSet (EncodeToString (txSig tx)) tx)"
proof -
  let ?r = "txRecord v tx"
  obtain t where t: "LRU_Set (ixTx ix) (EncodeToString (txSig tx)) tx = Some t" "lru_ok 50000 t"
    "entries t = recency_step 50000 (entries (ixTx ix)) (CSet (EncodeToString (txSig tx)) tx)"
    using LRU_Set_ok [of 50000 "ixTx ix"] assms by (auto simp: ix_inv_def)
  then have "ix_inv kvs (ix\<lparr>ixTx := t\<rparr>)" using assms by (simp add: ix_inv_def)
  then obtain ix1 where ix1: "appendHistory (ix\<lparr>ixTx := t\<rparr>) (trFrom ?r) ?r = Some ix1" "ix_inv (kvs @ [(trFrom ?r, ?r)]) ix1"
    "ixTx ix1 = t" "ixBlock ix1 = ixBlock ix"
    using appendHistory_ok [of kvs "ix\<lparr>ixTx := t\<rparr>"] by fastforce
  show ?thesis using ix1 t appendHistory_ok [OF ix1(2), of "trTo ?r" ?r]
    by (fastforce simp: indexTx_def txLog_def Let_def)
qed

lemma indexTxs_ok:
  assumes "ix_inv kvs ix"
  shows "\<exists>ix'. orun (indexTx v) ix txs = Some ix' \<and> ix_inv (kvs @ concat (map (txLog v) txs)) ix' \<and> ixBlock ix' = ixBlock ix
    \<and> entries (ixTx ix') = foldl (recency_step 50000) (entries (ixTx ix)) (map (\<lambda>tx. CSet (EncodeToString (txSig tx)) tx) txs)"
  using assms
proof (induction txs arbitrary: ix kvs)
  case (Cons tx txs)
  obtain ix1 where 1: "indexTx v ix tx = Some ix1" "ix_inv (kvs @ txLog v tx) ix1" "ixBlock ix1 = ixBlock ix"
    "entries (ixTx ix1) = recency_step 50000 (entries (ixTx ix)) (CSet (EncodeToString (txSig tx)) tx)"
    using indexTx_ok [OF Cons.prems] by blast
  with Cons.IH [OF 1(2)] show ?case by auto
qed simp

lemma onNewVertex_ok:
  assumes "ix_inv kvs ix"
  shows "\<exists>ix'. onNewVertex X ix v = Some (ix', blockJSON X v) \<and> ix_inv (kvs @ vertexLog X v) ix'
    \<and> entries (ixBlock ix') = recency_step 10000 (entries (ixBlock ix)) (CSet (Hash_String (vHash v)) v)
    \<and> entries (ixTx ix') = foldl (recency_step 50000) (entries (ixTx ix))
        (map (\<lambda>tx. CSet (EncodeToString (txSig tx)) tx) (blockTxs X v))"
proof -
  obtain b where b: "LRU_Set (ixBlock ix) (Hash_String (vHash v)) v = Some b" "lru_ok 10000 b"
    "entries b = recency_step 10000 (entries (ixBlock ix)) (CSet (Hash_String (vHash v)) v)"
    using LRU_Set_ok [of 10000 "ixBlock ix"] assms by (auto simp: ix_inv_def)
  then have "ix_inv kvs (ix\<lparr>ixBlock := b\<rparr>)" using assms by (simp add: ix_inv_def)
  then obtain ix1 where 1: "orun (indexTx v) (ix\<lparr>ixBlock := b\<rparr>) (blockTxs X v) = Some ix1"
    "ix_inv (kvs @ concat (map (txLog v) (blockTxs X v))) ix1" "ixBlock ix1 = b"
    "entries (ixTx ix1) = foldl (recency_step 50000) (entries (ixTx ix)) (map (\<lambda>tx. CSet (EncodeToString (txSig tx)) tx) (blockTxs X v))"
    using indexTxs_ok [of kvs "ix\<lparr>ixBlock := b\<rparr>"] by fastforce
  then show ?thesis
    using b appendHistory_ok [OF 1(2), of "EncodeToString (be_bytes 32 (vAuthor v))" "miningRecord v (approxReward (blockFees X v))"]
    by (auto simp: onNewVertex_def indexBlock_def blockJSON_def vertexLog_def Let_def)
qed

text \<open>The index of a node that started on an empty DAG and has received the vertices \<open>vs\<close>.\<close>

definition liveIndex :: "codec \<Rightarrow> Vertex list \<Rightarrow> Index option" where
  "liveIndex X vs =
     (case newIndex of None \<Rightarrow> None | Some ix \<Rightarrow> orun (\<lambda>ix v. map_option fst (onNewVertex X ix v)) ix vs)"

abbreviation historyLog :: "codec \<Rightarrow> Vertex list \<Rightarrow> (string \<times> TxRecord) list" where
  "historyLog X vs \<equiv> concat (map (vertexLog X) vs)"

lemma newIndex_ok:
  obtains ix where "newIndex = Some ix" "ix_inv [] ix" "entries (ixTx ix) = []" "entries (ixBlock ix) = []"
proof
  let ?ix = "\<lparr>ixHistory = \<lparr>bmData = fmempty, bmPerKeyMax = 1000, bmMaxKeys = 10000, bmKeyOrder = []\<rparr>,
      ixTx = NewLRU 50000, ixBlock = NewLRU 10000\<rparr>"
  show "newIndex = Some ?ix"
    by (simp add: newIndex_def NewBoundedMap_def MaxHistoryPerAddress_def MaxAddressesTracked_def MaxTxIndexSize_def MaxBlockIndexSize_def)
  show "ix_inv [] ?ix"
    using lru_ok_new(1) [of 50000] lru_ok_new(1) [of 10000] by (simp add: ix_inv_def bm_inv_def)
qed simp_all

lemma live_ok:
  obtains ix where "liveIndex X vs = Some ix" "ix_inv (historyLog X vs) ix"
    "entries (ixBlock ix) = foldl (recency_step 10000) [] (map (\<lambda>v. CSet (Hash_String (vHash v)) v) vs)"
    "entries (ixTx ix) = foldl (recency_step 50000) [] (map (\<lambda>tx. CSet (EncodeToString (txSig tx)) tx) (concat (map (blockTxs X) vs)))"
proof -
  obtain ix0 where 0: "newIndex = Some ix0" "ix_inv [] ix0" "entries (ixTx ix0) = []" "entries (ixBlock ix0) = []"
    by (rule newIndex_ok)
  have "\<exists>ix'. orun (\<lambda>ix v. map_option fst (onNewVertex X ix v)) ix vs = Some ix' \<and> ix_inv (kvs @ historyLog X vs) ix'
      \<and> entries (ixBlock ix') = foldl (recency_step 10000) (entries (ixBlock ix)) (map (\<lambda>v. CSet (Hash_String (vHash v)) v) vs)
      \<and> entries (ixTx ix') = foldl (recency_step 50000) (entries (ixTx ix))
          (map (\<lambda>tx. CSet (EncodeToString (txSig tx)) tx) (concat (map (blockTxs X) vs)))"
    if "ix_inv kvs ix" for kvs ix
    using that
  proof (induction vs arbitrary: kvs ix)
    case (Cons v vs)
    obtain ix1 where 1: "onNewVertex X ix v = Some (ix1, blockJSON X v)" "ix_inv (kvs @ vertexLog X v) ix1"
      "entries (ixBlock ix1) = recency_step 10000 (entries (ixBlock ix)) (CSet (Hash_String (vHash v)) v)"
      "entries (ixTx ix1) = foldl (recency_step 50000) (entries (ixTx ix)) (map (\<lambda>tx. CSet (EncodeToString (txSig tx)) tx) (blockTxs X v))"
      using onNewVertex_ok [OF Cons.prems] by blast
    with Cons.IH [OF 1(2)] show ?case by auto
  qed simp
  from this [OF 0(2)] show thesis unfolding 0(3,4) append_Nil
    by (elim exE conjE) (rule that, simp_all add: liveIndex_def 0(1))
qed

lemma history_get:
  assumes "ix_inv kvs ix"
  shows "\<exists>d. Map_Get (ixHistory ix) a = lastn 1000 (drop d (values_of a kvs))"
    "card (fst ` set kvs) \<le> 10000 \<Longrightarrow> Map_Get (ixHistory ix) a = lastn 1000 (values_of a kvs)"
    "a \<notin> fst ` set kvs \<Longrightarrow> Map_Get (ixHistory ix) a = []"
proof -
  have inv: "bm_inv 1000 10000 kvs (ixHistory ix)" using assms by (simp add: ix_inv_def)
  note d = bm_invD [OF inv]
  have none: "values_of a kvs = []" if "a \<notin> fst ` set kvs" using that by (auto simp: values_of_def filter_empty_conv)
  show "\<exists>d. Map_Get (ixHistory ix) a = lastn 1000 (drop d (values_of a kvs))"
  proof (cases "fmlookup (bmData (ixHistory ix)) a")
    case None
    then show ?thesis by (intro exI [of _ "length (values_of a kvs)"]) (simp add: Map_Get_def lastn_def)
  next
    case (Some sl)
    then show ?thesis using d(7) by (auto simp: Map_Get_def Slice_GetAll_def)
  qed
  show "Map_Get (ixHistory ix) a = lastn 1000 (values_of a kvs)" if "card (fst ` set kvs) \<le> 10000"
  proof (cases "fmlookup (bmData (ixHistory ix)) a")
    case None
    then have "a \<notin> set (bmKeyOrder (ixHistory ix))" using d(5) by (simp add: fmlookup_dom_iff)
    then have "a \<notin> fst ` set kvs" using d(8) that by simp
    then show ?thesis using None none by (simp add: Map_Get_def lastn_def)
  next
    case (Some sl)
    then show ?thesis using d(8) that by (auto simp: Map_Get_def Slice_GetAll_def)
  qed
  show "Map_Get (ixHistory ix) a = []" if "a \<notin> fst ` set kvs"
  proof -
    have "a |\<notin>| fmdom (bmData (ixHistory ix))" using d(5,6) that by auto
    then show ?thesis by (simp add: Map_Get_def fmdom_notD)
  qed
qed

lemma iterate_eq:
  "IterateDelegations K sm a ks fn r =
     (fold (\<lambda>v r. case accDelegations (view K sm a) v of Some x \<Rightarrow> fn v x r | None \<Rightarrow> r) ks r, touch K sm a)"
proof -
  have "fold (\<lambda>v r. r) ks r = r" by (induction ks) auto
  then show ?thesis
    by (auto simp: IterateDelegations_def view_def touch_def zeroAccount_def split: prod.splits option.splits)
qed

lemma log_keys: "a \<in> fst ` set (historyLog X vs) \<Longrightarrow> \<exists>w :: addr. a = EncodeToString (be_bytes 32 w)"
  by (auto simp: vertexLog_def txLog_def txRecord_def Let_def split: if_splits)

lemma pageParam_pos: "0 < sint (pageParam p)"
  by (auto simp: pageParam_def word_sless_alt split: option.split)

lemma limitParam_range: "0 < sint (limitParam l)" "sint (limitParam l) \<le> 100"
  by (auto simp: limitParam_def word_sless_alt word_sle_eq split: option.split)

text \<open>The slice of a page: clamping both ends to the length is what \<open>take\<close> and \<open>drop\<close> do.\<close>

lemma clamped_slice:
  "take (min (s + n) (length xs) - min s (length xs)) (drop (min s (length xs)) xs) = take n (drop s xs)"
  by (cases "s \<le> length xs"; cases "s + n \<le> length xs") (auto simp: min_def)

lemma apiBlocks_ok:
  assumes len: "length all < 2 ^ 62" and s: "0 \<le> sint start" and e: "0 \<le> sint (start + limit)" and l: "0 < sint limit"
    and st: "start = (page - 1) * limit"
  shows "\<exists>r. apiBlocks X all page limit = Some r
    \<and> bpBlocks r = map (blockJSON X) (take (unat limit) (drop (unat start) (rev all)))"
proof -
  let ?t = "of_nat (length all) :: i64"
  note ut = sint_len_i64(1) [OF len] and t = sint_len_i64(2) [OF len]
  have sum: "sint (start + limit) = sint start + sint limit" using add_nonneg_i64 [of start limit] s e l by simp
  have u: "unat start = nat (sint start)" "unat limit = nat (sint limit)" "unat (start + limit) = unat start + unat limit"
    using unat_nonneg_i64 s e l sum by (simp_all add: nat_add_distrib)
  let ?s = "if ?t <s start then ?t else start" and ?e = "if ?t <s start + limit then ?t else start + limit"
  have us: "unat ?s = min (unat start) (length all)" and ue: "unat ?e = min (unat start + unat limit) (length all)"
    using s l e t ut u sum by (auto simp: word_sless_alt min_def)
  have "\<not> ?s <s 0" "\<not> ?e <s ?s" using s l e t sum by (auto simp: word_sless_alt)
  then show ?thesis
    using clamped_slice [of "unat start" "unat limit" "rev all"]
    by (simp add: apiBlocks_def Let_def us ue st [symmetric])
qed

lemma wsBroadcast_clients:
  assumes "fset clients = set peers"
  shows "fset (snd (wsBroadcast write_ok peers clients)) = set (fst (wsBroadcast write_ok peers clients))"
proof -
  have "fset (foldl (\<lambda>cl c. if write_ok c then cl else cl |-| {|c|}) cl ps) = fset cl - {c \<in> set ps. \<not> write_ok c}" for cl ps
    by (induction ps arbitrary: cl) auto
  then show ?thesis using assms by (auto simp: wsBroadcast_def)
qed

section \<open>Properties\<close>



text \<open>The account endpoint. For every address given as 64 hexadecimal digits it answers balance,
  stake, licence stake, unbonding funds and delegations of that account, and changes no account. The
  history, however, is looked up under the text of the request: written with any capital digit the
  same address has an empty history.\<close>

theorem account_answer:
  assumes "liveIndex X vs = Some ix" and "DecodeString str = (be_bytes 32 a, True)"
    and "acc = view K sm a" and "distinct ds" and "set ds = dom (accDelegations acc)"
    and "apiAccount K ds sm ix str = (r, sm')"
  shows "view K sm' = view K sm
    \<and> (\<exists>resp. r = Inr resp \<and> arAddress resp = str
         \<and> arBalance resp = nvn (accBalance acc) \<and> arStake resp = nvn (accStake acc)
         \<and> arGrantStake resp = nvn (accGrantStake acc) \<and> arUnbonding resp = nvn (accUnbondingBalance acc)
         \<and> (\<forall>v. fmlookup (arDelegations resp) (hex_id v) = map_option nvn (accDelegations acc v))
         \<and> (str = hex_id a \<longrightarrow> arHistory resp = Map_Get (ixHistory ix) (hex_id a))
         \<and> (str \<noteq> hex_id a \<longrightarrow> arHistory resp = []))"
proof -
  obtain ix' where ix: "liveIndex X vs = Some ix'" "ix_inv (historyLog X vs) ix'" by (rule live_ok)
  then have inv: "ix_inv (historyLog X vs) ix" using assms(1) by simp
  have hist: "Map_Get (ixHistory ix) str = []" if "str \<noteq> hex_id a"
  proof (rule history_get(3) [OF inv], rule notI)
    assume "str \<in> fst ` set (historyLog X vs)"
    then obtain w :: addr where w: "str = hex_id w" using log_keys by blast
    then have "be_bytes 32 w = be_bytes 32 a" using assms(2) by simp
    then show False using that w by simp
  qed
  define dels where "dels = fold (\<lambda>v m. case accDelegations acc v of Some x \<Rightarrow> fmupd (hex_id v) (nvn x) m | None \<Rightarrow> m) ds fmempty"
  have "fmlookup (fold (\<lambda>v m. case accDelegations acc v of Some x \<Rightarrow> fmupd (hex_id v) (nvn x) m | None \<Rightarrow> m) ds m0) (hex_id v)
      = (if v \<in> set ds \<and> accDelegations acc v \<noteq> None then map_option nvn (accDelegations acc v) else fmlookup m0 (hex_id v))" for v m0
    by (induction ds arbitrary: m0) (auto split: option.split)
  then have "fmlookup dels (hex_id v) = map_option nvn (accDelegations acc v)" for v
    unfolding dels_def using assms(5) by auto
  moreover have "str \<noteq> []" using assms(2) length_be_bytes [of 32 a] by (cases str) (auto simp del: be_bytes.simps)
  ultimately show ?thesis using assms(2,3,6) hist
    by (auto simp: apiAccount_def get_eq iterate_eq Let_def simp flip: dels_def [unfolded assms(3)])
qed

theorem account_answer_witness:
  "\<exists>ix resp sm'. liveIndex demo_codec [demo_vertex] = Some ix
     \<and> apiAccount mem_badger [] demo_sm ix (replicate 64 (CHR ''A'')) = (Inr resp, sm')
     \<and> arBalance resp = nvn 0 \<and> arHistory resp = []"
proof -
  let ?a = "array32 (replicate 32 0xAA)" and ?str = "replicate 64 (CHR ''A'')"
  obtain ix where ix: "liveIndex demo_codec [demo_vertex] = Some ix" by (rule live_ok)
  have dec: "DecodeString ?str = (replicate 32 0xAA, True)" by code_simp
  then have d: "DecodeString ?str = (be_bytes 32 ?a, True)" by (simp add: be_bytes_array32 del: be_bytes.simps)
  obtain r sm' where r: "apiAccount mem_badger [] demo_sm ix ?str = (r, sm')" by fastforce
  have "?str \<noteq> hex_id ?a" unfolding be_bytes_array32 [OF length_replicate] by code_simp
  moreover have "hd (be_bytes 32 (1 :: addr)) = 0 \<and> hd (be_bytes 32 (2 :: addr)) = 0" by code_simp
  then have "?a \<noteq> 1 \<and> ?a \<noteq> 2"
    using be_bytes_array32 [of "replicate 32 (0xAA :: 8 word)"] by (auto simp del: be_bytes.simps)
  ultimately show ?thesis
    using account_answer [OF ix d refl _ _ r] ix r by (auto simp: demo_view zeroAccount_def)
qed

text \<open>Paging through the blocks. With \<open>start = (page - 1) * limit\<close> in 64-bit arithmetic, the endpoint
  panics exactly when \<open>start\<close> or \<open>start + limit\<close> is negative as a signed number, and otherwise returns
  the blocks from position \<open>start\<close> on, newest first, at most \<open>limit\<close> of them. When the product does not
  overflow that is the requested page, so the pages together list every block once; a page number near
  \<open>2\<^sup>6\<^sup>3 / limit\<close> makes the handler panic.\<close>

theorem blocks_page:
  assumes "length all < 2 ^ 62" and "page = pageParam p" and "limit = limitParam l"
    and "start = (page - 1) * limit"
  shows "(start <s 0 \<or> start + limit <s 0 \<longrightarrow> apiBlocks X all page limit = None)
    \<and> (\<not> (start <s 0 \<or> start + limit <s 0) \<longrightarrow>
        (\<exists>r. apiBlocks X all page limit = Some r
           \<and> bpBlocks r = map (blockJSON X) (take (unat limit) (drop (unat start) (rev all)))
           \<and> length (bpBlocks r) \<le> 100))
    \<and> (sint page * sint limit < 2 ^ 63 \<longrightarrow>
        \<not> (start <s 0 \<or> start + limit <s 0) \<and> unat start = nat (sint page - 1) * nat (sint limit))"
proof (intro conjI impI)
  have p: "0 < sint page" and l: "0 < sint limit" "sint limit \<le> 100"
    using pageParam_pos limitParam_range assms(2,3) by simp_all
  show "apiBlocks X all page limit = None" if "start <s 0 \<or> start + limit <s 0"
    using that sint_len_i64 [OF assms(1)] unfolding apiBlocks_def Let_def assms(4) [symmetric]
    by (auto simp: word_sless_alt)
  show "\<exists>r. apiBlocks X all page limit = Some r
           \<and> bpBlocks r = map (blockJSON X) (take (unat limit) (drop (unat start) (rev all)))
           \<and> length (bpBlocks r) \<le> 100" if "\<not> (start <s 0 \<or> start + limit <s 0)"
  proof -
    have "0 \<le> sint start" "0 \<le> sint (start + limit)" using that by (auto simp: word_sless_alt)
    moreover have "unat limit \<le> 100" using l unat_nonneg_i64 [of limit] by simp
    ultimately show ?thesis using apiBlocks_ok [OF assms(1) _ _ l(1) assms(4), of X] by auto
  qed
  assume prod: "sint page * sint limit < 2 ^ 63"
  have p1: "sint (page - 1) = sint page - 1" using sint_sub_i64 [of page 1] p sint_i64_bounds(2) [of page] by simp
  have "(sint page - 1) * sint limit + sint limit = sint page * sint limit" by (simp add: algebra_simps)
  then have m: "(sint page - 1) * sint limit + sint limit < 2 ^ 63" "0 \<le> (sint page - 1) * sint limit" using prod p l by simp_all
  then have st: "unat start = nat (sint page - 1) * nat (sint limit)" "sint start = (sint page - 1) * sint limit"
    using sint_mult_i64 [of "page - 1" limit] p l unfolding assms(4) p1 by simp_all
  then show "unat start = nat (sint page - 1) * nat (sint limit)" by simp
  show "\<not> (start <s 0 \<or> start + limit <s 0)"
    using add_nonneg_i64(1) [of start limit] st(2) m l by (auto simp: word_sless_alt)
qed

theorem blocks_page_witness:
  "\<forall>X v v' v''. (\<exists>r. apiBlocks X [v, v', v''] (pageParam ''2'') (limitParam ''2'') = Some r \<and> bpBlocks r = [blockJSON X v])
   \<and> apiBlocks X [v, v', v''] (pageParam ''4611686018427387905'') (limitParam ''2'') = None"
proof (intro allI conjI)
  fix X v v' v''
  have p: "pageParam ''2'' = 2" "limitParam ''2'' = 2" "pageParam ''4611686018427387905'' = 4611686018427387905" 
    by (simp_all add: pageParam_def limitParam_def Atoi_def Let_def decimal_def isDigit_def word_sless_alt word_sle_eq)
  have s: "\<not> ((2 - 1) * 2 <s (0 :: i64) \<or> (2 - 1) * 2 + 2 <s (0 :: i64))" "(4611686018427387905 - 1) * 2 <s (0 :: i64)"
    by (simp_all add: word_sless_alt)
  show "\<exists>r. apiBlocks X [v, v', v''] (pageParam ''2'') (limitParam ''2'') = Some r \<and> bpBlocks r = [blockJSON X v]"
    using blocks_page [of "[v, v', v'']" 2 "''2''" 2 "''2''" "(2 - 1) * 2" X] s(1) unfolding p by auto
  show "apiBlocks X [v, v', v''] (pageParam ''4611686018427387905'') (limitParam ''2'') = None"
    using blocks_page [of "[v, v', v'']" 4611686018427387905 "''4611686018427387905''" 2 "''2''" "(4611686018427387905 - 1) * 2" X] s(2)
    unfolding p by simp
qed

end
