(* ===== verification/Wallet.thy ===== *)
theory Wallet
  imports Tx_Types Merkle_Crypto Pulse_Store
begin

text \<open>
  \<open>core/wallet/wallet.go\<close>: encrypted wallets, their manager, signing.

  Key derivation (PBKDF2) and AES-256-GCM are parameters (\<open>vault\<close>), with the law that a ciphertext
  opens to its plaintext under its key. The data directory is a map from file names to the fields
  that the JSON file of a wallet has; \<open>disk_ok\<close> says whether a write succeeds. Random bytes and clock
  readings are arguments (\<open>None\<close> when the random source fails). A \<open>nil\<close> private key is \<open>None\<close>.
  Strings are lists of ASCII characters.
\<close>

datatype WalletErr = ErrWalletLocked | ErrWalletNotFound | ErrInvalidPassword | ErrInvalidMnemonic
  | ErrInvalidFrom | ErrInvalidTo | ErrRandom | ErrEncrypt | ErrSave

record WalletFile =
  wAddress :: string
  wPublicKey :: string
  wEncPrivKey :: bytes
  wSalt :: bytes
  wCreatedAt :: i64
  wLabel :: string

record Wallet = WalletFile +
  wPrivateKey :: "bytes option"
  wUnlocked :: bool

record WalletInfo =
  wiAddress :: string
  wiPublicKey :: string
  wiLabel :: string
  wiCreatedAt :: i64
  wiUnlocked :: bool

record vault =
  pbkdf2 :: "bytes \<Rightarrow> bytes \<Rightarrow> bytes"
  gcm_seal :: "bytes \<Rightarrow> bytes \<Rightarrow> bytes \<Rightarrow> bytes option"
  gcm_open :: "bytes \<Rightarrow> bytes \<Rightarrow> bytes \<Rightarrow> bytes option"

text \<open>The documented behaviour of the two libraries: \<open>pbkdf2.Key\<close> returns the 32 bytes that were asked
  for, AES-GCM seals under every key of that length, a sealed message opens under its key, and
  (authenticity, taken as absolute) whenever a sealed message opens, it opens to what was sealed.\<close>

definition vault_ok :: "vault \<Rightarrow> bool" where
  "vault_ok V \<longleftrightarrow> (\<forall>pw salt. length (pbkdf2 V pw salt) = 32)
     \<and> (\<forall>key nonce msg. length key = 32 \<longrightarrow> gcm_seal V key nonce msg \<noteq> None)
     \<and> (\<forall>key nonce msg c. gcm_seal V key nonce msg = Some c \<longrightarrow>
          gcm_open V key nonce c = Some msg
          \<and> (\<forall>key' msg'. gcm_open V key' nonce c = Some msg' \<longrightarrow> msg' = msg))"

record Manager =
  mgWallets :: "(string, Wallet) fmap"
  mgDataDir :: string
  mgDisk :: "(string, WalletFile) fmap"

definition wordList :: "string list" where
  "wordList =
    [''abandon'', ''ability'', ''able'', ''about'', ''above'', ''absent'', ''absorb'', ''abstract'',
     ''absurd'', ''abuse'', ''access'', ''accident'', ''account'', ''accuse'', ''achieve'', ''acid'',
     ''acoustic'', ''acquire'', ''across'', ''act'', ''action'', ''actor'', ''actress'', ''actual'',
     ''adapt'', ''add'', ''addict'', ''address'', ''adjust'', ''admit'', ''adult'', ''advance'',
     ''advice'', ''aerobic'', ''affair'', ''afford'', ''afraid'', ''again'', ''age'', ''agent'',
     ''agree'', ''ahead'', ''aim'', ''air'', ''airport'', ''aisle'', ''alarm'', ''album'',
     ''alert'', ''alien'', ''all'', ''alley'', ''allow'', ''almost'', ''alone'', ''alpha'',
     ''already'', ''also'', ''alter'', ''always'', ''amateur'', ''amazing'', ''among'', ''amount'',
     ''anchor'', ''ancient'', ''anger'', ''angle'', ''angry'', ''animal'', ''ankle'', ''announce'',
     ''annual'', ''another'', ''answer'', ''antenna'', ''antique'', ''anxiety'', ''any'', ''apart'',
     ''apology'', ''appear'', ''apple'', ''approve'', ''april'', ''arch'', ''arctic'', ''area'',
     ''arena'', ''argue'', ''arm'', ''armed'', ''armor'', ''army'', ''around'', ''arrange'',
     ''arrest'', ''arrive'', ''arrow'', ''art'', ''artefact'', ''artist'', ''artwork'', ''ask'',
     ''aspect'', ''assault'', ''asset'', ''assist'', ''assume'', ''asthma'', ''athlete'', ''atom'',
     ''attack'', ''attend'', ''attitude'', ''attract'', ''auction'', ''audit'', ''august'', ''aunt'',
     ''author'', ''auto'', ''autumn'', ''average'', ''avocado'', ''avoid'', ''awake'', ''aware'',
     ''away'', ''awesome'', ''awful'', ''awkward'', ''axis'', ''baby'', ''bachelor'', ''bacon'',
     ''badge'', ''bag'', ''balance'', ''balcony'', ''ball'', ''bamboo'', ''banana'', ''banner'',
     ''bar'', ''barely'', ''bargain'', ''barrel'', ''base'', ''basic'', ''basket'', ''battle'',
     ''beach'', ''bean'', ''beauty'', ''because'', ''become'', ''beef'', ''before'', ''begin'',
     ''behave'', ''behind'', ''believe'', ''below'', ''belt'', ''bench'', ''benefit'', ''best'',
     ''betray'', ''better'', ''between'', ''beyond'', ''bicycle'', ''bid'', ''bike'', ''bind'',
     ''biology'', ''bird'', ''birth'', ''bitter'', ''black'', ''blade'', ''blame'', ''blanket'',
     ''blast'', ''bleak'', ''bless'', ''blind'', ''blood'', ''blossom'', ''blouse'', ''blue'',
     ''blur'', ''blush'', ''board'', ''boat'', ''body'', ''boil'', ''bomb'', ''bone'',
     ''bonus'', ''book'', ''boost'', ''border'', ''boring'', ''borrow'', ''boss'', ''bottom'',
     ''bounce'', ''box'', ''boy'', ''bracket'', ''brain'', ''brand'', ''brass'', ''brave'',
     ''bread'', ''breeze'', ''brick'', ''bridge'', ''brief'', ''bright'', ''bring'', ''brisk'',
     ''broccoli'', ''broken'', ''bronze'', ''broom'', ''brother'', ''brown'', ''brush'', ''bubble'',
     ''buddy'', ''budget'', ''buffalo'', ''build'', ''bulb'', ''bulk'', ''bullet'', ''bundle'',
     ''bunker'', ''burden'', ''burger'', ''burst'', ''bus'', ''business'', ''busy'', ''butter'',
     ''buyer'', ''buzz'', ''cabbage'', ''cabin'', ''cable'', ''cactus'', ''cage'', ''cake'']"

section \<open>Keys\<close>

text \<open>\<open>idx i\<close> is the byte that the random source put into the buffer for word \<open>i\<close> (zero when it failed:
  its error is ignored).\<close>

definition generateMnemonic :: "nat \<Rightarrow> (nat \<Rightarrow> u8) \<Rightarrow> string list" where
  "generateMnemonic wordCount idx = map (\<lambda>i. wordList ! (unat (idx i) mod length wordList)) [0..<wordCount]"

fun join_words :: "string list \<Rightarrow> string" where
  "join_words [] = []"
| "join_words [w] = w"
| "join_words (w # ws) = w @ '' '' @ join_words ws"

definition mnemonicToSeed :: "crypto \<Rightarrow> string list \<Rightarrow> bytes" where
  "mnemonicToSeed C mnemonic =
     (let h = be_bytes 32 (sha256 C (string_bytes (join_words mnemonic)))
      in h @ be_bytes 32 (sha256 C h))"

definition deriveKey :: "vault \<Rightarrow> string \<Rightarrow> bytes \<Rightarrow> bytes" where
  "deriveKey V password salt = pbkdf2 V (string_bytes password) salt"

text \<open>The nonce of 12 bytes is stored in front of the ciphertext.\<close>

definition encryptAESGCM :: "vault \<Rightarrow> 96 word option \<Rightarrow> bytes \<Rightarrow> bytes \<Rightarrow> bytes option" where
  "encryptAESGCM V nonce key plaintext =
     (case nonce of
        None \<Rightarrow> None
      | Some n \<Rightarrow> map_option (\<lambda>c. be_bytes 12 n @ c) (gcm_seal V key (be_bytes 12 n) plaintext))"

definition decryptAESGCM :: "vault \<Rightarrow> bytes \<Rightarrow> bytes \<Rightarrow> bytes option" where
  "decryptAESGCM V key ciphertext =
     (if length ciphertext < 12 then None else gcm_open V key (take 12 ciphertext) (drop 12 ciphertext))"

definition lowerASCII :: "char \<Rightarrow> char" where
  "lowerASCII c = (let k = of_char c :: nat in if 65 \<le> k \<and> k \<le> 90 then char_of (k + 32) else c)"

text \<open>\<open>strings.ToLower\<close> on the UTF-8 bytes of a word. Two runes outside ASCII have an ASCII letter as their lower case: the Kelvin sign
  U+212A (\<open>k\<close>) and the dotted capital U+0130 (\<open>i\<close>). Every other one stays outside ASCII; the model leaves its bytes alone,
  which makes no difference to the comparison with the word list, which is ASCII.\<close>

fun toLower :: "string \<Rightarrow> string" where
  "toLower (a # b # c # s) =
     (if a = CHR 0xE2 \<and> b = CHR 0x84 \<and> c = CHR 0xAA then CHR ''k'' # toLower s
      else if a = CHR 0xC4 \<and> b = CHR 0xB0 then CHR ''i'' # toLower (c # s)
      else lowerASCII a # toLower (b # c # s))"
| "toLower [a, b] = (if a = CHR 0xC4 \<and> b = CHR 0xB0 then ''i'' else [lowerASCII a, lowerASCII b])"
| "toLower [a] = [lowerASCII a]"
| "toLower [] = []"

section \<open>The manager\<close>

definition Info :: "Wallet \<Rightarrow> WalletInfo" where
  "Info w = \<lparr>wiAddress = wAddress w, wiPublicKey = wPublicKey w, wiLabel = wLabel w,
     wiCreatedAt = wCreatedAt w, wiUnlocked = wUnlocked w\<rparr>"

definition wallet_file :: "string \<Rightarrow> string" where
  "wallet_file address = ''wallet_'' @ take 16 address @ ''.json''"

definition to_file :: "Wallet \<Rightarrow> WalletFile" where
  "to_file w = \<lparr>wAddress = wAddress w, wPublicKey = wPublicKey w, wEncPrivKey = wEncPrivKey w,
     wSalt = wSalt w, wCreatedAt = wCreatedAt w, wLabel = wLabel w\<rparr>"

definition of_file :: "WalletFile \<Rightarrow> Wallet" where
  "of_file f = \<lparr>wAddress = wAddress f, wPublicKey = wPublicKey f, wEncPrivKey = wEncPrivKey f,
     wSalt = wSalt f, wCreatedAt = wCreatedAt f, wLabel = wLabel f, wPrivateKey = None, wUnlocked = False\<rparr>"

text \<open>\<open>names\<close> are the files that \<open>Glob\<close> finds, in its order.\<close>

definition loadWallets :: "string list \<Rightarrow> Manager \<Rightarrow> Manager" where
  "loadWallets names m =
     (if mgDataDir m = [] then m
      else foldl (\<lambda>m n. case fmlookup (mgDisk m) n of
               None \<Rightarrow> m
             | Some f \<Rightarrow> m\<lparr>mgWallets := fmupd (wAddress f) (of_file f) (mgWallets m)\<rparr>) m names)"

definition NewManager :: "string list \<Rightarrow> string \<Rightarrow> (string, WalletFile) fmap \<Rightarrow> Manager" where
  "NewManager names dataDir disk = loadWallets names \<lparr>mgWallets = fmempty, mgDataDir = dataDir, mgDisk = disk\<rparr>"

definition saveWallet :: "bool \<Rightarrow> Manager \<Rightarrow> Wallet \<Rightarrow> WalletErr option \<times> Manager" where
  "saveWallet disk_ok m w =
     (if mgDataDir m = [] then (None, m)
      else if \<not> disk_ok then (Some ErrSave, m)
      else (None, m\<lparr>mgDisk := fmupd (wallet_file (wAddress w)) (to_file w) (mgDisk m)\<rparr>))"

record CreateResponse =
  crAddress :: string
  crPublicKey :: string
  crMnemonic :: "string list"
  crCreatedAt :: i64

record randomness =
  rdSalt :: "128 word option"
  rdNonce :: "96 word option"

text \<open>Steps 2 to 6 of \<open>Create\<close>, and the same steps of \<open>Import\<close>: derive, encrypt, register, save.\<close>

definition installWallet :: "crypto \<Rightarrow> vault \<Rightarrow> randomness \<Rightarrow> i64 \<Rightarrow> bool \<Rightarrow> Manager \<Rightarrow> string list \<Rightarrow> string \<Rightarrow> string
    \<Rightarrow> (WalletErr + Wallet) \<times> Manager" where
  "installWallet C V rnd now disk_ok m mnemonic password label =
     (let seed = mnemonicToSeed C mnemonic;
          privateKey = ed_key_from_seed C (take 32 seed);
          address = EncodeToString (be_bytes 32 (ed_public C privateKey)) in
      case rdSalt rnd of
        None \<Rightarrow> (Inl ErrRandom, m)
      | Some saltw \<Rightarrow>
          let salt = be_bytes 16 saltw in
          (case encryptAESGCM V (rdNonce rnd) (deriveKey V password salt) privateKey of
             None \<Rightarrow> (Inl ErrEncrypt, m)
           | Some enc \<Rightarrow>
               let w = \<lparr>wAddress = address, wPublicKey = address, wEncPrivKey = enc, wSalt = salt,
                        wCreatedAt = now, wLabel = label, wPrivateKey = Some privateKey, wUnlocked = True\<rparr>;
                   m = m\<lparr>mgWallets := fmupd address w (mgWallets m)\<rparr>
               in case saveWallet disk_ok m w of
                    (Some err, m) \<Rightarrow> (Inl err, m)
                  | (None, m) \<Rightarrow> (Inr w, m)))"

definition Create :: "crypto \<Rightarrow> vault \<Rightarrow> (nat \<Rightarrow> u8) \<Rightarrow> randomness \<Rightarrow> i64 \<Rightarrow> bool \<Rightarrow> Manager \<Rightarrow> string \<Rightarrow> string
    \<Rightarrow> (WalletErr + CreateResponse) \<times> Manager" where
  "Create C V idx rnd now disk_ok m password label =
     (let mnemonic = generateMnemonic 12 idx in
      case installWallet C V rnd now disk_ok m mnemonic password label of
        (Inl err, m) \<Rightarrow> (Inl err, m)
      | (Inr w, m) \<Rightarrow>
          (Inr \<lparr>crAddress = wAddress w, crPublicKey = wAddress w, crMnemonic = mnemonic,
                crCreatedAt = wCreatedAt w\<rparr>, m))"

definition Import :: "crypto \<Rightarrow> vault \<Rightarrow> randomness \<Rightarrow> i64 \<Rightarrow> bool \<Rightarrow> Manager \<Rightarrow> string list \<Rightarrow> string \<Rightarrow> string
    \<Rightarrow> (WalletErr + WalletInfo) \<times> Manager" where
  "Import C V rnd now disk_ok m mnemonic password label =
     (if length mnemonic \<noteq> 12 then (Inl ErrInvalidMnemonic, m)
      else if \<not> list_all (\<lambda>word. toLower word \<in> set wordList) mnemonic then (Inl ErrInvalidMnemonic, m)
      else case installWallet C V rnd now disk_ok m mnemonic password label of
             (Inl err, m) \<Rightarrow> (Inl err, m)
           | (Inr w, m) \<Rightarrow> (Inr (Info w), m))"

definition updWallet :: "Manager \<Rightarrow> string \<Rightarrow> (Wallet \<Rightarrow> Wallet) \<Rightarrow> Manager" where
  "updWallet m a f = m\<lparr>mgWallets := (case fmlookup (mgWallets m) a of
     Some w \<Rightarrow> fmupd a (f w) (mgWallets m) | None \<Rightarrow> mgWallets m)\<rparr>"

definition Unlock :: "vault \<Rightarrow> Manager \<Rightarrow> string \<Rightarrow> string \<Rightarrow> WalletErr option \<times> Manager" where
  "Unlock V m address password =
     (case fmlookup (mgWallets m) address of
        None \<Rightarrow> (Some ErrWalletNotFound, m)
      | Some w \<Rightarrow>
          (case decryptAESGCM V (deriveKey V password (wSalt w)) (wEncPrivKey w) of
             None \<Rightarrow> (Some ErrInvalidPassword, m)
           | Some priv \<Rightarrow> (None, updWallet m address (\<lambda>w. w\<lparr>wPrivateKey := Some priv, wUnlocked := True\<rparr>))))"

definition Wallet_Lock :: "Manager \<Rightarrow> string \<Rightarrow> WalletErr option \<times> Manager" where
  "Wallet_Lock m address =
     (case fmlookup (mgWallets m) address of
        None \<Rightarrow> (Some ErrWalletNotFound, m)
      | Some w \<Rightarrow> (None, updWallet m address (\<lambda>w. w\<lparr>wPrivateKey := None, wUnlocked := False\<rparr>)))"

definition Wallet_Get :: "Manager \<Rightarrow> string \<Rightarrow> WalletErr + WalletInfo" where
  "Wallet_Get m address =
     (case fmlookup (mgWallets m) address of None \<Rightarrow> Inl ErrWalletNotFound | Some w \<Rightarrow> Inr (Info w))"

definition Wallet_List :: "string list \<Rightarrow> Manager \<Rightarrow> WalletInfo list" where
  "Wallet_List ks m = map Info (List.map_filter (fmlookup (mgWallets m)) ks)"

record SignResponse =
  srTxHash :: string
  srSignature :: string
  srRawTx :: string

text \<open>\<open>Sign\<close> changes the transaction it is given. \<open>copy(tx.From[:], pubKey)\<close> overwrites as many
  bytes as the decoded key has.\<close>

definition Wallet_Sign :: "crypto \<Rightarrow> Manager \<Rightarrow> string \<Rightarrow> Transaction \<Rightarrow> (WalletErr + SignResponse) \<times> Transaction" where
  "Wallet_Sign C m address tx =
     (case fmlookup (mgWallets m) address of
        None \<Rightarrow> (Inl ErrWalletNotFound, tx)
      | Some w \<Rightarrow>
          if \<not> wUnlocked w then (Inl ErrWalletLocked, tx)
          else
            let pubKey = fst (DecodeString (wPublicKey w));
                tx = tx\<lparr>txFrom := array32 (pubKey @ drop (length pubKey) (be_bytes 32 (txFrom tx)))\<rparr>;
                sigData = SerializeForSigning tx;
                signature = ed_sign C (case wPrivateKey w of Some k \<Rightarrow> k | None \<Rightarrow> []) sigData
            in (Inr \<lparr>srTxHash = EncodeToString (take 32 signature), srSignature = EncodeToString signature,
                     srRawTx = EncodeToString sigData\<rparr>,
                tx\<lparr>txSig := signature\<rparr>))"

definition CreateTransaction :: "crypto \<Rightarrow> Manager \<Rightarrow> string \<Rightarrow> string \<Rightarrow> u64 \<Rightarrow> u64 \<Rightarrow> u64 \<Rightarrow> TxType
    \<Rightarrow> WalletErr + Transaction" where
  "CreateTransaction C m from_addr to_addr amount txfee nonce typ =
     (case fmlookup (mgWallets m) from_addr of
        None \<Rightarrow> Inl ErrWalletNotFound
      | Some w \<Rightarrow>
          if \<not> wUnlocked w then Inl ErrWalletLocked
          else
            let (fromBytes, fromOk) = DecodeString from_addr; (toBytes, toOk) = DecodeString to_addr in
            if \<not> fromOk \<or> length fromBytes \<noteq> 32 then Inl ErrInvalidFrom
            else if \<not> toOk \<or> length toBytes \<noteq> 32 then Inl ErrInvalidTo
            else
              let tx = \<lparr>txType = typ, txFrom = array32 fromBytes, txTo = array32 toBytes, txAmount = amount,
                        txFee = txfee, txNonce = nonce, txTimestamp = 0, txSig = []\<rparr>
              in Inr (tx\<lparr>txSig := ed_sign C (case wPrivateKey w of Some k \<Rightarrow> k | None \<Rightarrow> []) (SerializeForSigning tx)\<rparr>))"

text \<open>\<open>Delete\<close> slices the first 16 characters of the address, and panics (\<open>None\<close>) when it is shorter.\<close>

definition Wallet_Delete :: "vault \<Rightarrow> Manager \<Rightarrow> string \<Rightarrow> string \<Rightarrow> (WalletErr option \<times> Manager) option" where
  "Wallet_Delete V m address password =
     (case Unlock V m address password of
        (Some err, m) \<Rightarrow> Some (Some err, m)
      | (None, m) \<Rightarrow>
          let m = m\<lparr>mgWallets := fmdrop address (mgWallets m)\<rparr> in
          if mgDataDir m = [] then Some (None, m)
          else if length address < 16 then None
          else Some (None, m\<lparr>mgDisk := fmdrop (wallet_file address) (mgDisk m)\<rparr>))"

definition ExportPrivateKey :: "Manager \<Rightarrow> string \<Rightarrow> WalletErr + string" where
  "ExportPrivateKey m address =
     (case fmlookup (mgWallets m) address of
        None \<Rightarrow> Inl ErrWalletNotFound
      | Some w \<Rightarrow> if \<not> wUnlocked w then Inl ErrWalletLocked
          else Inr (EncodeToString (case wPrivateKey w of Some k \<Rightarrow> k | None \<Rightarrow> [])))"

definition QuickCreate :: "crypto \<Rightarrow> bytes option \<Rightarrow> (KeyPair \<times> string) option" where
  "QuickCreate C entropy = map_option (\<lambda>kp. (kp, EncodeToString (kpPublicKey kp))) (GenerateKeyPair C entropy)"

section \<open>Lemmas\<close>

lemma length_wordList: "length wordList = 256"
  by (simp add: wordList_def)

lemma words_lower: "list_all (\<lambda>w. toLower w = w) wordList"
  by (simp add: wordList_def lowerASCII_def)

lemma generated_words:
  "length (generateMnemonic n idx) = n"
  "list_all (\<lambda>word. toLower word \<in> set wordList) (generateMnemonic n idx)"
proof -
  have "toLower (wordList ! i) \<in> set wordList" if "i < 256" for i
    using words_lower that length_wordList by (simp add: list_all_length)
  then show "list_all (\<lambda>word. toLower word \<in> set wordList) (generateMnemonic n idx)"
    by (auto simp: generateMnemonic_def list_all_iff length_wordList)
qed (simp add: generateMnemonic_def)

text \<open>The key pair of a mnemonic.\<close>

definition mnemonic_key :: "crypto \<Rightarrow> string list \<Rightarrow> bytes" where
  "mnemonic_key C mn = ed_key_from_seed C (take 32 (mnemonicToSeed C mn))"

definition key_address :: "crypto \<Rightarrow> bytes \<Rightarrow> string" where
  "key_address C k = EncodeToString (be_bytes 32 (ed_public C k))"

text \<open>A stored wallet: it is filed under the address of a derived key, and its ciphertext is a sealing
  of that key.\<close>

definition file_ok :: "crypto \<Rightarrow> vault \<Rightarrow> bytes \<Rightarrow> 'z WalletFile_scheme \<Rightarrow> bool" where
  "file_ok C V k w \<longleftrightarrow> (\<exists>seed. k = ed_key_from_seed C seed) \<and> wAddress w = key_address C k
     \<and> wPublicKey w = key_address C k
     \<and> (\<exists>key n c. wEncPrivKey w = n @ c \<and> length n = 12 \<and> gcm_seal V key n k = Some c)"

definition wallet_ok :: "crypto \<Rightarrow> vault \<Rightarrow> string \<Rightarrow> Wallet \<Rightarrow> bool" where
  "wallet_ok C V a w \<longleftrightarrow> wAddress w = a
     \<and> (\<exists>k. file_ok C V k w \<and> wPrivateKey w = (if wUnlocked w then Some k else None))"

definition mg_inv :: "crypto \<Rightarrow> vault \<Rightarrow> Manager \<Rightarrow> bool" where
  "mg_inv C V m \<longleftrightarrow> (\<forall>a w. fmlookup (mgWallets m) a = Some w \<longrightarrow> wallet_ok C V a w)
     \<and> (\<forall>n f. fmlookup (mgDisk m) n = Some f \<longrightarrow> n = wallet_file (wAddress f) \<and> (\<exists>k. file_ok C V k f))"

text \<open>The wallet that the installation steps build, given what the random source and the clock returned.\<close>

definition sealed_wallet :: "crypto \<Rightarrow> vault \<Rightarrow> 128 word \<Rightarrow> 96 word \<Rightarrow> i64 \<Rightarrow> bytes \<Rightarrow> string \<Rightarrow> string \<Rightarrow> Wallet" where
  "sealed_wallet C V salt n now k pw lb =
     \<lparr>wAddress = key_address C k, wPublicKey = key_address C k,
      wEncPrivKey = be_bytes 12 n @ the (gcm_seal V (deriveKey V pw (be_bytes 16 salt)) (be_bytes 12 n) k),
      wSalt = be_bytes 16 salt, wCreatedAt = now, wLabel = lb, wPrivateKey = Some k, wUnlocked = True\<rparr>"

lemma seal_derived:
  assumes "vault_ok V"
  shows "gcm_seal V (deriveKey V pw salt) n k = Some (the (gcm_seal V (deriveKey V pw salt) n k))"
  using assms by (simp add: vault_ok_def deriveKey_def)

lemma installWallet_eq:
  assumes "vault_ok V"
  shows "installWallet C V rnd now ok m mn pw lb =
    (case (rdSalt rnd, rdNonce rnd) of
       (None, _) \<Rightarrow> (Inl ErrRandom, m)
     | (Some _, None) \<Rightarrow> (Inl ErrEncrypt, m)
     | (Some salt, Some n) \<Rightarrow>
         let w = sealed_wallet C V salt n now (mnemonic_key C mn) pw lb;
             m1 = m\<lparr>mgWallets := fmupd (wAddress w) w (mgWallets m)\<rparr>
         in if mgDataDir m = [] then (Inr w, m1)
            else if ok then (Inr w, m1\<lparr>mgDisk := fmupd (wallet_file (wAddress w)) (to_file w) (mgDisk m)\<rparr>)
            else (Inl ErrSave, m1))"
proof -
  have enc: "encryptAESGCM V (Some n) (deriveKey V pw s) k
    = Some (be_bytes 12 n @ the (gcm_seal V (deriveKey V pw s) (be_bytes 12 n) k))" for n s k
    using seal_derived [OF assms, of pw s] by (simp add: encryptAESGCM_def)
  have "encryptAESGCM V None key k = None" for key k by (simp add: encryptAESGCM_def)
  with enc show ?thesis
    by (cases "rdSalt rnd"; cases "rdNonce rnd")
      (simp_all add: installWallet_def saveWallet_def sealed_wallet_def mnemonic_key_def key_address_def Let_def)
qed

lemma sealed_ok:
  assumes "vault_ok V"
  shows "file_ok C V (mnemonic_key C mn) (sealed_wallet C V salt n now (mnemonic_key C mn) pw lb)"
proof -
  have "length (be_bytes 12 n) = 12" by simp
  then show ?thesis using seal_derived [OF assms]
    unfolding file_ok_def sealed_wallet_def mnemonic_key_def WalletFile.simps Wallet.simps by blast
qed

lemma sealed_opens:
  assumes "vault_ok V"
  shows "decryptAESGCM V (deriveKey V pw (wSalt (sealed_wallet C V salt n now k pw lb)))
    (wEncPrivKey (sealed_wallet C V salt n now k pw lb)) = Some k"
  using assms seal_derived [OF assms, of pw "be_bytes 16 salt" "be_bytes 12 n" k]
  by (simp add: decryptAESGCM_def sealed_wallet_def vault_ok_def)

lemma wAddress_to_file: "wAddress (to_file w) = wAddress w"
  by (simp add: to_file_def)

lemma file_ok_to_file: "file_ok C V k w \<Longrightarrow> file_ok C V k (to_file w)"
  by (simp add: file_ok_def to_file_def)

lemma mg_inv_wallet: "mg_inv C V m \<Longrightarrow> fmlookup (mgWallets m) a = Some w \<Longrightarrow> wallet_ok C V a w"
  unfolding mg_inv_def by blast

lemma mg_inv_file: "mg_inv C V m \<Longrightarrow> fmlookup (mgDisk m) n = Some f \<Longrightarrow> n = wallet_file (wAddress f) \<and> (\<exists>k. file_ok C V k f)"
  unfolding mg_inv_def by blast

lemma mg_inv_upd:
  "mg_inv C V m \<Longrightarrow> wallet_ok C V a w \<Longrightarrow> mg_inv C V (m\<lparr>mgWallets := fmupd a w (mgWallets m)\<rparr>)"
  by (simp add: mg_inv_def)

lemma mg_inv_disk:
  "mg_inv C V m \<Longrightarrow> file_ok C V k f \<Longrightarrow> mg_inv C V (m\<lparr>mgDisk := fmupd (wallet_file (wAddress f)) f (mgDisk m)\<rparr>)"
  by (auto simp: mg_inv_def)

lemma mg_inv_drop:
  "mg_inv C V m \<Longrightarrow> mg_inv C V (m\<lparr>mgWallets := fmdrop a (mgWallets m)\<rparr>)"
  "mg_inv C V m \<Longrightarrow> mg_inv C V (m\<lparr>mgDisk := fmdrop n (mgDisk m)\<rparr>)"
  by (auto simp: mg_inv_def split: if_splits)

lemma install_inv:
  assumes "mg_inv C V m" "vault_ok V"
  shows "mg_inv C V (snd (installWallet C V rnd now ok m mn pw lb))"
proof -
  let ?w = "\<lambda>salt n. sealed_wallet C V salt n now (mnemonic_key C mn) pw lb"
  have W: "wallet_ok C V (wAddress (?w salt n)) (?w salt n)" for salt n
    using sealed_ok [OF assms(2)] unfolding wallet_ok_def
    by (intro conjI exI [of _ "mnemonic_key C mn"]) (auto simp: sealed_wallet_def)
  have F: "file_ok C V (mnemonic_key C mn) (to_file (?w salt n))" for salt n
    using sealed_ok [OF assms(2)] by (rule file_ok_to_file)
  show ?thesis using mg_inv_upd [OF assms(1) W] mg_inv_disk [OF mg_inv_upd [OF assms(1) W] F]
    by (simp add: wAddress_to_file installWallet_eq [OF assms(2)] Let_def assms(1) split: option.split)
qed

lemma Unlock_inv:
  assumes "mg_inv C V m" "vault_ok V"
  shows "mg_inv C V (snd (Unlock V m a pw))"
proof (cases "fst (Unlock V m a pw) = None")
  case True
  then obtain w priv where w: "fmlookup (mgWallets m) a = Some w"
    "decryptAESGCM V (deriveKey V pw (wSalt w)) (wEncPrivKey w) = Some priv"
    by (auto simp: Unlock_def split: option.splits)
  have "wallet_ok C V a w" using assms(1) w(1) by (auto simp: mg_inv_def)
  then obtain k where k: "file_ok C V k w" "wAddress w = a" by (auto simp: wallet_ok_def)
  then obtain key n c where "wEncPrivKey w = n @ c" "length n = 12" "gcm_seal V key n k = Some c"
    by (auto simp: file_ok_def)
  then have "priv = k" using w(2) assms(2) by (auto simp: decryptAESGCM_def vault_ok_def split: if_splits)
  then have "wallet_ok C V a (w\<lparr>wPrivateKey := Some priv, wUnlocked := True\<rparr>)"
    using k by (auto simp: wallet_ok_def file_ok_def)
  then show ?thesis using assms(1) w by (auto simp: Unlock_def updWallet_def mg_inv_def)
next
  case False
  then have "snd (Unlock V m a pw) = m" by (auto simp: Unlock_def split: option.splits)
  then show ?thesis using assms(1) by simp
qed

lemma Lock_inv:
  assumes "mg_inv C V m"
  shows "mg_inv C V (snd (Wallet_Lock m a))"
proof (cases "fmlookup (mgWallets m) a")
  case (Some w)
  then have "wallet_ok C V a w" by (rule mg_inv_wallet [OF assms])
  then have "wallet_ok C V a (w\<lparr>wPrivateKey := None, wUnlocked := False\<rparr>)"
    unfolding wallet_ok_def file_ok_def by auto
  then show ?thesis using Some mg_inv_upd [OF assms] by (simp add: Wallet_Lock_def updWallet_def)
qed (simp add: Wallet_Lock_def assms)

text \<open>Every address under the invariant has 64 characters, so \<open>Delete\<close> never slices out of range.\<close>

lemma Delete_total:
  assumes "mg_inv C V m" "vault_ok V"
  obtains r m' where "Wallet_Delete V m a pw = Some (r, m')" "mg_inv C V m'"
proof -
  obtain r1 m1 where U: "Unlock V m a pw = (r1, m1)" by fastforce
  have inv: "mg_inv C V m1" using Unlock_inv [OF assms, of a pw] U by simp
  show thesis
  proof (cases r1)
    case (Some e)
    then show thesis using that U inv by (simp add: Wallet_Delete_def)
  next
    case None
    then obtain w where "fmlookup (mgWallets m) a = Some w" using U by (auto simp: Unlock_def split: option.splits)
    then have "wallet_ok C V a w" using assms(1) by (simp add: mg_inv_def)
    then have "length a = 64" by (auto simp: wallet_ok_def file_ok_def key_address_def)
    then have "\<exists>r m'. Wallet_Delete V m a pw = Some (r, m') \<and> mg_inv C V m'"
      using U None mg_inv_drop(1) [OF inv, of a] mg_inv_drop(2) [OF mg_inv_drop(1) [OF inv, of a]]
      by (simp add: Wallet_Delete_def Let_def)
    then show thesis using that by blast
  qed
qed

lemma of_file_ok: "file_ok C V k f \<Longrightarrow> wallet_ok C V (wAddress f) (of_file f)"
  by (auto simp: wallet_ok_def file_ok_def of_file_def)

lemma load_inv:
  assumes "mg_inv C V m"
  shows "mg_inv C V (loadWallets names m)"
proof -
  have "mg_inv C V (m\<lparr>mgWallets := fmupd (wAddress f) (of_file f) (mgWallets m)\<rparr>)"
    if "mg_inv C V m" "fmlookup (mgDisk m) n = Some f" for m n f
  proof -
    have "\<exists>k. file_ok C V k f" using mg_inv_file \<open>mg_inv C V m\<close> \<open>fmlookup (mgDisk m) n = Some f\<close> by blast
    then show ?thesis using \<open>mg_inv C V m\<close> by (auto intro: mg_inv_upd of_file_ok)
  qed
  then have "mg_inv C V (foldl (\<lambda>m n. case fmlookup (mgDisk m) n of
               None \<Rightarrow> m
             | Some f \<Rightarrow> m\<lparr>mgWallets := fmupd (wAddress f) (of_file f) (mgWallets m)\<rparr>) m names)"
    using assms by (induction names arbitrary: m) (auto split: option.split)
  then show ?thesis using assms by (simp add: loadWallets_def)
qed

datatype WalletOp =
    OpCreate "nat \<Rightarrow> u8" randomness i64 bool string string
  | OpImport randomness i64 bool "string list" string string
  | OpUnlock string string
  | OpLock string
  | OpDelete string string
  | OpRestart "string list"

text \<open>One call on the manager, or a restart of the process, which forgets everything but the disk.\<close>

fun mg_step :: "crypto \<Rightarrow> vault \<Rightarrow> Manager \<Rightarrow> WalletOp \<Rightarrow> Manager" where
  "mg_step C V m (OpCreate idx rnd now ok pw lb) = snd (Create C V idx rnd now ok m pw lb)"
| "mg_step C V m (OpImport rnd now ok mn pw lb) = snd (Import C V rnd now ok m mn pw lb)"
| "mg_step C V m (OpUnlock a pw) = snd (Unlock V m a pw)"
| "mg_step C V m (OpLock a) = snd (Wallet_Lock m a)"
| "mg_step C V m (OpDelete a pw) = (case Wallet_Delete V m a pw of Some (_, m') \<Rightarrow> m' | None \<Rightarrow> m)"
| "mg_step C V m (OpRestart names) = NewManager names (mgDataDir m) (mgDisk m)"

definition wallet_run :: "crypto \<Rightarrow> vault \<Rightarrow> string \<Rightarrow> WalletOp list \<Rightarrow> Manager" where
  "wallet_run C V dir ops = foldl (mg_step C V) (NewManager [] dir fmempty) ops"

lemma mg_step_inv:
  assumes "mg_inv C V m" "vault_ok V"
  shows "mg_inv C V (mg_step C V m op)"
proof (cases op)
  case (OpCreate idx rnd now ok pw lb)
  then show ?thesis using install_inv [OF assms, of rnd now ok "generateMnemonic 12 idx" pw lb]
    by (auto simp: Create_def Let_def split: prod.splits sum.splits)
next
  case (OpImport rnd now ok mn pw lb)
  then show ?thesis using install_inv [OF assms, of rnd now ok mn pw lb] assms(1)
    by (auto simp: Import_def split: prod.splits sum.splits)
next
  case (OpDelete a pw)
  obtain r m' where "Wallet_Delete V m a pw = Some (r, m')" "mg_inv C V m'" by (rule Delete_total [OF assms])
  then show ?thesis using OpDelete by simp
next
  case (OpRestart names)
  have "mg_inv C V (m\<lparr>mgWallets := fmempty\<rparr>)" using assms(1) by (simp add: mg_inv_def)
  moreover have "m\<lparr>mgWallets := fmempty\<rparr> = \<lparr>mgWallets = fmempty, mgDataDir = mgDataDir m, mgDisk = mgDisk m\<rparr>"
    by (cases m) simp
  ultimately show ?thesis using OpRestart by (simp add: NewManager_def load_inv)
qed (simp_all add: Unlock_inv [OF assms] Lock_inv [OF assms(1)])

text \<open>The laws of the vault are conjoined to the invariant, so that the manager is an \<open>op_system\<close>.\<close>

interpretation wallets: op_system "mg_step C V" "\<lambda>m. vault_ok V \<and> mg_inv C V m" for C V
  by unfold_locales (auto intro: mg_step_inv)

lemma wallet_run_inv:
  assumes "vault_ok V"
  shows "mg_inv C V (wallet_run C V dir ops)"
proof -
  have "mg_inv C V (NewManager [] dir fmempty)" by (simp add: mg_inv_def NewManager_def loadWallets_def)
  with assms show ?thesis unfolding wallet_run_def using wallets.inv_run by blast
qed

section \<open>What the manager promises\<close>

lemma key_address_decode: "DecodeString (key_address C k) = (be_bytes 32 (ed_public C k), True)"
  by (simp add: key_address_def)

text \<open>What an unlocked wallet signs, it signs with the key of its address.\<close>

lemma unlocked_key:
  assumes "mg_inv C V m" "fmlookup (mgWallets m) a = Some w" "wUnlocked w"
  obtains k seed where "k = ed_key_from_seed C seed" "wPrivateKey w = Some k" "a = key_address C k" "wPublicKey w = a"
  using mg_inv_wallet [OF assms(1,2)] assms(3) that unfolding wallet_ok_def file_ok_def by auto

lemma Sign_unlocked:
  assumes "mg_inv C V m" "ed25519_ok C" "Wallet_Sign C m a tx = (Inr r, tx')"
  shows "ed_verify C (txFrom tx') (SerializeForSigning tx') (txSig tx') \<and> length (txSig tx') = 64
    \<and> EncodeToString (be_bytes 32 (txFrom tx')) = a
    \<and> tx' = tx\<lparr>txFrom := txFrom tx', txSig := txSig tx'\<rparr>
    \<and> srSignature r = EncodeToString (txSig tx')"
proof -
  obtain w where w: "fmlookup (mgWallets m) a = Some w" "wUnlocked w"
    using assms(3) by (auto simp: Wallet_Sign_def split: option.splits if_splits)
  then obtain k seed where k: "k = ed_key_from_seed C seed" "wPrivateKey w = Some k" "a = key_address C k" "wPublicKey w = a"
    using unlocked_key [OF assms(1)] by metis
  then have sig: "ed_verify C (ed_public C k) msg (ed_sign C k msg) \<and> length (ed_sign C k msg) = 64" for msg
    using assms(2) by (simp add: ed25519_ok_def Let_def)
  have "tx' = tx\<lparr>txFrom := ed_public C k, txSig := ed_sign C k (SerializeForSigning (tx\<lparr>txFrom := ed_public C k\<rparr>))\<rparr>"
    and "srSignature r = EncodeToString (txSig tx')"
    using assms(3) w k by (auto simp: Wallet_Sign_def Let_def key_address_decode array32_be_bytes)
  then show ?thesis using sig k(3) by (simp add: SerializeForSigning_def key_address_def)
qed

text \<open>\<open>CreateTransaction\<close> leaves the timestamp at its zero value, for which \<open>IsExpired\<close> always answers no.\<close>

lemma CreateTransaction_unlocked:
  assumes "mg_inv C V m" "ed25519_ok C" "CreateTransaction C m a b amount txfee nonce typ = Inr t"
  shows "ed_verify C (txFrom t) (SerializeForSigning t) (txSig t) \<and> length (txSig t) = 64
    \<and> EncodeToString (be_bytes 32 (txFrom t)) = a
    \<and> t = \<lparr>txType = typ, txFrom = txFrom t, txTo = array32 (fst (DecodeString b)), txAmount = amount,
           txFee = txfee, txNonce = nonce, txTimestamp = 0, txSig = txSig t\<rparr>
    \<and> \<not> IsExpired t now"
proof -
  obtain w where w: "fmlookup (mgWallets m) a = Some w" "wUnlocked w"
    using assms(3) by (auto simp: CreateTransaction_def split: option.splits if_splits)
  then obtain k seed where k: "k = ed_key_from_seed C seed" "wPrivateKey w = Some k" "a = key_address C k" "wPublicKey w = a"
    using unlocked_key [OF assms(1)] by metis
  then have sig: "ed_verify C (ed_public C k) msg (ed_sign C k msg) \<and> length (ed_sign C k msg) = 64" for msg
    using assms(2) by (simp add: ed25519_ok_def Let_def)
  let ?t = "\<lparr>txType = typ, txFrom = ed_public C k, txTo = array32 (fst (DecodeString b)), txAmount = amount,
           txFee = txfee, txNonce = nonce, txTimestamp = 0, txSig = []\<rparr>"
  have "t = ?t\<lparr>txSig := ed_sign C k (SerializeForSigning ?t)\<rparr>"
    using assms(3) w k by (auto simp: CreateTransaction_def Let_def key_address_decode array32_be_bytes
      split: prod.splits if_splits)
  then show ?thesis using sig k(3) by (simp add: SerializeForSigning_def key_address_def IsExpired_def)
qed

text \<open>When the random source and the disk work, \<open>Create\<close> and \<open>Import\<close> succeed.\<close>

lemma Create_eq:
  fixes C V idx m salt n now pw lb
  assumes "vault_ok V" "rdSalt rnd = Some salt" "rdNonce rnd = Some n" "ok \<or> mgDataDir m = []"
  defines "mn \<equiv> generateMnemonic 12 idx"
  defines "a \<equiv> key_address C (mnemonic_key C mn)"
  defines "w \<equiv> sealed_wallet C V salt n now (mnemonic_key C mn) pw lb"
  shows "Create C V idx rnd now ok m pw lb =
    (Inr \<lparr>crAddress = a, crPublicKey = a, crMnemonic = mn, crCreatedAt = now\<rparr>,
     if mgDataDir m = [] then m\<lparr>mgWallets := fmupd a w (mgWallets m)\<rparr>
     else m\<lparr>mgWallets := fmupd a w (mgWallets m), mgDisk := fmupd (wallet_file a) (to_file w) (mgDisk m)\<rparr>)"
proof -
  have "wAddress w = a" "wCreatedAt w = now" by (simp_all add: w_def a_def sealed_wallet_def)
  then show ?thesis using assms(2-4)
    by (auto simp: Create_def installWallet_eq [OF assms(1)] Let_def simp flip: mn_def w_def)
qed

lemma Create_ok:
  fixes C V idx m ok
  assumes "vault_ok V" "rdSalt rnd = Some salt" "rdNonce rnd = Some n" "ok \<or> mgDataDir m = []"
  defines "mn \<equiv> generateMnemonic 12 idx"
  defines "a \<equiv> key_address C (mnemonic_key C mn)"
  obtains m1 where
    "Create C V idx rnd now ok m pw lb =
       (Inr \<lparr>crAddress = a, crPublicKey = a, crMnemonic = mn, crCreatedAt = now\<rparr>, m1)"
    "fmlookup (mgWallets m1) a = Some (sealed_wallet C V salt n now (mnemonic_key C mn) pw lb)"
    "mgDataDir m1 = mgDataDir m"
    "mgDataDir m \<noteq> [] \<longrightarrow> fmlookup (mgDisk m1) (wallet_file a) =
       Some (to_file (sealed_wallet C V salt n now (mnemonic_key C mn) pw lb))"
  using Create_eq [OF assms(1-4), of C idx now pw lb] that by (cases "mgDataDir m = []") (simp_all add: mn_def a_def)

lemma Create_inv:
  assumes "vault_ok V" "Create C V idx rnd now ok m pw lb = (Inr resp, m1)"
  obtains salt n where "rdSalt rnd = Some salt" "rdNonce rnd = Some n" "ok \<or> mgDataDir m = []"
  using assms by (auto simp: Create_def installWallet_eq Let_def split: option.splits if_splits)

lemma load_lookup:
  assumes "fmlookup (mgDisk m) n = Some f" "n \<in> set names" "mgDataDir m \<noteq> []"
    and uniq: "\<And>n' f'. fmlookup (mgDisk m) n' = Some f' \<Longrightarrow> wAddress f' = wAddress f \<Longrightarrow> n' = n"
  shows "fmlookup (mgWallets (loadWallets names m)) (wAddress f) = Some (of_file f)"
proof -
  let ?step = "\<lambda>m n. case fmlookup (mgDisk m) n of None \<Rightarrow> m
    | Some f \<Rightarrow> m\<lparr>mgWallets := fmupd (wAddress f) (of_file f) (mgWallets m)\<rparr>"
  have disk: "mgDisk (foldl ?step m ns) = mgDisk m" for ns
    by (induction ns rule: rev_induct) (auto split: option.split)
  have "fmlookup (mgWallets (foldl ?step m names)) (wAddress f) = Some (of_file f)"
    using assms(2)
  proof (induction names rule: rev_induct)
    case (snoc x ns)
    show ?case
    proof (cases "fmlookup (mgDisk m) x")
      case None
      then show ?thesis using snoc assms(1) disk [of ns] by auto
    next
      case (Some g)
      show ?thesis
      proof (cases "wAddress g = wAddress f")
        case True
        then show ?thesis using uniq [OF Some True] Some assms(1) disk [of ns] by simp
      next
        case False
        then have "x \<noteq> n" using Some assms(1) by auto
        then show ?thesis using snoc Some False disk [of ns] by auto
      qed
    qed
  qed simp
  then show ?thesis using assms(3) by (simp add: loadWallets_def)
qed

lemma of_file_to_file: "of_file (to_file w) = w\<lparr>wPrivateKey := None, wUnlocked := False\<rparr>"
  by (simp add: of_file_def to_file_def)

lemma locked_calls:
  assumes "fmlookup (mgWallets m) a = Some w" "\<not> wUnlocked w"
  shows "Wallet_Sign C m a tx = (Inl ErrWalletLocked, tx)"
    "CreateTransaction C m a b amount txfee nonce typ = Inl ErrWalletLocked"
    "ExportPrivateKey m a = Inl ErrWalletLocked"
  using assms by (auto simp: Wallet_Sign_def CreateTransaction_def ExportPrivateKey_def)

lemma unlock_sealed:
  assumes "vault_ok V" "w = sealed_wallet C V salt n now k pw lb" "fmlookup (mgWallets m) a = Some (of_file (to_file w))"
  shows "Unlock V m a pw = (None, m\<lparr>mgWallets := fmupd a w (mgWallets m)\<rparr>)"
  using assms(2,3) sealed_opens [OF assms(1), of pw C salt n now k lb]
  by (simp add: Unlock_def updWallet_def of_file_to_file sealed_wallet_def)

lemma wallet_run_dir: "mgDataDir (wallet_run C V dir ops) = dir"
proof -
  have load: "mgDataDir (loadWallets names m) = mgDataDir m" for names m
  proof -
    have "mgDataDir (foldl (\<lambda>m n. case fmlookup (mgDisk m) n of None \<Rightarrow> m
      | Some f \<Rightarrow> m\<lparr>mgWallets := fmupd (wAddress f) (of_file f) (mgWallets m)\<rparr>) m names) = mgDataDir m"
      by (induction names rule: rev_induct) (auto split: option.split)
    then show ?thesis by (simp add: loadWallets_def)
  qed
  have ins: "mgDataDir (snd (installWallet C V rnd now ok m mn pw lb)) = mgDataDir m" for rnd now ok m mn pw lb
    by (auto simp: installWallet_def saveWallet_def Let_def split: option.split)
  have "mgDataDir (mg_step C V m op) = mgDataDir m" for m op
  proof (cases op)
    case (OpCreate idx rnd now ok pw lb)
    then show ?thesis using ins [of rnd now ok m "generateMnemonic 12 idx" pw lb]
      by (auto simp: Create_def Let_def split: prod.splits sum.splits)
  next
    case (OpImport rnd now ok mn pw lb)
    then show ?thesis using ins [of rnd now ok m mn pw lb]
      by (auto simp: Import_def split: prod.splits sum.splits)
  qed (auto simp: Unlock_def Wallet_Lock_def updWallet_def Wallet_Delete_def NewManager_def load Let_def
      split: option.splits prod.splits if_splits)
  then show ?thesis unfolding wallet_run_def
    by (induction ops rule: rev_induct) (simp_all add: NewManager_def load)
qed

text \<open>A concrete vault: the ciphertext carries its key.\<close>

definition demo_vault :: vault where
  "demo_vault = \<lparr>pbkdf2 = (\<lambda>pw salt. be_bytes 32 (array32 pw)),
     gcm_seal = (\<lambda>key n msg. if length key = 32 then Some (key @ msg) else None),
     gcm_open = (\<lambda>key n c. if length key = 32 \<and> take 32 c = key then Some (drop 32 c) else None)\<rparr>"

lemma demo_vault_ok: "vault_ok demo_vault"
  by (auto simp: vault_ok_def demo_vault_def)

definition demo_rnd :: randomness where
  "demo_rnd = \<lparr>rdSalt = Some 5, rdNonce = Some 9\<rparr>"

definition demo_words :: "string list" where
  "demo_words = generateMnemonic 12 (\<lambda>_. 0)"

definition demo_resp :: CreateResponse where
  "demo_resp = (let a = key_address demo_crypto (mnemonic_key demo_crypto demo_words)
     in \<lparr>crAddress = a, crPublicKey = a, crMnemonic = demo_words, crCreatedAt = 7\<rparr>)"

lemma demo_create:
  obtains m1 w where "Create demo_crypto demo_vault (\<lambda>_. 0) demo_rnd 7 True m ''secret phrase'' ''main'' = (Inr demo_resp, m1)"
    "fmlookup (mgWallets m1) (crAddress demo_resp) = Some w" "wUnlocked w"
    "Wallet_Lock m1 (crAddress demo_resp) = (None, snd (Wallet_Lock m1 (crAddress demo_resp)))"
proof -
  have "rdSalt demo_rnd = Some 5" "rdNonce demo_rnd = Some 9" by (simp_all add: demo_rnd_def)
  then obtain m1 where m1: "Create demo_crypto demo_vault (\<lambda>_. 0) demo_rnd 7 True m ''secret phrase'' ''main'' = (Inr demo_resp, m1)"
    and w: "fmlookup (mgWallets m1) (crAddress demo_resp) =
      Some (sealed_wallet demo_crypto demo_vault 5 9 7 (mnemonic_key demo_crypto demo_words) ''secret phrase'' ''main'')"
    by (rule Create_ok [OF demo_vault_ok, where ok = True and m = m and idx = "\<lambda>_. 0"
      and C = demo_crypto and now = 7 and pw = "''secret phrase''" and lb = "''main''"])
      (auto simp: demo_resp_def demo_words_def Let_def)
  show thesis by (rule that [OF m1 w]) (simp_all add: sealed_wallet_def Wallet_Lock_def w)
qed

text \<open>C32: whatever calls, failures and restarts came before, a wallet that is unlocked holds the
  private key of its address. So what \<open>Sign\<close> returns is the given transaction with its sender replaced by
  the address of the wallet and a signature of 64 bytes that verifies under it, and what
  \<open>CreateTransaction\<close> returns is the requested transaction, with such a signature and the sender asked
  for; since it carries timestamp 0, it never expires.\<close>

theorem wallet_signs:
  assumes "ed25519_ok C" "vault_ok V"
  shows "(\<forall>r tx'. Wallet_Sign C (wallet_run C V dir ops) a tx = (Inr r, tx') \<longrightarrow>
      ed_verify C (txFrom tx') (SerializeForSigning tx') (txSig tx') \<and> length (txSig tx') = 64
      \<and> EncodeToString (be_bytes 32 (txFrom tx')) = a
      \<and> tx' = tx\<lparr>txFrom := txFrom tx', txSig := txSig tx'\<rparr>
      \<and> srSignature r = EncodeToString (txSig tx'))
    \<and> (\<forall>t. CreateTransaction C (wallet_run C V dir ops) a b amount txfee nonce typ = Inr t \<longrightarrow>
      ed_verify C (txFrom t) (SerializeForSigning t) (txSig t) \<and> length (txSig t) = 64
      \<and> EncodeToString (be_bytes 32 (txFrom t)) = a
      \<and> t = \<lparr>txType = typ, txFrom = txFrom t, txTo = array32 (fst (DecodeString b)), txAmount = amount,
             txFee = txfee, txNonce = nonce, txTimestamp = 0, txSig = txSig t\<rparr>
      \<and> \<not> IsExpired t now)"
  using Sign_unlocked [OF wallet_run_inv [OF assms(2)] assms(1)]
    CreateTransaction_unlocked [OF wallet_run_inv [OF assms(2)] assms(1)] by blast

theorem wallet_signs_witness:
  "\<exists>m r tx' t. m = wallet_run demo_crypto demo_vault ''wallets'' [OpCreate (\<lambda>_. 0) demo_rnd 7 True ''secret phrase'' ''main'']
     \<and> Wallet_Sign demo_crypto m (crAddress demo_resp) sample_tx = (Inr r, tx')
     \<and> ed_verify demo_crypto (txFrom tx') (SerializeForSigning tx') (txSig tx')
     \<and> CreateTransaction demo_crypto m (crAddress demo_resp) (crAddress demo_resp) 5 1000 1 0 = Inr t
     \<and> ed_verify demo_crypto (txFrom t) (SerializeForSigning t) (txSig t)"
proof -
  define m where "m = wallet_run demo_crypto demo_vault ''wallets'' [OpCreate (\<lambda>_. 0) demo_rnd 7 True ''secret phrase'' ''main'']"
  obtain m1 w where "Create demo_crypto demo_vault (\<lambda>_. 0) demo_rnd 7 True (NewManager [] ''wallets'' fmempty)
      ''secret phrase'' ''main'' = (Inr demo_resp, m1)" "fmlookup (mgWallets m1) (crAddress demo_resp) = Some w" "wUnlocked w"
    by (rule demo_create)
  then have w: "fmlookup (mgWallets m) (crAddress demo_resp) = Some w" "wUnlocked w" by (simp_all add: m_def wallet_run_def)
  have d: "DecodeString (crAddress demo_resp) = (be_bytes 32 (ed_public demo_crypto (mnemonic_key demo_crypto demo_words)), True)"
    by (simp add: demo_resp_def Let_def key_address_decode)
  obtain r tx' where s: "Wallet_Sign demo_crypto m (crAddress demo_resp) sample_tx = (Inr r, tx')"
    using w by (auto simp: Wallet_Sign_def Let_def)
  obtain t where t: "CreateTransaction demo_crypto m (crAddress demo_resp) (crAddress demo_resp) 5 1000 1 0 = Inr t"
    using w by (simp add: CreateTransaction_def d Let_def)
  show ?thesis using s t m_def wallet_signs [OF demo_crypto_ok demo_vault_ok, of "''wallets''"
      "[OpCreate (\<lambda>_. 0) demo_rnd 7 True ''secret phrase'' ''main'']" "crAddress demo_resp" sample_tx
      "crAddress demo_resp" 5 1000 1 0] by blast
qed

text \<open>C33: the life of a wallet. After \<open>Create\<close> and \<open>Lock\<close> the wallet neither signs nor exports its
  key, each call says \<open>ErrWalletLocked\<close> and a given transaction is left as it was; \<open>Unlock\<close> with the
  password of its creation gives back exactly the manager that \<open>Create\<close> left. A restart over a data
  directory also leaves the wallet locked, and the password restores the very same wallet.\<close>

theorem wallet_unlock:
  assumes "vault_ok V" "Create C V idx rnd now ok (wallet_run C V dir ops) pw lb = (Inr resp, m1)"
    and "Wallet_Lock m1 (crAddress resp) = (err, m2)"
    and "wallet_file (crAddress resp) \<in> set names" "NewManager names (mgDataDir m1) (mgDisk m1) = m3"
  shows "err = None
    \<and> Wallet_Sign C m2 (crAddress resp) tx = (Inl ErrWalletLocked, tx)
    \<and> CreateTransaction C m2 (crAddress resp) b amount txfee nonce typ = Inl ErrWalletLocked
    \<and> ExportPrivateKey m2 (crAddress resp) = Inl ErrWalletLocked
    \<and> Unlock V m2 (crAddress resp) pw = (None, m1)
    \<and> (dir \<noteq> [] \<longrightarrow> ExportPrivateKey m3 (crAddress resp) = Inl ErrWalletLocked
         \<and> fst (Unlock V m3 (crAddress resp) pw) = None
         \<and> fmlookup (mgWallets (snd (Unlock V m3 (crAddress resp) pw))) (crAddress resp)
             = fmlookup (mgWallets m1) (crAddress resp))"
proof -
  let ?a = "crAddress resp" and ?m = "wallet_run C V dir ops" and ?k = "mnemonic_key C (generateMnemonic 12 idx)"
  obtain salt n where rnd: "rdSalt rnd = Some salt" "rdNonce rnd = Some n" "ok \<or> mgDataDir ?m = []"
    using Create_inv [OF assms(1,2)] .
  let ?w = "sealed_wallet C V salt n now ?k pw lb"
  obtain m1' where "Create C V idx rnd now ok ?m pw lb = (Inr \<lparr>crAddress = key_address C ?k,
      crPublicKey = key_address C ?k, crMnemonic = generateMnemonic 12 idx, crCreatedAt = now\<rparr>, m1')"
    and "fmlookup (mgWallets m1') (key_address C ?k) = Some ?w" "mgDataDir m1' = mgDataDir ?m"
    "mgDataDir ?m \<noteq> [] \<longrightarrow> fmlookup (mgDisk m1') (wallet_file (key_address C ?k)) = Some (to_file ?w)"
    by (rule Create_ok [OF assms(1) rnd, where idx = idx and C = C and now = now and pw = pw and lb = lb])
  then have a: "?a = key_address C ?k" and w: "fmlookup (mgWallets m1) ?a = Some ?w"
    and dir: "mgDataDir m1 = dir" and disk: "dir \<noteq> [] \<Longrightarrow> fmlookup (mgDisk m1) (wallet_file ?a) = Some (to_file ?w)"
    using assms(2) wallet_run_dir by auto
  have m2: "err = None" "m2 = m1\<lparr>mgWallets := fmupd ?a (of_file (to_file ?w)) (mgWallets m1)\<rparr>"
    using assms(3) w by (auto simp: Wallet_Lock_def updWallet_def of_file_to_file)
  then have L: "fmlookup (mgWallets m2) ?a = Some (of_file (to_file ?w))" by simp
  have "fmupd ?a ?w (fmupd ?a (of_file (to_file ?w)) (mgWallets m1)) = mgWallets m1"
    using w by (intro fmap_ext) auto
  then have U: "Unlock V m2 ?a pw = (None, m1)" using unlock_sealed [OF assms(1) refl L] m2(2) by simp
  have R: "fmlookup (mgWallets m3) ?a = Some (of_file (to_file ?w))" if "dir \<noteq> []"
  proof -
    let ?m0 = "\<lparr>mgWallets = fmempty, mgDataDir = mgDataDir m1, mgDisk = mgDisk m1\<rparr>"
    have "mg_inv C V m1" using mg_step_inv [OF wallet_run_inv [OF assms(1)] assms(1), of C dir ops "OpCreate idx rnd now ok pw lb"]
      assms(2) by simp
    then have uniq: "n' = wallet_file ?a" if "fmlookup (mgDisk m1) n' = Some f'" "wAddress f' = ?a" for n' f'
      using mg_inv_file that by metis
    have wa: "wAddress (to_file ?w) = ?a" by (simp add: a to_file_def sealed_wallet_def)
    have "fmlookup (mgWallets (loadWallets names ?m0)) (wAddress (to_file ?w)) = Some (of_file (to_file ?w))"
    proof (rule load_lookup [where n = "wallet_file ?a"])
      show "n' = wallet_file ?a" if "fmlookup (mgDisk ?m0) n' = Some f'" "wAddress f' = wAddress (to_file ?w)" for n' f'
        using that wa by (intro uniq) simp_all
    qed (use disk dir that assms(4) in simp_all)
    then show ?thesis unfolding wa NewManager_def [symmetric] assms(5) .
  qed
  have "\<not> wUnlocked (of_file (to_file ?w))" by (simp add: of_file_def)
  note locked = locked_calls [OF _ this]
  show ?thesis using m2(1) U locked [OF L] locked(3) [OF R] unlock_sealed [OF assms(1) refl R] w by simp
qed

theorem wallet_unlock_witness:
  "\<exists>m1 m2. Create demo_crypto demo_vault (\<lambda>_. 0) demo_rnd 7 True (wallet_run demo_crypto demo_vault ''wallets'' [])
       ''secret phrase'' ''main'' = (Inr demo_resp, m1)
     \<and> Wallet_Lock m1 (crAddress demo_resp) = (None, m2)
     \<and> ExportPrivateKey m2 (crAddress demo_resp) = Inl ErrWalletLocked
     \<and> Unlock demo_vault m2 (crAddress demo_resp) ''secret phrase'' = (None, m1)"
proof -
  obtain m1 w where c: "Create demo_crypto demo_vault (\<lambda>_. 0) demo_rnd 7 True
      (wallet_run demo_crypto demo_vault ''wallets'' []) ''secret phrase'' ''main'' = (Inr demo_resp, m1)"
    and l: "Wallet_Lock m1 (crAddress demo_resp) = (None, snd (Wallet_Lock m1 (crAddress demo_resp)))"
    by (rule demo_create)
  show ?thesis
    using c l wallet_unlock [OF demo_vault_ok c l, where names = "[wallet_file (crAddress demo_resp)]"] by auto
qed

text \<open>C34: the twelve words of \<open>Create\<close> recover the wallet anywhere. Given to \<open>Import\<close> on any
  manager, under any new password and label, they are never refused as a mnemonic; when the random source
  and the disk work, the import succeeds with the same address and holds the same private key.\<close>

theorem wallet_recovery:
  assumes "vault_ok V" "Create C V idx rnd now ok m pw lb = (Inr resp, m1)"
    and "Import C V rnd' now' ok' m' (crMnemonic resp) pw' lb' = (r, m2)"
  shows "r \<noteq> Inl ErrInvalidMnemonic
    \<and> (rdSalt rnd' \<noteq> None \<and> rdNonce rnd' \<noteq> None \<and> (ok' \<or> mgDataDir m' = []) \<longrightarrow>
        r = Inr \<lparr>wiAddress = crAddress resp, wiPublicKey = crAddress resp, wiLabel = lb', wiCreatedAt = now', wiUnlocked = True\<rparr>
        \<and> ExportPrivateKey m2 (crAddress resp) = ExportPrivateKey m1 (crAddress resp)
        \<and> (\<exists>key. ExportPrivateKey m2 (crAddress resp) = Inr key))"
proof -
  let ?k = "mnemonic_key C (generateMnemonic 12 idx)"
  obtain salt n where rnd: "rdSalt rnd = Some salt" "rdNonce rnd = Some n" "ok \<or> mgDataDir m = []"
    using Create_inv [OF assms(1,2)] .
  obtain m1' where "Create C V idx rnd now ok m pw lb = (Inr \<lparr>crAddress = key_address C ?k,
      crPublicKey = key_address C ?k, crMnemonic = generateMnemonic 12 idx, crCreatedAt = now\<rparr>, m1')"
    and "fmlookup (mgWallets m1') (key_address C ?k) = Some (sealed_wallet C V salt n now ?k pw lb)"
    using Create_ok [OF assms(1) rnd, where idx = idx and C = C and now = now and pw = pw and lb = lb] by metis
  then have resp: "crAddress resp = key_address C ?k" "crMnemonic resp = generateMnemonic 12 idx"
    and key: "ExportPrivateKey m1 (crAddress resp) = Inr (EncodeToString ?k)"
    using assms(2) by (auto simp: ExportPrivateKey_def sealed_wallet_def)
  show ?thesis using assms(3) generated_words [of 12 idx] key
    by (auto simp: Import_def resp installWallet_eq [OF assms(1)] Let_def Info_def ExportPrivateKey_def sealed_wallet_def
      split: option.splits if_splits)
qed

theorem wallet_recovery_witness:
  "\<exists>m1 wi m2. Create demo_crypto demo_vault (\<lambda>_. 0) demo_rnd 7 True (NewManager [] [] fmempty)
       ''secret phrase'' ''main'' = (Inr demo_resp, m1)
     \<and> Import demo_crypto demo_vault demo_rnd 8 True (NewManager [] [] fmempty) (crMnemonic demo_resp) ''another one'' ''copy'' = (Inr wi, m2)
     \<and> wiAddress wi = crAddress demo_resp"
proof -
  let ?m = "NewManager [] [] fmempty"
  obtain m1 w where c: "Create demo_crypto demo_vault (\<lambda>_. 0) demo_rnd 7 True ?m
      ''secret phrase'' ''main'' = (Inr demo_resp, m1)" by (rule demo_create)
  obtain r m2 where i: "Import demo_crypto demo_vault demo_rnd 8 True ?m (crMnemonic demo_resp) ''another one'' ''copy'' = (r, m2)"
    by fastforce
  show ?thesis using c i wallet_recovery [OF demo_vault_ok c i] by (auto simp: demo_rnd_def)
qed

end
