(* ===== verification/Explorer_Api.thy ===== *)
theory Explorer_Api
  imports Explorer_Index Wallet
begin

text \<open>
  \<open>explorer.go\<close>, part 2: the endpoints that change something: transaction submission and the wallet API,
  with the CORS wrapper around the latter.

  A request carries its method, its \<open>Origin\<close> header and the outcome of decoding its JSON body (\<open>None\<close>:
  the decoder failed). An error answer is its status and message; \<open>MsgOf\<close> is the text of an error of the
  wallet. A handler is a function of the request and of what the handlers share: the wallet manager,
  the account state and the mempool (\<open>None\<close>: nil pointer).
\<close>

section \<open>Helpers\<close>

definition isSpace :: "char \<Rightarrow> bool" where
  "isSpace c \<longleftrightarrow> (of_char c :: nat) \<in> {9, 10, 11, 12, 13, 32}"

definition TrimSpace :: "string \<Rightarrow> string" where
  "TrimSpace s = rev (dropWhile isSpace (rev (dropWhile isSpace s)))"

fun strIndex :: "string \<Rightarrow> string \<Rightarrow> nat option" where
  "strIndex [] sep = (if sep = [] then Some 0 else None)"
| "strIndex (c # s) sep =
     (if take (length sep) (c # s) = sep then Some 0 else map_option Suc (strIndex s sep))"

text \<open>\<open>strings.Split\<close>: at every occurrence of the separator, from left to right; an empty separator
  splits into characters.\<close>

function Split :: "string \<Rightarrow> string \<Rightarrow> string list" where
  "Split s sep =
     (if sep = [] then map (\<lambda>c. [c]) s
      else case strIndex s sep of
             None \<Rightarrow> [s]
           | Some i \<Rightarrow> take i s # Split (drop (i + length sep) s) sep)"
  by pat_completeness auto

lemma strIndex_bound: "strIndex s sep = Some i \<Longrightarrow> i + length sep \<le> length s"
proof (induction s arbitrary: i)
  case (Cons c s)
  then show ?case
    by (auto split: if_splits dest: arg_cong [where f = length] simp: min_def)
qed (simp split: if_splits)

lemma strIndex_less: "strIndex s sep = Some i \<Longrightarrow> sep \<noteq> [] \<Longrightarrow> length s - (i + length sep) < length s"
  using strIndex_bound [of s sep i] by (cases sep) auto

termination Split
  by (relation "measure (length \<circ> fst)") (simp_all add: strIndex_less)

declare Split.simps [simp del]

definition splitTrim :: "string \<Rightarrow> string \<Rightarrow> string list" where
  "splitTrim s sep = filter (\<lambda>p. p \<noteq> []) (map TrimSpace (Split s sep))"

definition verifyEd25519Signature :: "crypto \<Rightarrow> bytes \<Rightarrow> bytes \<Rightarrow> bytes \<Rightarrow> bool" where
  "verifyEd25519Signature C publicKey message signature =
     (if length publicKey \<noteq> 32 then False
      else if length signature \<noteq> 64 then False
      else ed_verify C (array32 publicKey) message signature)"

section \<open>Requests and answers\<close>

record 'a request =
  rqMethod :: string
  rqOrigin :: string
  rqBody :: "'a option"

datatype errtext = Text string | MsgOf WalletErr | Prefixed string WalletErr

text \<open>\<open>ApiPanic\<close>: the handler panics, and the HTTP server drops the connection.\<close>

datatype 'r reply = ApiErr nat errtext | ApiOk 'r | ApiPreflight | ApiPanic

record 'r response =
  hdAllowOrigin :: "string option"
  hdReply :: "'r reply"

record 'd Api =
  apWallet :: Manager
  apState :: "'d StateManager"
  apPool :: "Mempool option"

text \<open>The two checks that open every POST handler.\<close>

definition postBody :: "string \<Rightarrow> ('a \<Rightarrow> 's \<Rightarrow> 'r reply \<times> 's) \<Rightarrow> 'a request \<Rightarrow> 's \<Rightarrow> 'r reply \<times> 's" where
  "postBody bad handler rq s =
     (if rqMethod rq \<noteq> ''POST'' then (ApiErr 405 (Text ''POST required''), s)
      else case rqBody rq of
             None \<Rightarrow> (ApiErr 400 (Text bad), s)
           | Some b \<Rightarrow> handler b s)"

definition poolAdd :: "('d, 'b) badger \<Rightarrow> addr list \<Rightarrow> time \<Rightarrow> time \<Rightarrow> Mempool \<Rightarrow> Transaction \<Rightarrow> 'd Api \<Rightarrow> bool \<times> 'd Api" where
  "poolAdd K ks t1 t2 mp tx s =
     (let (ok, mp, st) = Mempool_Add K ks t1 t2 mp (Some (apState s)) tx
      in (ok, s\<lparr>apPool := Some mp, apState := (case st of Some sm \<Rightarrow> sm | None \<Rightarrow> apState s)\<rparr>))"

definition apiTx :: "('d, 'b) badger \<Rightarrow> crypto \<Rightarrow> addr list \<Rightarrow> time \<Rightarrow> time \<Rightarrow> Transaction request \<Rightarrow> 'd Api \<Rightarrow> string reply \<times> 'd Api" where
  "apiTx K C ks t1 t2 = postBody ''invalid tx json'' (\<lambda>tx s.
     if length (txSig tx) \<noteq> 64 then (ApiErr 400 (Text ''invalid signature length''), s)
     else if \<not> verifyEd25519Signature C (be_bytes 32 (txFrom tx)) (SerializeForSigning tx) (txSig tx)
       then (ApiErr 400 (Text ''invalid signature''), s)
     else if txFee tx < MinFee then (ApiErr 400 (Text ''fee too low, minimum is 1000 nanoNVN''), s)
     else if txType tx = TxTransfer \<and> txAmount tx = 0
       then (ApiErr 400 (Text ''transfer amount must be greater than 0''), s)
     else case apPool s of
            None \<Rightarrow> (ApiErr 503 (Text ''mempool offline''), s)
          | Some mp \<Rightarrow>
              let (success, s) = poolAdd K ks t1 t2 mp tx s in
              if success then (ApiOk (EncodeToString (take 32 (txSig tx))), s)
              else (ApiErr 503 (Text ''tx rejected (duplicate, invalid nonce, or pool full)''), s))"

section \<open>CORS\<close>

definition allowedOrigins :: "(string \<Rightarrow> string) \<Rightarrow> string set" where
  "allowedOrigins getenv =
     (let origins = getEnvOrDefault getenv ''SUPERNOVA_ALLOWED_ORIGINS'' []
      in if origins \<noteq> [] then set (splitTrim origins '','') else {})"

definition corsOrigin :: "string set \<Rightarrow> string \<Rightarrow> string option" where
  "corsOrigin allowed origin =
     (if allowed \<noteq> {}
      then if origin \<in> allowed then Some origin
           else if origin = [] then Some ''*'' else None
      else Some ''*'')"

definition corsHandler :: "string set \<Rightarrow> ('a request \<Rightarrow> 's \<Rightarrow> 'r reply \<times> 's) \<Rightarrow> 'a request \<Rightarrow> 's \<Rightarrow> 'r response \<times> 's" where
  "corsHandler allowed handler rq s =
     (let h = corsOrigin allowed (rqOrigin rq) in
      if rqMethod rq = ''OPTIONS'' then (\<lparr>hdAllowOrigin = h, hdReply = ApiPreflight\<rparr>, s)
      else let (r, s) = handler rq s in (\<lparr>hdAllowOrigin = h, hdReply = r\<rparr>, s))"

section \<open>Wallet endpoints\<close>

record CreateRequest =
  cqPassword :: string
  cqLabel :: string

record ImportRequest = CreateRequest +
  iqMnemonic :: "string list"

record AddressRequest =
  aqAddress :: string

record UnlockRequest = AddressRequest +
  uqPassword :: string

record SendRequest =
  sqFrom :: string
  sqTo :: string
  sqAmount :: u64
  sqFee :: u64
  sqPassword :: string

record SignRequest =
  gqAddress :: string
  gqTx :: Transaction

definition walletCreate :: "crypto \<Rightarrow> vault \<Rightarrow> (nat \<Rightarrow> u8) \<Rightarrow> randomness \<Rightarrow> i64 \<Rightarrow> bool
    \<Rightarrow> CreateRequest request \<Rightarrow> 'd Api \<Rightarrow> CreateResponse reply \<times> 'd Api" where
  "walletCreate C V idx rnd now disk_ok = postBody ''invalid request body'' (\<lambda>req s.
     if length (cqPassword req) < 8 then (ApiErr 400 (Text ''password must be at least 8 characters''), s)
     else case Create C V idx rnd now disk_ok (apWallet s) (cqPassword req) (cqLabel req) of
            (Inl err, m) \<Rightarrow> (ApiErr 500 (MsgOf err), s\<lparr>apWallet := m\<rparr>)
          | (Inr resp, m) \<Rightarrow> (ApiOk resp, s\<lparr>apWallet := m\<rparr>))"

definition walletImport :: "crypto \<Rightarrow> vault \<Rightarrow> randomness \<Rightarrow> i64 \<Rightarrow> bool
    \<Rightarrow> ImportRequest request \<Rightarrow> 'd Api \<Rightarrow> WalletInfo reply \<times> 'd Api" where
  "walletImport C V rnd now disk_ok = postBody ''invalid request body'' (\<lambda>req s.
     if length (iqMnemonic req) \<noteq> 12 then (ApiErr 400 (Text ''mnemonic must be 12 words''), s)
     else if length (cqPassword req) < 8 then (ApiErr 400 (Text ''password must be at least 8 characters''), s)
     else case Import C V rnd now disk_ok (apWallet s) (iqMnemonic req) (cqPassword req) (cqLabel req) of
            (Inl err, m) \<Rightarrow> (ApiErr 400 (MsgOf err), s\<lparr>apWallet := m\<rparr>)
          | (Inr resp, m) \<Rightarrow> (ApiOk resp, s\<lparr>apWallet := m\<rparr>))"

definition walletList :: "string list \<Rightarrow> 'a request \<Rightarrow> 'd Api \<Rightarrow> WalletInfo list reply \<times> 'd Api" where
  "walletList ks rq s = (ApiOk (Wallet_List ks (apWallet s)), s)"

record WalletView =
  wvWallet :: WalletInfo
  wvBalance :: f64
  wvStake :: f64
  wvGrant :: f64
  wvNonce :: u64

text \<open>The address is a query parameter of the request; every method is served.\<close>

definition walletInfo :: "('d, 'b) badger \<Rightarrow> string \<Rightarrow> 'a request \<Rightarrow> 'd Api \<Rightarrow> WalletView reply \<times> 'd Api" where
  "walletInfo K address rq s =
     (if address = [] then (ApiErr 400 (Text ''address required''), s)
      else case Wallet_Get (apWallet s) address of
             Inl err \<Rightarrow> (ApiErr 404 (MsgOf err), s)
           | Inr info \<Rightarrow>
               let a = array32 (fst (DecodeString address));
                   (balance, sm) = GetBalance K (apState s) a;
                   (stake, sm) = GetStake K sm a;
                   (grant, sm) = GetGrantStake K sm a;
                   (nonce, sm) = GetNonce K sm a
               in (ApiOk \<lparr>wvWallet = info, wvBalance = nvn balance, wvStake = nvn stake, wvGrant = nvn grant,
                          wvNonce = nonce\<rparr>, s\<lparr>apState := sm\<rparr>))"

definition walletUnlock :: "vault \<Rightarrow> UnlockRequest request \<Rightarrow> 'd Api \<Rightarrow> unit reply \<times> 'd Api" where
  "walletUnlock V = postBody ''invalid request body'' (\<lambda>req s.
     case Unlock V (apWallet s) (aqAddress req) (uqPassword req) of
       (Some err, m) \<Rightarrow> (ApiErr 401 (MsgOf err), s\<lparr>apWallet := m\<rparr>)
     | (None, m) \<Rightarrow> (ApiOk (), s\<lparr>apWallet := m\<rparr>))"

definition walletLock :: "AddressRequest request \<Rightarrow> 'd Api \<Rightarrow> unit reply \<times> 'd Api" where
  "walletLock = postBody ''invalid request body'' (\<lambda>req s.
     case Wallet_Lock (apWallet s) (aqAddress req) of
       (Some err, m) \<Rightarrow> (ApiErr 404 (MsgOf err), s\<lparr>apWallet := m\<rparr>)
     | (None, m) \<Rightarrow> (ApiOk (), s\<lparr>apWallet := m\<rparr>))"

text \<open>\<open>sendUnlocked\<close> is the handler from the nonce on; it answers the hash and the nonce. With a nil
  mempool it answers success too.\<close>

definition sendUnlocked :: "('d, 'b) badger \<Rightarrow> crypto \<Rightarrow> addr list \<Rightarrow> time \<Rightarrow> time \<Rightarrow> SendRequest \<Rightarrow> 'd Api
    \<Rightarrow> (string \<times> u64) reply \<times> 'd Api" where
  "sendUnlocked K C ks t1 t2 req s =
     (let fromAddr = array32 (fst (DecodeString (sqFrom req)));
          (current, sm) = GetNonce K (apState s) fromAddr;
          s = s\<lparr>apState := sm\<rparr>;
          nonce = current + 1
      in case CreateTransaction C (apWallet s) (sqFrom req) (sqTo req) (sqAmount req) (sqFee req) nonce TxTransfer of
           Inl err \<Rightarrow> (ApiErr 400 (MsgOf err), s)
         | Inr tx \<Rightarrow>
             let ok = ApiOk (EncodeToString (take 32 (txSig tx)), nonce) in
             (case apPool s of
                None \<Rightarrow> (ok, s)
              | Some mp \<Rightarrow>
                  let (success, s) = poolAdd K ks t1 t2 mp tx s in
                  if \<not> success then (ApiErr 503 (Text ''transaction rejected by mempool''), s) else (ok, s)))"

definition walletSend :: "('d, 'b) badger \<Rightarrow> crypto \<Rightarrow> vault \<Rightarrow> addr list \<Rightarrow> time \<Rightarrow> time \<Rightarrow> SendRequest request \<Rightarrow> 'd Api
    \<Rightarrow> (string \<times> u64) reply \<times> 'd Api" where
  "walletSend K C V ks t1 t2 = postBody ''invalid request body'' (\<lambda>req s.
     if sqPassword req \<noteq> []
     then case Unlock V (apWallet s) (sqFrom req) (sqPassword req) of
            (Some err, m) \<Rightarrow> (ApiErr 401 (Prefixed ''unlock failed: '' err), s\<lparr>apWallet := m\<rparr>)
          | (None, m) \<Rightarrow> sendUnlocked K C ks t1 t2 req (s\<lparr>apWallet := m\<rparr>)
     else sendUnlocked K C ks t1 t2 req s)"

definition walletSign :: "crypto \<Rightarrow> SignRequest request \<Rightarrow> 'd Api \<Rightarrow> SignResponse reply \<times> 'd Api" where
  "walletSign C = postBody ''invalid request body'' (\<lambda>req s.
     case fst (Wallet_Sign C (apWallet s) (gqAddress req) (gqTx req)) of
       Inl err \<Rightarrow> (ApiErr 400 (MsgOf err), s)
     | Inr resp \<Rightarrow> (ApiOk resp, s))"

definition walletExport :: "vault \<Rightarrow> UnlockRequest request \<Rightarrow> 'd Api \<Rightarrow> string reply \<times> 'd Api" where
  "walletExport V = postBody ''invalid request body'' (\<lambda>req s.
     case Unlock V (apWallet s) (aqAddress req) (uqPassword req) of
       (Some err, m) \<Rightarrow> (ApiErr 401 (Text ''invalid password''), s\<lparr>apWallet := m\<rparr>)
     | (None, m) \<Rightarrow>
         (case ExportPrivateKey m (aqAddress req) of
            Inl err \<Rightarrow> (ApiErr 500 (MsgOf err), s\<lparr>apWallet := m\<rparr>)
          | Inr privKey \<Rightarrow> (ApiOk privKey, s\<lparr>apWallet := m\<rparr>)))"

definition walletDelete :: "vault \<Rightarrow> UnlockRequest request \<Rightarrow> 'd Api \<Rightarrow> unit reply \<times> 'd Api" where
  "walletDelete V = postBody ''invalid request body'' (\<lambda>req s.
     case Wallet_Delete V (apWallet s) (aqAddress req) (uqPassword req) of
       None \<Rightarrow> (ApiPanic, s)
     | Some (Some err, m) \<Rightarrow> (ApiErr 401 (MsgOf err), s\<lparr>apWallet := m\<rparr>)
     | Some (None, m) \<Rightarrow> (ApiOk (), s\<lparr>apWallet := m\<rparr>))"

record QuickWallet =
  qwAddress :: string
  qwPublicKey :: string
  qwPrivateKey :: string

definition walletQuick :: "crypto \<Rightarrow> bytes option \<Rightarrow> 'a request \<Rightarrow> 'd Api \<Rightarrow> QuickWallet reply \<times> 'd Api" where
  "walletQuick C entropy rq s =
     (if rqMethod rq \<noteq> ''POST'' then (ApiErr 405 (Text ''POST required''), s)
      else case QuickCreate C entropy of
             None \<Rightarrow> (ApiErr 500 (MsgOf ErrRandom), s)
           | Some (kp, address) \<Rightarrow>
               (ApiOk \<lparr>qwAddress = address, qwPublicKey = EncodeToString (kpPublicKey kp),
                       qwPrivateKey = EncodeToString (kpPrivateKey kp)\<rparr>, s))"

section \<open>Serving requests\<close>

text \<open>One request to an endpoint that may change what the handlers share, with the clock readings,
  random bytes and disk outcome of its handling.\<close>

datatype ApiCall =
    CallTx time time "Transaction request"
  | CallCreate "nat \<Rightarrow> u8" randomness i64 bool "CreateRequest request"
  | CallImport randomness i64 bool "ImportRequest request"
  | CallInfo string "unit request"
  | CallUnlock "UnlockRequest request"
  | CallLock "AddressRequest request"
  | CallSend time time "SendRequest request"
  | CallSign "SignRequest request"
  | CallExport "UnlockRequest request"
  | CallDelete "UnlockRequest request"

text \<open>The start of the API: the wallets are loaded from the directory \<open>./wallets\<close>.\<close>

definition startApi :: "string list \<Rightarrow> (string, WalletFile) fmap \<Rightarrow> 'd StateManager \<Rightarrow> Mempool option \<Rightarrow> 'd Api" where
  "startApi names disk sm mempool = \<lparr>apWallet = NewManager names ''./wallets'' disk, apState = sm, apPool = mempool\<rparr>"

definition poolOrder :: "(Mempool \<Rightarrow> addr list) \<Rightarrow> 'd Api \<Rightarrow> addr list" where
  "poolOrder ord s = (case apPool s of None \<Rightarrow> [] | Some mp \<Rightarrow> ord mp)"

fun api_step :: "('d, 'b) badger \<Rightarrow> crypto \<Rightarrow> vault \<Rightarrow> string set \<Rightarrow> (Mempool \<Rightarrow> addr list) \<Rightarrow> 'd Api \<Rightarrow> ApiCall \<Rightarrow> 'd Api" where
  "api_step K C V al ord s (CallTx t1 t2 rq) = snd (apiTx K C (poolOrder ord s) t1 t2 rq s)"
| "api_step K C V al ord s (CallCreate idx rnd now ok rq) = snd (corsHandler al (walletCreate C V idx rnd now ok) rq s)"
| "api_step K C V al ord s (CallImport rnd now ok rq) = snd (corsHandler al (walletImport C V rnd now ok) rq s)"
| "api_step K C V al ord s (CallInfo a rq) = snd (corsHandler al (walletInfo K a) rq s)"
| "api_step K C V al ord s (CallUnlock rq) = snd (corsHandler al (walletUnlock V) rq s)"
| "api_step K C V al ord s (CallLock rq) = snd (corsHandler al walletLock rq s)"
| "api_step K C V al ord s (CallSend t1 t2 rq) = snd (corsHandler al (walletSend K C V (poolOrder ord s) t1 t2) rq s)"
| "api_step K C V al ord s (CallSign rq) = snd (corsHandler al (walletSign C) rq s)"
| "api_step K C V al ord s (CallExport rq) = snd (corsHandler al (walletExport V) rq s)"
| "api_step K C V al ord s (CallDelete rq) = snd (corsHandler al (walletDelete V) rq s)"

section \<open>Lemmas\<close>

text \<open>What adding to the pool does to the shared state.\<close>

lemma Add_view:
  "\<exists>sm'. snd (snd (Mempool_Add K ks t1 t2 mp (Some sm) tx)) = Some sm' \<and> view K sm' = view K sm \<and> (sm_wf K sm \<longrightarrow> sm_wf K sm')"
proof -
  have "\<exists>sm'. snd (snd (admit K t1 t2 mp' (Some sm) tx)) = Some sm' \<and> view K sm' = view K sm \<and> (sm_wf K sm \<longrightarrow> sm_wf K sm')" for mp'
    using admit_view [where state = "Some sm" and K = K and ?t1.0 = t1 and ?t2.0 = t2 and mp = mp' and tx = tx] by (auto split: option.splits)
  then show ?thesis by (simp add: Mempool_Add_def split: prod.split)
qed

lemma poolAdd_spec:
  assumes "map_order (mpPending mp) ks" and "poolAdd K ks t1 t2 mp tx s = (ok, s')"
  obtains mp' where "apPool s' = Some mp'" "apWallet s' = apWallet s" "view K (apState s') = view K (apState s)"
    "sm_wf K (apState s) \<Longrightarrow> sm_wf K (apState s')" "mp_inv mp \<Longrightarrow> mp_inv mp'"
    "\<And>k e. fmlookup (mpPending mp') k = Some e \<Longrightarrow>
       fmlookup (mpPending mp) k = Some e \<or> (ok \<and> k = array32 (txSig tx) \<and> e = new_entry t2 tx)"
    "ok \<Longrightarrow> fmlookup (mpPending mp') (array32 (txSig tx)) = Some (new_entry t2 tx)
       \<and> 1000 \<le> unat (txFee tx) \<and> accNonce (view K (apState s) (txFrom tx)) < txNonce tx"
    "Count mp < 10000 \<Longrightarrow> ok \<longleftrightarrow> acceptable K t1 mp (Some (apState s)) tx"
proof -
  obtain mp' st where a: "Mempool_Add K ks t1 t2 mp (Some (apState s)) tx = (ok, mp', st)"
    using assms(2) by (auto simp: poolAdd_def split: prod.splits)
  obtain sm' where sm: "st = Some sm'" "view K sm' = view K (apState s)" "sm_wf K (apState s) \<longrightarrow> sm_wf K sm'"
    using Add_view [of K ks t1 t2 mp "apState s" tx] a by auto
  have s': "s' = s\<lparr>apPool := Some mp', apState := sm'\<rparr>" using assms(2) a sm(1) by (simp add: poolAdd_def)
  have adm: "(ok \<longleftrightarrow> acceptable K t1 m (Some (apState s)) tx)
      \<and> mp' = (if ok then m\<lparr>mpPending := fmupd (array32 (txSig tx)) (new_entry t2 tx) (mpPending m)\<rparr> else m)"
    if "Mempool_Add K ks t1 t2 mp (Some (apState s)) tx = admit K t1 t2 m (Some (apState s)) tx" for m
    using admit_eq [of K t1 t2 m "Some (apState s)" tx] unfolding that [symmetric] a by simp
  have D: "(\<exists>m. (\<forall>k e. fmlookup (mpPending m) k = Some e \<longrightarrow> fmlookup (mpPending mp) k = Some e)
      \<and> (Count mp < 10000 \<longrightarrow> m = mp)
      \<and> (ok \<longleftrightarrow> acceptable K t1 m (Some (apState s)) tx)
      \<and> mp' = (if ok then m\<lparr>mpPending := fmupd (array32 (txSig tx)) (new_entry t2 tx) (mpPending m)\<rparr> else m))
    \<or> (\<not> ok \<and> mp' = mp \<and> 10000 \<le> Count mp)"
    using Add_cases [OF assms(1), of K t1 t2 "Some (apState s)" tx]
  proof (elim disjE exE conjE)
    assume "Mempool_Add K ks t1 t2 mp (Some (apState s)) tx = admit K t1 t2 mp (Some (apState s)) tx"
    from adm [OF this] show ?thesis by auto
  next
    fix k e
    assume "Mempool_Add K ks t1 t2 mp (Some (apState s)) tx =
        admit K t1 t2 (mp\<lparr>mpPending := fmdrop k (mpPending mp)\<rparr>) (Some (apState s)) tx"
      and "MaxMempoolSize \<le> fmsize (mpPending mp)"
    with adm show ?thesis
      by (intro disjI1 exI [of _ "mp\<lparr>mpPending := fmdrop k (mpPending mp)\<rparr>"])
        (auto simp: Count_def MaxMempoolSize_def split: if_splits)
  qed (use a in \<open>auto simp: Count_def MaxMempoolSize_def\<close>)
  have entries: "fmlookup (mpPending mp) k = Some e \<or> (ok \<and> k = array32 (txSig tx) \<and> e = new_entry t2 tx)"
    if "fmlookup (mpPending mp') k = Some e" for k e
    using D that by (auto split: if_splits)
  have accepted: "fmlookup (mpPending mp') (array32 (txSig tx)) = Some (new_entry t2 tx)
       \<and> 1000 \<le> unat (txFee tx) \<and> accNonce (view K (apState s) (txFrom tx)) < txNonce tx" if ok
    using D that by (auto simp: acceptable_def)
  have room: "ok \<longleftrightarrow> acceptable K t1 mp (Some (apState s)) tx" if "Count mp < 10000" using D that by auto
  have inv: "mp_inv mp'" if "mp_inv mp" using Add_inv [OF that assms(1), of K t1 t2 "Some (apState s)" tx] a by simp
  show thesis
    by (rule that [of mp']) (use sm(2,3) entries accepted room inv s' in simp_all)
qed

text \<open>The state that the handlers share is sound: the wallets hold the keys of their addresses, the pool
  is in order, and every pending transaction is signed by its sender and not executed yet.\<close>

definition signed_by_sender :: "crypto \<Rightarrow> Transaction \<Rightarrow> bool" where
  "signed_by_sender C tx \<longleftrightarrow> length (txSig tx) = 64 \<and> ed_verify C (txFrom tx) (SerializeForSigning tx) (txSig tx)"

definition pool_ok :: "crypto \<Rightarrow> (addr \<Rightarrow> Account) \<Rightarrow> Mempool \<Rightarrow> bool" where
  "pool_ok C A mp \<longleftrightarrow> mp_inv mp \<and> (\<forall>k e. fmlookup (mpPending mp) k = Some e \<longrightarrow>
     signed_by_sender C (meTx e) \<and> accNonce (A (txFrom (meTx e))) < txNonce (meTx e))"

definition api_inv :: "('d, 'b) badger \<Rightarrow> crypto \<Rightarrow> vault \<Rightarrow> 'd Api \<Rightarrow> bool" where
  "api_inv K C V s \<longleftrightarrow> mg_inv C V (apWallet s) \<and> sm_wf K (apState s)
     \<and> (case apPool s of None \<Rightarrow> True | Some mp \<Rightarrow> pool_ok C (view K (apState s)) mp)"

abbreviation safe_to :: "('d, 'b) badger \<Rightarrow> crypto \<Rightarrow> vault \<Rightarrow> 'd Api \<Rightarrow> 'd Api \<Rightarrow> bool" where
  "safe_to K C V s s' \<equiv> api_inv K C V s' \<and> view K (apState s') = view K (apState s)"

lemma cors_state: "snd (corsHandler al f rq s) = (if rqMethod rq = ''OPTIONS'' then s else snd (f rq s))"
  by (simp add: corsHandler_def Let_def split: prod.split)

lemma post_state:
  assumes "P s" "\<And>b. P (snd (f b s))"
  shows "P (snd (postBody bad f rq s))"
  using assms by (auto simp: postBody_def split: option.split)

lemma safe_cors: "api_inv K C V s \<Longrightarrow> safe_to K C V s (snd (f rq s)) \<Longrightarrow> safe_to K C V s (snd (corsHandler al f rq s))"
  by (simp add: cors_state)

lemma safe_wallet: "api_inv K C V s \<Longrightarrow> mg_inv C V m \<Longrightarrow> safe_to K C V s (s\<lparr>apWallet := m\<rparr>)"
  by (simp add: api_inv_def split: option.splits)

lemma safe_touch: "api_inv K C V s \<Longrightarrow> safe_to K C V s (s\<lparr>apState := touch K (apState s) a\<rparr>)"
  by (simp add: api_inv_def split: option.splits)

lemma safe_pool:
  assumes "api_inv K C V s" "apPool s = Some mp" "map_order (mpPending mp) ks" "poolAdd K ks t1 t2 mp tx s = (ok, s')"
    "signed_by_sender C tx"
  shows "safe_to K C V s s'"
proof -
  obtain mp' where mp': "apPool s' = Some mp'" "apWallet s' = apWallet s" "view K (apState s') = view K (apState s)"
    "sm_wf K (apState s) \<Longrightarrow> sm_wf K (apState s')" "mp_inv mp \<Longrightarrow> mp_inv mp'"
    "\<And>k e. fmlookup (mpPending mp') k = Some e \<Longrightarrow>
       fmlookup (mpPending mp) k = Some e \<or> (ok \<and> k = array32 (txSig tx) \<and> e = new_entry t2 tx)"
    "ok \<Longrightarrow> fmlookup (mpPending mp') (array32 (txSig tx)) = Some (new_entry t2 tx)
       \<and> 1000 \<le> unat (txFee tx) \<and> accNonce (view K (apState s) (txFrom tx)) < txNonce tx"
    by (rule poolAdd_spec [OF assms(3,4)]) blast
  have "pool_ok C (view K (apState s)) mp'"
    using mp'(5-7) assms(1,2,5) by (fastforce simp: pool_ok_def api_inv_def)
  then show ?thesis using mp'(1-4) assms(1) by (simp add: api_inv_def)
qed

lemma verify_iff: "verifyEd25519Signature C (be_bytes 32 (txFrom tx)) (SerializeForSigning tx) (txSig tx) \<longleftrightarrow> signed_by_sender C tx"
  by (auto simp: verifyEd25519Signature_def signed_by_sender_def)

lemma safe_apiTx:
  assumes "api_inv K C V s" "orders ord"
  shows "safe_to K C V s (snd (apiTx K C (poolOrder ord s) t1 t2 rq s))"
  unfolding apiTx_def
proof (rule post_state)
  show "safe_to K C V s s" using assms(1) by simp
  fix tx
  have "safe_to K C V s (snd (poolAdd K (poolOrder ord s) t1 t2 mp tx s))" if "apPool s = Some mp" "signed_by_sender C tx" for mp
    using safe_pool [OF assms(1) that(1), of "poolOrder ord s" t1 t2 tx] that assms(2)
    by (cases "poolAdd K (poolOrder ord s) t1 t2 mp tx s") (auto simp: poolOrder_def orders_def)
  then show "safe_to K C V s (snd
     (if length (txSig tx) \<noteq> 64 then (ApiErr 400 (Text ''invalid signature length''), s)
     else if \<not> verifyEd25519Signature C (be_bytes 32 (txFrom tx)) (SerializeForSigning tx) (txSig tx)
       then (ApiErr 400 (Text ''invalid signature''), s)
     else if txFee tx < MinFee then (ApiErr 400 (Text ''fee too low, minimum is 1000 nanoNVN''), s)
     else if txType tx = TxTransfer \<and> txAmount tx = 0
       then (ApiErr 400 (Text ''transfer amount must be greater than 0''), s)
     else case apPool s of
            None \<Rightarrow> (ApiErr 503 (Text ''mempool offline''), s)
          | Some mp \<Rightarrow>
              let (success, s) = poolAdd K (poolOrder ord s) t1 t2 mp tx s in
              if success then (ApiOk (EncodeToString (take 32 (txSig tx))), s)
              else (ApiErr 503 (Text ''tx rejected (duplicate, invalid nonce, or pool full)''), s)))"
    using assms(1) by (auto simp: verify_iff Let_def split: option.splits prod.splits)
qed

text \<open>\<open>/api/wallet/send\<close>, from the nonce on: how it answers.\<close>

lemma sendUnlocked_cases:
  fixes s :: "'d Api" and K :: "('d, 'b) badger" and req
  defines "n \<equiv> accNonce (view K (apState s) (array32 (fst (DecodeString (sqFrom req))))) + 1"
  defines "s1 \<equiv> s\<lparr>apState := touch K (apState s) (array32 (fst (DecodeString (sqFrom req))))\<rparr>"
  shows "(\<exists>err. CreateTransaction C (apWallet s) (sqFrom req) (sqTo req) (sqAmount req) (sqFee req) n TxTransfer = Inl err
      \<and> sendUnlocked K C ks t1 t2 req s = (ApiErr 400 (MsgOf err), s1))
    \<or> (\<exists>tx. CreateTransaction C (apWallet s) (sqFrom req) (sqTo req) (sqAmount req) (sqFee req) n TxTransfer = Inr tx
      \<and> (case apPool s of
           None \<Rightarrow> sendUnlocked K C ks t1 t2 req s = (ApiOk (EncodeToString (take 32 (txSig tx)), n), s1)
         | Some mp \<Rightarrow> \<exists>ok s'. poolAdd K ks t1 t2 mp tx s1 = (ok, s')
             \<and> sendUnlocked K C ks t1 t2 req s =
                 (if ok then ApiOk (EncodeToString (take 32 (txSig tx)), n)
                  else ApiErr 503 (Text ''transaction rejected by mempool''), s')))"
  by (auto simp: sendUnlocked_def get_eq n_def s1_def Let_def split: sum.split option.split prod.split)

lemma created_signed:
  assumes "api_inv K C V s" "ed25519_ok C" "CreateTransaction C (apWallet s) a b amount txfee nonce typ = Inr tx"
  shows "signed_by_sender C tx" "EncodeToString (be_bytes 32 (txFrom tx)) = a"
    "txNonce tx = nonce" "txType tx = typ" "txAmount tx = amount" "txFee tx = txfee" "txTimestamp tx = 0"
    "txTo tx = array32 (fst (DecodeString b))" "array32 (fst (DecodeString a)) = txFrom tx"
proof -
  have inv: "mg_inv C V (apWallet s)" using assms(1) by (simp add: api_inv_def)
  note c = CreateTransaction_unlocked [OF inv assms(2,3)]
  show "signed_by_sender C tx" "EncodeToString (be_bytes 32 (txFrom tx)) = a"
    "txNonce tx = nonce" "txType tx = typ" "txAmount tx = amount" "txFee tx = txfee" "txTimestamp tx = 0"
    "txTo tx = array32 (fst (DecodeString b))"
    using c by (auto simp: signed_by_sender_def) (metis Transaction.select_convs)+
  then have "DecodeString a = (be_bytes 32 (txFrom tx), True)" using DecodeString_EncodeToString by metis
  then show "array32 (fst (DecodeString a)) = txFrom tx" by simp
qed

lemma safe_sendUnlocked:
  assumes "api_inv K C V s" "orders ord" "ed25519_ok C"
  shows "safe_to K C V s (snd (sendUnlocked K C (poolOrder ord s) t1 t2 req s))"
proof -
  let ?a = "array32 (fst (DecodeString (sqFrom req)))"
  let ?s1 = "s\<lparr>apState := touch K (apState s) ?a\<rparr>"
  have s1: "safe_to K C V s ?s1" by (rule safe_touch [OF assms(1)])
  from sendUnlocked_cases [of C s req K "poolOrder ord s" t1 t2] show ?thesis
  proof (elim disjE exE conjE)
    fix tx
    assume tx: "CreateTransaction C (apWallet s) (sqFrom req) (sqTo req) (sqAmount req) (sqFee req)
        (accNonce (view K (apState s) ?a) + 1) TxTransfer = Inr tx"
      and r: "case apPool s of
           None \<Rightarrow> sendUnlocked K C (poolOrder ord s) t1 t2 req s =
             (ApiOk (EncodeToString (take 32 (txSig tx)), accNonce (view K (apState s) ?a) + 1), ?s1)
         | Some mp \<Rightarrow> \<exists>ok s'. poolAdd K (poolOrder ord s) t1 t2 mp tx ?s1 = (ok, s')
             \<and> sendUnlocked K C (poolOrder ord s) t1 t2 req s =
                 (if ok then ApiOk (EncodeToString (take 32 (txSig tx)), accNonce (view K (apState s) ?a) + 1)
                  else ApiErr 503 (Text ''transaction rejected by mempool''), s')"
    show ?thesis
    proof (cases "apPool s")
      case (Some mp)
      then obtain ok s' where "poolAdd K (poolOrder ord s) t1 t2 mp tx ?s1 = (ok, s')"
        "snd (sendUnlocked K C (poolOrder ord s) t1 t2 req s) = s'" using r by auto
      moreover have "safe_to K C V ?s1 s'"
        using s1 Some assms(2) created_signed(1) [OF assms(1,3) tx] calculation(1)
        by (intro safe_pool [of K C V ?s1 mp "poolOrder ord s" t1 t2 tx ok s']) (auto simp: poolOrder_def orders_def)
      ultimately show ?thesis using s1 by simp
    qed (use r s1 in simp)
  qed (use s1 in simp)
qed

text \<open>Every endpoint keeps the shared state sound and changes no account.\<close>

lemma safe_create:
  assumes "api_inv K C V s" "vault_ok V"
  shows "safe_to K C V s (snd (walletCreate C V idx rnd now ok rq s))"
  unfolding walletCreate_def
proof (rule post_state)
  fix req
  have "mg_inv C V (snd (Create C V idx rnd now ok (apWallet s) (cqPassword req) (cqLabel req)))"
    using mg_step_inv [of C V "apWallet s" "OpCreate idx rnd now ok (cqPassword req) (cqLabel req)"] assms by (simp add: api_inv_def)
  then show "safe_to K C V s (snd (if length (cqPassword req) < 8 then (ApiErr 400 (Text ''password must be at least 8 characters''), s)
     else case Create C V idx rnd now ok (apWallet s) (cqPassword req) (cqLabel req) of
            (Inl err, m) \<Rightarrow> (ApiErr 500 (MsgOf err), s\<lparr>apWallet := m\<rparr>)
          | (Inr resp, m) \<Rightarrow> (ApiOk resp, s\<lparr>apWallet := m\<rparr>)))"
    using assms(1) safe_wallet [OF assms(1)] by (auto split: prod.splits sum.splits)
qed (use assms in simp)

lemma safe_import:
  assumes "api_inv K C V s" "vault_ok V"
  shows "safe_to K C V s (snd (walletImport C V rnd now ok rq s))"
  unfolding walletImport_def
proof (rule post_state)
  fix req :: ImportRequest
  have "mg_inv C V (snd (Import C V rnd now ok (apWallet s) (iqMnemonic req) (cqPassword req) (cqLabel req)))"
    using mg_step_inv [of C V "apWallet s" "OpImport rnd now ok (iqMnemonic req) (cqPassword req) (cqLabel req)"] assms
    by (simp add: api_inv_def)
  then show "safe_to K C V s (snd (if length (iqMnemonic req) \<noteq> 12 then (ApiErr 400 (Text ''mnemonic must be 12 words''), s)
     else if length (cqPassword req) < 8 then (ApiErr 400 (Text ''password must be at least 8 characters''), s)
     else case Import C V rnd now ok (apWallet s) (iqMnemonic req) (cqPassword req) (cqLabel req) of
            (Inl err, m) \<Rightarrow> (ApiErr 400 (MsgOf err), s\<lparr>apWallet := m\<rparr>)
          | (Inr resp, m) \<Rightarrow> (ApiOk resp, s\<lparr>apWallet := m\<rparr>)))"
    using assms(1) safe_wallet [OF assms(1)] by (auto split: prod.splits sum.splits)
qed (use assms in simp)

lemma safe_info:
  assumes "api_inv K C V s"
  shows "safe_to K C V s (snd (walletInfo K a rq s))"
proof -
  have "sm_wf K (apState s)" using assms by (simp add: api_inv_def)
  then show ?thesis using assms
    by (auto simp: walletInfo_def get_eq api_inv_def Let_def split: sum.splits option.splits)
qed

lemma safe_unlocks:
  assumes "api_inv K C V s" "vault_ok V"
  shows "safe_to K C V s (snd (walletUnlock V rq s))" "safe_to K C V s (snd (walletExport V rq s))"
    "safe_to K C V s (snd (walletLock rq' s))" "safe_to K C V s (snd (walletDelete V rq s))"
    "safe_to K C V s (snd (walletSign C rq'' s))"
proof -
  have m: "mg_inv C V (apWallet s)" using assms(1) by (simp add: api_inv_def)
  note u = Unlock_inv [OF m assms(2)] and w = safe_wallet [OF assms(1)]
  have "safe_to K C V s (s\<lparr>apWallet := m'\<rparr>)" if "Unlock V (apWallet s) a pw = (r, m')" for a pw r m'
    using w u [of a pw] that by simp
  then show "safe_to K C V s (snd (walletUnlock V rq s))" "safe_to K C V s (snd (walletExport V rq s))"
    unfolding walletUnlock_def walletExport_def using assms(1)
    by (auto simp: postBody_def split: option.split prod.splits sum.split)
  show "safe_to K C V s (snd (walletLock rq' s))"
    unfolding walletLock_def using w Lock_inv [OF m] assms(1)
    by (auto simp: postBody_def split: option.splits prod.splits) (metis snd_conv)+
  show "safe_to K C V s (snd (walletSign C rq'' s))"
    using assms(1) by (auto simp: walletSign_def postBody_def split: option.split sum.split)
  show "safe_to K C V s (snd (walletDelete V rq s))"
    unfolding walletDelete_def
  proof (rule post_state)
    fix req :: UnlockRequest
    obtain r m' where "Wallet_Delete V (apWallet s) (aqAddress req) (uqPassword req) = Some (r, m')" "mg_inv C V m'"
      by (rule Delete_total [OF m assms(2)])
    then show "safe_to K C V s (snd (case Wallet_Delete V (apWallet s) (aqAddress req) (uqPassword req) of
       None \<Rightarrow> (ApiPanic, s)
     | Some (Some err, m) \<Rightarrow> (ApiErr 401 (MsgOf err), s\<lparr>apWallet := m\<rparr>)
     | Some (None, m) \<Rightarrow> (ApiOk (), s\<lparr>apWallet := m\<rparr>)))" using w by (auto split: option.split)
  qed (use assms in simp)
qed

lemma poolOrder_wallet [simp]: "poolOrder ord (s\<lparr>apWallet := m\<rparr>) = poolOrder ord s"
  by (simp add: poolOrder_def)

lemma safe_send:
  assumes "api_inv K C V s" "vault_ok V" "orders ord" "ed25519_ok C"
  shows "safe_to K C V s (snd (walletSend K C V (poolOrder ord s) t1 t2 rq s))"
  unfolding walletSend_def
proof (rule post_state)
  fix req :: SendRequest
  let ?m = "snd (Unlock V (apWallet s) (sqFrom req) (sqPassword req))"
  have "mg_inv C V ?m" using Unlock_inv assms(1,2) by (simp add: api_inv_def)
  then have u: "safe_to K C V s (s\<lparr>apWallet := ?m\<rparr>)" by (rule safe_wallet [OF assms(1)])
  with safe_sendUnlocked [of K C V "s\<lparr>apWallet := ?m\<rparr>" ord t1 t2 req] assms(3,4)
  have "safe_to K C V s (snd (sendUnlocked K C (poolOrder ord s) t1 t2 req (s\<lparr>apWallet := ?m\<rparr>)))" by simp
  with u safe_sendUnlocked [OF assms(1,3,4)]
  show "safe_to K C V s (snd (if sqPassword req \<noteq> []
     then case Unlock V (apWallet s) (sqFrom req) (sqPassword req) of
            (Some err, m) \<Rightarrow> (ApiErr 401 (Prefixed ''unlock failed: '' err), s\<lparr>apWallet := m\<rparr>)
          | (None, m) \<Rightarrow> sendUnlocked K C (poolOrder ord s) t1 t2 req (s\<lparr>apWallet := m\<rparr>)
     else sendUnlocked K C (poolOrder ord s) t1 t2 req s))"
    by (auto split: prod.split option.split)
qed (use assms in simp)

lemma api_step_safe:
  assumes "api_inv K C V s" "orders ord" "ed25519_ok C" "vault_ok V"
  shows "safe_to K C V s (api_step K C V al ord s call)"
  by (cases call; simp only: api_step.simps;
      intro safe_cors safe_apiTx safe_create safe_import safe_info safe_unlocks safe_send assms)

lemma api_step_pool:
  assumes p: "apPool s \<noteq> None"
  shows "apPool (api_step K C V al ord s call) \<noteq> None"
proof -
  have add: "apPool s'' \<noteq> None" if "poolAdd K ks t1 t2 mp tx s' = (ok, s'')" for ks t1 t2 mp tx s' ok s''
    using that by (auto simp: poolAdd_def split: prod.splits)
  have send: "apPool (snd (sendUnlocked K C ks t1 t2 req s')) \<noteq> None" if "apPool s' \<noteq> None" for ks t1 t2 req s'
    using that by (auto simp: sendUnlocked_def Let_def simp del: not_None_eq split: sum.split option.splits prod.splits dest: add)
  show ?thesis
    using p send
    by (cases call)
      (auto simp: cors_state postBody_def apiTx_def walletCreate_def walletImport_def walletInfo_def walletUnlock_def walletLock_def
        walletSend_def walletSign_def walletExport_def walletDelete_def Let_def simp del: not_None_eq
        split: if_splits option.splits sum.splits prod.splits dest: add)
qed

abbreviation apiRun :: "('d, 'b) badger \<Rightarrow> crypto \<Rightarrow> vault \<Rightarrow> string set \<Rightarrow> (Mempool \<Rightarrow> addr list) \<Rightarrow> 'd StateManager \<Rightarrow> ApiCall list \<Rightarrow> 'd Api" where
  "apiRun K C V al ord sm calls \<equiv> foldl (api_step K C V al ord) (startApi [] fmempty sm (Some NewMempool)) calls"

interpretation api: monotone_system "api_step K C V al ord" "\<lambda>s. (orders ord \<and> ed25519_ok C \<and> vault_ok V) \<and> api_inv K C V s"
    "\<lambda>x y. view K (apState y) = view K (apState x) \<and> (apPool x \<noteq> None \<longrightarrow> apPool y \<noteq> None)"
  for K :: "('d, 'b) badger" and C V al ord
  by unfold_locales (use api_step_safe api_step_pool in \<open>fastforce+\<close>)

lemma api_run:
  fixes K :: "('d, 'b) badger" and al calls
  assumes "orders ord" "ed25519_ok C" "vault_ok V" "api_inv K C V s" "apPool s \<noteq> None"
  defines "s' \<equiv> foldl (api_step K C V al ord) s calls"
  shows "api_inv K C V s'" "view K (apState s') = view K (apState s)" "apPool s' \<noteq> None"
proof -
  have i: "(orders ord \<and> ed25519_ok C \<and> vault_ok V) \<and> api_inv K C V s" using assms by simp
  show "api_inv K C V s'" "view K (apState s') = view K (apState s)" "apPool s' \<noteq> None"
    unfolding s'_def using api.inv_run [OF i] api.below_run [OF i] assms(5) by simp_all
qed

lemma api_start_inv: "sm_wf K sm \<Longrightarrow> api_inv K C V (startApi [] fmempty sm (Some NewMempool))"
  by (simp add: api_inv_def startApi_def mg_inv_def NewManager_def loadWallets_def pool_ok_def NewMempool_def mp_inv_def)

lemma apiRun_inv:
  assumes "orders ord" "ed25519_ok C" "vault_ok V" "sm_wf K sm"
  shows "api_inv K C V (apiRun K C V al ord sm calls)" "view K (apState (apiRun K C V al ord sm calls)) = view K sm"
    "apPool (apiRun K C V al ord sm calls) \<noteq> None"
  using api_run [OF assms(1-3) api_start_inv [OF assms(4)], of al calls] by (simp_all add: startApi_def)

text \<open>What a successful \<open>/api/wallet/send\<close> has done.\<close>

lemma send_ok:
  assumes "api_inv K C V s" "vault_ok V" "orders ord" "ed25519_ok C" "apPool s \<noteq> None"
    and "walletSend K C V (poolOrder ord s) t1 t2 rq s = (ApiOk (h, n), s')"
  obtains req tx mp where "rqMethod rq = ''POST''" "rqBody rq = Some req" "apPool s' = Some mp"
    "fmlookup (mpPending mp) (array32 (txSig tx)) = Some (new_entry t2 tx)"
    "h = EncodeToString (take 32 (txSig tx))" "signed_by_sender C tx" "EncodeToString (be_bytes 32 (txFrom tx)) = sqFrom req"
    "txType tx = TxTransfer" "txTo tx = array32 (fst (DecodeString (sqTo req)))" "txAmount tx = sqAmount req" "txFee tx = sqFee req"
    "txNonce tx = n" "n = accNonce (view K (apState s) (txFrom tx)) + 1" "api_inv K C V s'" "view K (apState s') = view K (apState s)"
proof -
  obtain req m where rq: "rqMethod rq = ''POST''" "rqBody rq = Some req" and m: "mg_inv C V m"
    and r: "sendUnlocked K C (poolOrder ord s) t1 t2 req (s\<lparr>apWallet := m\<rparr>) = (ApiOk (h, n), s')"
  proof -
    obtain req where "rqMethod rq = ''POST''" "rqBody rq = Some req"
      using assms(6) by (auto simp: walletSend_def postBody_def split: if_splits option.splits)
    then show thesis using assms(1,2,6) Unlock_inv [of C V "apWallet s" "sqFrom req" "sqPassword req"] that [of req "apWallet s"]
        that [of req "snd (Unlock V (apWallet s) (sqFrom req) (sqPassword req))"]
      by (auto simp: walletSend_def postBody_def api_inv_def split: if_splits option.splits prod.splits)
  qed
  let ?s = "s\<lparr>apWallet := m\<rparr>" and ?a = "array32 (fst (DecodeString (sqFrom req)))"
  let ?s1 = "?s\<lparr>apState := touch K (apState s) ?a\<rparr>"
  have s: "api_inv K C V ?s" using safe_wallet [OF assms(1) m] by simp
  obtain mp0 where mp0: "apPool s = Some mp0" using assms(5) by auto
  have ord: "map_order (mpPending mp0) (poolOrder ord s)" using assms(3) mp0 by (simp add: poolOrder_def orders_def)
  obtain tx where tx: "CreateTransaction C (apWallet ?s) (sqFrom req) (sqTo req) (sqAmount req) (sqFee req)
      (accNonce (view K (apState s) ?a) + 1) TxTransfer = Inr tx"
    and add: "poolAdd K (poolOrder ord s) t1 t2 mp0 tx ?s1 = (True, s')" "h = EncodeToString (take 32 (txSig tx))"
      "n = accNonce (view K (apState s) ?a) + 1"
    using sendUnlocked_cases [of C ?s req K "poolOrder ord s" t1 t2] r mp0 by (auto split: if_splits)
  note c = created_signed [OF s assms(4) tx]
  obtain mp where "apPool s' = Some mp" "fmlookup (mpPending mp) (array32 (txSig tx)) = Some (new_entry t2 tx)"
    using poolAdd_spec [OF ord add(1)] by metis
  moreover have "safe_to K C V ?s (snd (sendUnlocked K C (poolOrder ord ?s) t1 t2 req ?s))"
    by (rule safe_sendUnlocked [OF s assms(3,4)])
  ultimately show thesis using that [OF rq, of mp tx] c add(2,3) r by simp
qed

lemma delete_no_panic:
  assumes "mg_inv C V (apWallet s)" "vault_ok V"
  shows "fst (walletDelete V rq s) \<noteq> ApiPanic"
proof -
  have "Wallet_Delete V (apWallet s) a pw \<noteq> None" for a pw
    using Delete_total [OF assms, of a pw] by (metis option.distinct(1))
  then show ?thesis
    by (auto simp: walletDelete_def postBody_def simp del: not_None_eq split: option.split)
qed

lemma transfer_executes:
  assumes "sm_wf K sm" "txType tx = TxTransfer" "txNonce tx = accNonce (view K sm (txFrom tx)) + 1"
  shows "fst (Execute K sm tx ts) \<longleftrightarrow>
    0 < txAmount tx \<and> txFrom tx \<noteq> txTo tx
    \<and> unat (txAmount tx) + unat (txFee tx) \<le> unat (accBalance (view K sm (txFrom tx)))
    \<and> unat (accBalance (view K sm (txTo tx))) + unat (txAmount tx) < 2 ^ 64"
  unfolding executeD(4) [OF assms(1)] using assms(2,3)
  by (auto simp: spec_execute_def spec_effect_def spec_transfer_def ledger_def unat_add_u64 Let_def word_less_nat_alt)

text \<open>A wallet stays unlocked until it is locked or deleted.\<close>

definition unlocked :: "Manager \<Rightarrow> string \<Rightarrow> bool" where
  "unlocked m a \<longleftrightarrow> (case fmlookup (mgWallets m) a of Some w \<Rightarrow> wUnlocked w | None \<Rightarrow> False)"

fun closes :: "string \<Rightarrow> ApiCall \<Rightarrow> bool" where
  "closes a (CallLock rq) \<longleftrightarrow> map_option aqAddress (rqBody rq) = Some a"
| "closes a (CallDelete rq) \<longleftrightarrow> map_option aqAddress (rqBody rq) = Some a"
| "closes a _ \<longleftrightarrow> False"

lemma install_unlocked: "unlocked m a \<Longrightarrow> unlocked (snd (installWallet C V rnd now ok m mn pw lb)) a"
  by (auto simp: unlocked_def installWallet_def saveWallet_def Let_def split: option.splits)

lemma Create_unlocked: "unlocked m a \<Longrightarrow> unlocked (snd (Create C V idx rnd now ok m pw lb)) a"
  using install_unlocked [of m a C V rnd now ok "generateMnemonic 12 idx" pw lb]
  by (auto simp: Create_def Let_def split: prod.splits sum.splits)

lemma Import_unlocked: "unlocked m a \<Longrightarrow> unlocked (snd (Import C V rnd now ok m mn pw lb)) a"
  using install_unlocked [of m a C V rnd now ok mn pw lb]
  by (auto simp: Import_def split: prod.splits sum.splits)

lemma Unlock_unlocked:
  "Unlock V m a' pw = (r, m') \<Longrightarrow> unlocked m a \<Longrightarrow> unlocked m' a"
  "Unlock V m a pw = (None, m') \<Longrightarrow> unlocked m' a"
  by (auto simp: unlocked_def Unlock_def updWallet_def split: option.splits if_splits)

lemma sendUnlocked_wallet: "apWallet (snd (sendUnlocked K C ks t1 t2 req s)) = apWallet s"
  by (auto simp: sendUnlocked_def poolAdd_def Let_def split: sum.splits option.splits prod.splits if_splits)

lemma closed_unlocked:
  "unlocked m a \<Longrightarrow> a' \<noteq> a \<Longrightarrow> Wallet_Lock m a' = (r, m') \<Longrightarrow> unlocked m' a"
  "unlocked m a \<Longrightarrow> a' \<noteq> a \<Longrightarrow> Wallet_Delete V m a' pw = Some (r, m') \<Longrightarrow> unlocked m' a"
proof -
  show "unlocked m a \<Longrightarrow> a' \<noteq> a \<Longrightarrow> Wallet_Lock m a' = (r, m') \<Longrightarrow> unlocked m' a"
    by (auto simp: unlocked_def Wallet_Lock_def updWallet_def split: option.splits)
  assume u: "unlocked m a" "a' \<noteq> a" and d: "Wallet_Delete V m a' pw = Some (r, m')"
  obtain r1 m1 where U: "Unlock V m a' pw = (r1, m1)" by fastforce
  have "unlocked m1 a" using Unlock_unlocked(1) [OF U u(1)] .
  then show "unlocked m' a" using d U u(2)
    by (auto simp: Wallet_Delete_def Let_def unlocked_def split: option.splits if_splits)
qed

lemma api_step_unlocked:
  assumes "unlocked (apWallet s) a" "\<not> closes a call"
  shows "unlocked (apWallet (api_step K C V al ord s call)) a"
proof -
  have post: "unlocked (apWallet (snd (postBody bad f rq s))) a"
    if "\<And>b. rqBody rq = Some b \<Longrightarrow> unlocked (apWallet (snd (f b s))) a" for bad f rq
    using assms(1) that by (auto simp: postBody_def split: option.split)
  show ?thesis
  proof (cases call)
    case (CallCreate idx rnd now ok rq)
    then show ?thesis using assms(1) Create_unlocked [OF assms(1), of C V idx rnd now ok]
      by (auto simp: cors_state walletCreate_def split: prod.splits sum.splits intro!: post) (metis snd_conv)+
  next
    case (CallImport rnd now ok rq)
    then show ?thesis using assms(1) Import_unlocked [OF assms(1), of C V rnd now ok]
      by (auto simp: cors_state walletImport_def split: prod.splits sum.splits intro!: post) (metis snd_conv)+
  next
    case (CallLock rq)
    then show ?thesis using assms closed_unlocked(1) [OF assms(1)]
      by (auto simp: cors_state walletLock_def split: prod.splits option.splits intro!: post)
  next
    case (CallDelete rq)
    then show ?thesis using assms closed_unlocked(2) [OF assms(1)]
      by (auto simp: cors_state walletDelete_def split: prod.splits option.splits intro!: post)
  qed (use assms(1) in \<open>auto simp: cors_state apiTx_def walletInfo_def walletUnlock_def walletSend_def walletSign_def walletExport_def
      poolAdd_def sendUnlocked_wallet Let_def split: prod.splits option.splits sum.splits intro!: post dest: Unlock_unlocked(1)\<close>)
qed

lemma api_run_unlocked:
  "unlocked (apWallet s) a \<Longrightarrow> \<forall>call\<in>set calls. \<not> closes a call \<Longrightarrow>
     unlocked (apWallet (foldl (api_step K C V al ord) s calls)) a"
  by (induction calls arbitrary: s) (simp_all add: api_step_unlocked)

text \<open>Splitting undoes joining.\<close>

fun Join :: "string \<Rightarrow> string list \<Rightarrow> string" where
  "Join sep [] = []"
| "Join sep [x] = x"
| "Join sep (x # xs) = x @ sep @ Join sep xs"

lemma strIndex_char: "strIndex s [c] = (if c \<in> set s then Some (length (takeWhile (\<lambda>d. d \<noteq> c) s)) else None)"
  by (induction s) auto

lemma Split_char:
  "c \<notin> set x \<Longrightarrow> Split x [c] = [x]"
  "c \<notin> set x \<Longrightarrow> Split (x @ c # r) [c] = x # Split r [c]"
proof -
  assume x: "c \<notin> set x"
  then show "Split x [c] = [x]" by (subst Split.simps) (simp add: strIndex_char)
  have "takeWhile (\<lambda>d. d \<noteq> c) (x @ c # r) = x" using x by (subst takeWhile_append2) auto
  then show "Split (x @ c # r) [c] = x # Split r [c]" by (subst Split.simps) (simp add: strIndex_char)
qed

lemma Split_Join: "ps \<noteq> [] \<Longrightarrow> \<forall>p\<in>set ps. c \<notin> set p \<Longrightarrow> Split (Join [c] ps) [c] = ps"
  by (induction "[c]" ps rule: Join.induct) (simp_all add: Split_char)

text \<open>Keys of the recency list are keys that were set.\<close>

lemma recency_keys:
  "fst ` set (foldl (recency_step n) xs (map (\<lambda>v. CSet (key v) (val v)) vs)) \<subseteq> fst ` set xs \<union> key ` set vs"
proof (induction vs arbitrary: xs)
  case (Cons v vs)
  have "fst ` set (recency_step n xs (CSet (key v) (val v))) \<subseteq> fst ` set xs \<union> {key v}"
    by (auto dest!: in_set_takeD)
  then show ?case using Cons.IH [of "recency_step n xs (CSet (key v) (val v))"]
    by (simp del: recency_step.simps) blast
qed simp

text \<open>When a send succeeds.\<close>

lemma send_accepts:
  assumes "api_inv K C V s" "ed25519_ok C" "orders ord" "unlocked (apWallet s) (hex_id f)" "apPool s = Some mp" "Count mp < 10000"
    and "DecodeString b = (bs, True)" "length bs = 32" "1000 \<le> unat txfee"
    and n: "accNonce (view K (apState s) f) < accNonce (view K (apState s) f) + 1"
    and fresh: "\<And>tx. signed_by_sender C tx \<Longrightarrow> txAmount tx = amount \<Longrightarrow> fmlookup (mpPending mp) (array32 (txSig tx)) = None"
  defines "req \<equiv> \<lparr>sqFrom = hex_id f, sqTo = b, sqAmount = amount, sqFee = txfee, sqPassword = []\<rparr>"
  obtains tx s' where "walletSend K C V (poolOrder ord s) t1 t2 \<lparr>rqMethod = ''POST'', rqOrigin = og, rqBody = Some req\<rparr> s =
      (ApiOk (EncodeToString (take 32 (txSig tx)), accNonce (view K (apState s) f) + 1), s')"
    "signed_by_sender C tx" "txAmount tx = amount" "unlocked (apWallet s') (hex_id f)"
    "\<exists>mp'. apPool s' = Some mp' \<and> (\<forall>k e. fmlookup (mpPending mp') k = Some e \<longrightarrow>
       fmlookup (mpPending mp) k = Some e \<or> (k = array32 (txSig tx) \<and> e = new_entry t2 tx))"
proof -
  let ?n = "accNonce (view K (apState s) f) + 1" and ?s1 = "s\<lparr>apState := touch K (apState s) f\<rparr>"
  obtain tx where tx: "CreateTransaction C (apWallet s) (hex_id f) b amount txfee ?n TxTransfer = Inr tx"
    using assms(4,7,8) by (auto simp: CreateTransaction_def unlocked_def Let_def split: option.splits)
  note c = created_signed [OF assms(1,2) tx]
  have f: "txFrom tx = f" using c(9) by simp
  have ord: "map_order (mpPending mp) (poolOrder ord s)" using assms(3,5) by (simp add: poolOrder_def orders_def)
  obtain ok s' where p: "poolAdd K (poolOrder ord s) t1 t2 mp tx ?s1 = (ok, s')" by fastforce
  obtain mp' where mp': "apPool s' = Some mp'" "apWallet s' = apWallet ?s1"
    "\<And>k e. fmlookup (mpPending mp') k = Some e \<Longrightarrow> fmlookup (mpPending mp) k = Some e \<or> (ok \<and> k = array32 (txSig tx) \<and> e = new_entry t2 tx)"
    "ok \<longleftrightarrow> acceptable K t1 mp (Some (apState ?s1)) tx"
    by (rule poolAdd_spec [OF ord p]) (use assms(6) in blast)
  have ok using mp'(4) fresh [OF c(1,5)] n c(3,6,7) f assms(9) by (simp add: acceptable_def IsExpired_def)
  then have "walletSend K C V (poolOrder ord s) t1 t2 \<lparr>rqMethod = ''POST'', rqOrigin = og, rqBody = Some req\<rparr> s =
      (ApiOk (EncodeToString (take 32 (txSig tx)), ?n), s')"
    using sendUnlocked_cases [of C s req K "poolOrder ord s" t1 t2] tx assms(5) p
    by (auto simp: walletSend_def postBody_def req_def)
  then show thesis using that [of tx s'] c(1,5) mp' assms(4) by auto
qed

section \<open>Properties\<close>

text \<open>C24: what the HTTP API can do. Starting on an empty wallet directory and mempool, after any sequence
  of requests with any bodies and origins, no account has changed, the pool holds at most 10000
  transactions, and every one of them carries a signature of 64 bytes that verifies under its sender,
  pays the minimum fee and has a nonce that is not used yet. Nor does the deletion handler, which slices
  the address, ever panic.\<close>

theorem api_safety:
  assumes "orders ord" and "ed25519_ok C" and "vault_ok V" and "sm_wf K sm"
    and "s = apiRun K C V al ord sm calls"
  shows "view K (apState s) = view K sm
    \<and> (\<exists>mp. apPool s = Some mp \<and> Count mp \<le> 10000
         \<and> (\<forall>k e. fmlookup (mpPending mp) k = Some e \<longrightarrow>
              length (txSig (meTx e)) = 64
              \<and> ed_verify C (txFrom (meTx e)) (SerializeForSigning (meTx e)) (txSig (meTx e))
              \<and> 1000 \<le> unat (txFee (meTx e))
              \<and> accNonce (view K sm (txFrom (meTx e))) < txNonce (meTx e)))
    \<and> fst (walletDelete V rq s) \<noteq> ApiPanic"
proof -
  note i = apiRun_inv [OF assms(1-4), of al calls, folded assms(5)]
  then obtain mp where mp: "apPool s = Some mp" by auto
  with i(1) have pool: "pool_ok C (view K (apState s)) mp" by (simp add: api_inv_def)
  have "mg_inv C V (apWallet s)" using i(1) by (simp add: api_inv_def)
  then have "fst (walletDelete V rq s) \<noteq> ApiPanic" by (rule delete_no_panic [OF _ assms(3)])
  then show ?thesis using pool mp i(2)
    by (auto simp: pool_ok_def signed_by_sender_def mp_inv_def Count_def MaxMempoolSize_def MinFee_def word_le_nat_alt)
qed

text \<open>C25: sending from a wallet, end to end. When \<open>/api/wallet/send\<close> answers success, exactly the requested
  transfer is pending, signed by the wallet's address and with the next nonce of its account, and the
  answered hash is that of its signature. Executed on the current accounts it succeeds if and only if
  the amount is positive, sender and recipient differ, the balance covers amount and fee and the
  recipient's balance does not overflow: none of this is checked before the answer.\<close>

theorem wallet_send:
  assumes "orders ord" and "ed25519_ok C" and "vault_ok V" and "sm_wf K sm"
    and "s = apiRun K C V al ord sm calls"
    and "walletSend K C V (poolOrder ord s) t1 t2 rq s = (ApiOk (h, n), s')"
  shows "\<exists>req tx mp. rqBody rq = Some req \<and> apPool s' = Some mp
    \<and> fmlookup (mpPending mp) (array32 (txSig tx)) = Some (new_entry t2 tx)
    \<and> h = EncodeToString (take 32 (txSig tx)) \<and> n = accNonce (view K sm (txFrom tx)) + 1
    \<and> ed_verify C (txFrom tx) (SerializeForSigning tx) (txSig tx)
    \<and> hex_id (txFrom tx) = sqFrom req \<and> txTo tx = array32 (fst (DecodeString (sqTo req)))
    \<and> txAmount tx = sqAmount req \<and> txFee tx = sqFee req \<and> txNonce tx = n
    \<and> (fst (Execute K (apState s') tx ts) \<longleftrightarrow>
         0 < txAmount tx \<and> txFrom tx \<noteq> txTo tx
         \<and> unat (txAmount tx) + unat (txFee tx) \<le> unat (accBalance (view K sm (txFrom tx)))
         \<and> unat (accBalance (view K sm (txTo tx))) + unat (txAmount tx) < 2 ^ 64)"
proof -
  note i = apiRun_inv [OF assms(1-4), of al calls, folded assms(5)]
  obtain req tx mp where "rqMethod rq = ''POST''" and r: "rqBody rq = Some req" "apPool s' = Some mp"
    "fmlookup (mpPending mp) (array32 (txSig tx)) = Some (new_entry t2 tx)"
    "h = EncodeToString (take 32 (txSig tx))" "signed_by_sender C tx" "EncodeToString (be_bytes 32 (txFrom tx)) = sqFrom req"
    "txType tx = TxTransfer" "txTo tx = array32 (fst (DecodeString (sqTo req)))" "txAmount tx = sqAmount req" "txFee tx = sqFee req"
    "txNonce tx = n" "n = accNonce (view K (apState s) (txFrom tx)) + 1" "api_inv K C V s'" "view K (apState s') = view K (apState s)"
    by (rule send_ok [OF i(1) assms(3,1,2) i(3) assms(6)])
  moreover have "sm_wf K (apState s')" using r(13) by (simp add: api_inv_def)
  ultimately show ?thesis
    using transfer_executes [of K "apState s'" tx ts] i(2)
    by (intro exI [of _ req] exI [of _ tx] exI [of _ mp]) (simp add: signed_by_sender_def)
qed

text \<open>Two sends before a block. The nonce of a send is computed from the executed state alone, so two
  successful sends from one wallet with only API requests in between get the same nonce, and at most
  one of the two can ever be executed: once one of them is, the other is rejected whatever is executed
  in between (fewer than \<open>2\<^sup>6\<^sup>4 - 1\<close> transactions).\<close>

theorem send_clash:
  assumes "orders ord" and "ed25519_ok C" and "vault_ok V" and "sm_wf K sm"
    and "s = apiRun K C V al ord sm calls"
    and "walletSend K C V (poolOrder ord s) t1 t2 (rq\<lparr>rqBody := Some req\<rparr>) s = (ApiOk (h, n), s1)"
    and "s2 = foldl (api_step K C V al ord) s1 calls'"
    and "walletSend K C V (poolOrder ord s2) t3 t4 (rq'\<lparr>rqBody := Some req'\<rparr>) s2 = (ApiOk (h', n'), s3)"
    and "sqFrom req' = sqFrom req" and "length es < 2 ^ 64 - 1"
  shows "n' = n \<and> (\<exists>tx tx' mp mp'.
      apPool s1 = Some mp \<and> fmlookup (mpPending mp) (array32 (txSig tx)) = Some (new_entry t2 tx)
    \<and> apPool s3 = Some mp' \<and> fmlookup (mpPending mp') (array32 (txSig tx')) = Some (new_entry t4 tx')
    \<and> h = EncodeToString (take 32 (txSig tx)) \<and> h' = EncodeToString (take 32 (txSig tx'))
    \<and> (\<forall>sm0 sm1 ts ts'. sm_wf K sm0 \<and> Execute K sm0 tx ts = (True, sm1) \<longrightarrow>
         \<not> fst (Execute K (foldl (exec_step K) sm1 es) tx' ts'))
    \<and> (\<forall>sm0 sm1 ts ts'. sm_wf K sm0 \<and> Execute K sm0 tx' ts = (True, sm1) \<longrightarrow>
         \<not> fst (Execute K (foldl (exec_step K) sm1 es) tx ts')))"
proof -
  note i = apiRun_inv [OF assms(1-4), of al calls, folded assms(5)]
  obtain mp tx where a: "apPool s1 = Some mp" "fmlookup (mpPending mp) (array32 (txSig tx)) = Some (new_entry t2 tx)"
    "h = EncodeToString (take 32 (txSig tx))" "hex_id (txFrom tx) = sqFrom req" "txNonce tx = n"
    "n = accNonce (view K (apState s) (txFrom tx)) + 1" "api_inv K C V s1" "view K (apState s1) = view K (apState s)"
    by (rule send_ok [OF i(1) assms(3,1,2) i(3) assms(6)]) simp
  have "apPool s1 \<noteq> None" using a(1) by simp
  note j = api_run [OF assms(1-3) a(7) this, of al calls', folded assms(7)]
  obtain mp' tx' where b: "apPool s3 = Some mp'" "fmlookup (mpPending mp') (array32 (txSig tx')) = Some (new_entry t4 tx')"
    "h' = EncodeToString (take 32 (txSig tx'))" "hex_id (txFrom tx') = sqFrom req'" "txNonce tx' = n'"
    "n' = accNonce (view K (apState s2) (txFrom tx')) + 1"
    by (rule send_ok [OF j(1) assms(3,1,2) j(3) assms(8)]) simp
  have "DecodeString (hex_id (txFrom tx')) = DecodeString (hex_id (txFrom tx))" using a(4) b(4) assms(9) by simp
  then have from_eq: "txFrom tx' = txFrom tx" by simp
  then have n: "n' = n" using a(6,8) b(6) j(2) by simp
  then show ?thesis using a b from_eq assms(10) nonce_spent [of K _ tx _ _ es tx'] nonce_spent [of K _ tx' _ _ es tx] by metis
qed

text \<open>Transaction submission. While the pool is not full, \<open>/api/tx\<close> accepts a transaction exactly when it carries
  a signature of 64 bytes that verifies under its sender, pays the minimum fee, moves a positive amount
  if it is a transfer, is not expired, has an unused nonce and no pending transaction has its signature
  prefix. Then it is pending and the answer is the hash of its signature; otherwise the pool is as before.\<close>

theorem api_tx:
  assumes "rqMethod rq = ''POST''" and "rqBody rq = Some tx" and "apPool s = Some mp" and "Count mp < 10000"
    and "orders ord" and "apiTx K C (poolOrder ord s) t1 t2 rq s = (r, s')"
  shows "((\<exists>h. r = ApiOk h) \<longleftrightarrow>
      length (txSig tx) = 64 \<and> ed_verify C (txFrom tx) (SerializeForSigning tx) (txSig tx)
      \<and> 1000 \<le> unat (txFee tx) \<and> (txType tx = TxTransfer \<longrightarrow> txAmount tx \<noteq> 0)
      \<and> \<not> IsExpired tx (UnixNano t1) \<and> accNonce (view K (apState s) (txFrom tx)) < txNonce tx
      \<and> fmlookup (mpPending mp) (array32 (txSig tx)) = None)
    \<and> (\<forall>h. r = ApiOk h \<longrightarrow> h = EncodeToString (take 32 (txSig tx))
         \<and> (\<exists>mp'. apPool s' = Some mp' \<and> fmlookup (mpPending mp') (array32 (txSig tx)) = Some (new_entry t2 tx)))
    \<and> ((\<nexists>h. r = ApiOk h) \<longrightarrow> apPool s' = apPool s)
    \<and> view K (apState s') = view K (apState s)"
proof -
  let ?ks = "poolOrder ord s"
  have ord: "map_order (mpPending mp) ?ks" using assms(3,5) by (simp add: poolOrder_def orders_def)
  obtain ok s1 where p: "poolAdd K ?ks t1 t2 mp tx s = (ok, s1)" by fastforce
  obtain mp' where mp': "apPool s1 = Some mp'" "view K (apState s1) = view K (apState s)"
    "ok \<Longrightarrow> fmlookup (mpPending mp') (array32 (txSig tx)) = Some (new_entry t2 tx)"
    "ok \<longleftrightarrow> acceptable K t1 mp (Some (apState s)) tx"
    by (rule poolAdd_spec [OF ord p]) (use assms(4) in blast)
  have "Mempool_Add K ?ks t1 t2 mp (Some (apState s)) tx = admit K t1 t2 mp (Some (apState s)) tx"
    using assms(4) by (simp add: Mempool_Add_def Count_def MaxMempoolSize_def)
  then have "\<not> ok \<longrightarrow> apPool s1 = Some mp" using p admit_eq(2) [of K t1 t2 mp "Some (apState s)" tx] mp'(4)
    by (auto simp: poolAdd_def split: prod.splits)
  then show ?thesis
    using assms(1-3,6) p mp' unfolding apiTx_def postBody_def
    by (auto simp: verify_iff signed_by_sender_def acceptable_def MinFee_def word_less_nat_alt split: if_splits)
qed

text \<open>The hash that is answered is not the hash of the explorer. \<open>/api/tx\<close> and \<open>/api/wallet/send\<close> answer the
  first half of the signature, the index is keyed by all of it. So whatever blocks come in, the answered
  hash is unknown to \<open>/api/transaction\<close>, and \<open>/api/search\<close> takes it for an address (or for a block with the
  same hash), as long as all indexed signatures have 64 bytes.\<close>

theorem tx_hash_lost:
  assumes "fst (apiTx K C ks t1 t2 rq s) = ApiOk h"
    and "liveIndex X vs = Some ix" and "\<forall>v\<in>set vs. \<forall>tx\<in>set (blockTxs X v). length (txSig tx) = 64"
  shows "fst (apiTransaction ix h) = Inl (404, ''tx not found'')
    \<and> fst (apiSearch ix h) \<in> {SearchAddress h, SearchBlock h}"
proof -
  have h: "length h = 64"
    using assms(1) by (auto simp: apiTx_def postBody_def Let_def split: if_splits option.splits prod.splits)
  let ?txs = "concat (map (blockTxs X) vs)"
  obtain ix' where "liveIndex X vs = Some ix'" "ix_inv (historyLog X vs) ix'"
    "entries (ixTx ix') = foldl (recency_step 50000) [] (map (\<lambda>tx. CSet (EncodeToString (txSig tx)) tx) ?txs)"
    by (rule live_ok)
  then have ix: "ix_inv (historyLog X vs) ix"
    "entries (ixTx ix) = foldl (recency_step 50000) [] (map (\<lambda>tx. CSet (EncodeToString (txSig tx)) tx) ?txs)"
    using assms(2) by simp_all
  then have "fst ` set (entries (ixTx ix)) \<subseteq> (\<lambda>tx. EncodeToString (txSig tx)) ` set ?txs"
    using recency_keys [of 50000 "[]" "\<lambda>tx. EncodeToString (txSig tx)" "\<lambda>tx. tx" ?txs] by simp
  moreover have "h \<notin> (\<lambda>tx. EncodeToString (txSig tx)) ` set ?txs" using h assms(3) by auto
  ultimately have "map_of (entries (ixTx ix)) h = None" by (auto simp: map_of_eq_None_iff)
  moreover have "lru_inv (ixTx ix)" using ix(1) by (simp add: ix_inv_def lru_ok_def)
  ultimately have "fst (LRU_Get (ixTx ix) h) = None" by (simp add: Get_refines(1))
  then show ?thesis using h by (auto simp: apiTransaction_def apiSearch_def split: prod.splits option.splits)
qed

text \<open>Unlocking has no end. Once the private key was exported with the password, or a send from the
  wallet succeeded, the wallet stays unlocked through any later requests except a lock or a deletion
  of it: then \<open>/api/wallet/sign\<close> signs any transaction for it, for any origin and without a password, and the
  signature verifies under the wallet's address.\<close>

theorem unlock_sticky:
  assumes "orders ord" and "ed25519_ok C" and "vault_ok V" and "sm_wf K sm"
    and "s = apiRun K C V al ord sm calls"
    and "(\<exists>key. walletExport V \<lparr>rqMethod = ''POST'', rqOrigin = og, rqBody = Some \<lparr>aqAddress = a, uqPassword = pw\<rparr>\<rparr> s = (ApiOk key, s1))
      \<or> (\<exists>hn req. sqFrom req = a \<and> walletSend K C V (poolOrder ord s) t1 t2
            \<lparr>rqMethod = ''POST'', rqOrigin = og, rqBody = Some req\<rparr> s = (ApiOk hn, s1))"
    and "s2 = foldl (api_step K C V al ord) s1 calls'" and "\<forall>call\<in>set calls'. \<not> closes a call"
  shows "\<exists>r tx'. hdReply (fst (corsHandler al (walletSign C)
        \<lparr>rqMethod = ''POST'', rqOrigin = og', rqBody = Some \<lparr>gqAddress = a, gqTx = tx\<rparr>\<rparr> s2)) = ApiOk r
    \<and> srSignature r = EncodeToString (txSig tx') \<and> hex_id (txFrom tx') = a
    \<and> tx' = tx\<lparr>txFrom := txFrom tx', txSig := txSig tx'\<rparr>
    \<and> ed_verify C (txFrom tx') (SerializeForSigning tx') (txSig tx')"
proof -
  note i = apiRun_inv [OF assms(1-4), of al calls, folded assms(5)]
  have send: "unlocked (apWallet s0) (sqFrom req)" if "fst (sendUnlocked K C ks t1 t2 req s0) = ApiOk hn" for s0 req ks hn
    using that by (auto simp: sendUnlocked_def CreateTransaction_def unlocked_def Let_def split: option.splits if_splits prod.splits)
  have "api_inv K C V s1 \<and> unlocked (apWallet s1) a"
    using assms(6)
  proof (elim disjE exE conjE)
    fix key
    let ?rq = "\<lparr>rqMethod = ''POST'', rqOrigin = og, rqBody = Some \<lparr>aqAddress = a, uqPassword = pw\<rparr>\<rparr>"
    assume e: "walletExport V ?rq s = (ApiOk key, s1)"
    then have "unlocked (apWallet s1) a"
      by (auto simp: walletExport_def postBody_def ExportPrivateKey_def unlocked_def split: option.splits prod.splits sum.splits if_splits)
    then show ?thesis using safe_unlocks(2) [OF i(1) assms(3), of ?rq] e by simp
  next
    fix hn and req :: SendRequest
    let ?rq = "\<lparr>rqMethod = ''POST'', rqOrigin = og, rqBody = Some req\<rparr>"
    assume a: "sqFrom req = a" and e: "walletSend K C V (poolOrder ord s) t1 t2 ?rq s = (ApiOk hn, s1)"
    have "\<exists>s0. sendUnlocked K C (poolOrder ord s) t1 t2 req s0 = (ApiOk hn, s1)"
      using e by (auto simp: walletSend_def postBody_def split: if_splits option.splits prod.splits)
    then have "unlocked (apWallet s1) a"
      using send [of "poolOrder ord s" req _ hn] sendUnlocked_wallet [of K C "poolOrder ord s" t1 t2 req] a by (metis fst_conv snd_conv)
    then show ?thesis using safe_send [OF i(1) assms(3,1,2), of t1 t2 ?rq] e by simp
  qed
  then have s2: "api_inv K C V s2 \<and> unlocked (apWallet s2) a"
    using api.inv_run [of ord C V K s1 al calls'] api_run_unlocked [of s1 a calls' K C V al ord] assms by simp
  then have m: "mg_inv C V (apWallet s2)" by (simp add: api_inv_def)
  obtain r tx' where sg: "Wallet_Sign C (apWallet s2) a tx = (Inr r, tx')"
    using s2 by (cases "Wallet_Sign C (apWallet s2) a tx") (auto simp: Wallet_Sign_def unlocked_def Let_def split: option.splits)
  then show ?thesis using Sign_unlocked [OF m assms(2) sg]
    by (intro exI [of _ r] exI [of _ tx']) (simp add: corsHandler_def walletSign_def postBody_def Let_def)
qed

text \<open>The origin list. The configured value is split at commas, blanks around an entry and empty
  entries do not count. With no entry every origin is allowed; otherwise the header names the origin
  only if it is listed, is \<open>*\<close> for requests without an origin, and is left out else. The header is all
  that depends on the origin: a request from an unlisted origin is executed and answered like any other.\<close>

theorem cors_policy:
  assumes "getenv ''SUPERNOVA_ALLOWED_ORIGINS'' = Join '','' ps" and "\<forall>p\<in>set ps. CHR '','' \<notin> set p"
    and "al = allowedOrigins getenv"
  shows "al = TrimSpace ` set ps - {[]}
    \<and> hdAllowOrigin (fst (corsHandler al f rq s)) =
        (if al = {} \<or> rqOrigin rq = [] then Some ''*'' else if rqOrigin rq \<in> al then Some (rqOrigin rq) else None)
    \<and> hdReply (fst (corsHandler al f rq s)) = (if rqMethod rq = ''OPTIONS'' then ApiPreflight else fst (f rq s))
    \<and> snd (corsHandler al f rq s) = (if rqMethod rq = ''OPTIONS'' then s else snd (f rq s))"
proof -
  have al: "al = TrimSpace ` set ps - {[]}"
  proof (cases "Join '','' ps = []")
    case True
    then have "set ps \<subseteq> {[]}" by (induction "'',''" ps rule: Join.induct) auto
    moreover have "TrimSpace [] = []" by (simp add: TrimSpace_def)
    ultimately have "TrimSpace ` set ps - {[]} = {}" by auto
    then show ?thesis using True assms(1,3) by (simp add: allowedOrigins_def getEnvOrDefault_def)
  next
    case False
    then have "ps \<noteq> []" by auto
    then have "Split (Join '','' ps) '','' = ps" using Split_Join assms(2) by blast
    then show ?thesis using False assms(1,3) by (auto simp: allowedOrigins_def getEnvOrDefault_def splitTrim_def)
  qed
  then show ?thesis by (auto simp: corsHandler_def corsOrigin_def Let_def split: prod.split)
qed

section \<open>Witnesses\<close>

text \<open>A signature scheme whose signatures start with the amount, the fee, the nonce and the timestamp.\<close>

definition api_crypto :: crypto where
  "api_crypto = demo_crypto
     \<lparr>ed_verify := (\<lambda>pk msg sig. sig = be_bytes 32 (array32 (drop 65 msg)) @ be_bytes 32 pk),
      ed_sign := (\<lambda>priv msg. be_bytes 32 (array32 (drop 65 msg)) @ be_bytes 32 (array32 (drop 32 priv)))\<rparr>"

lemma api_crypto_ok: "ed25519_ok api_crypto"
  by (simp add: ed25519_ok_def api_crypto_def demo_crypto_def)

lemma api_prefix:
  assumes "signed_by_sender api_crypto tx" "signed_by_sender api_crypto tx'" "array32 (txSig tx) = array32 (txSig tx')"
  shows "txAmount tx = txAmount tx'"
proof -
  have p: "array32 (txSig t) = array32 (drop 65 (SerializeForSigning t))" if "signed_by_sender api_crypto t" for t
    using that by (simp add: signed_by_sender_def api_crypto_def array32_append)
  have d: "drop 65 (SerializeForSigning t) = be_bytes 8 (txAmount t) @ be_bytes 8 (txFee t) @ be_bytes 8 (txNonce t) @ be_bytes 8 (txTimestamp t)" for t
    by (simp add: SerializeForSigning_def)
  then have "length (drop 65 (SerializeForSigning t)) = 32" for t by (simp only: length_append length_be_bytes)
  then have "drop 65 (SerializeForSigning tx) = drop 65 (SerializeForSigning tx')"
    using assms(3) p [OF assms(1)] p [OF assms(2)] be_bytes_array32 by metis
  then show ?thesis unfolding d by simp
qed

definition demo_user :: addr where
  "demo_user = ed_public api_crypto (mnemonic_key api_crypto demo_words)"

definition demo_create_call :: ApiCall where
  "demo_create_call = CallCreate (\<lambda>_. 0) demo_rnd 7 True
     \<lparr>rqMethod = ''POST'', rqOrigin = [], rqBody = Some \<lparr>cqPassword = ''secret phrase'', cqLabel = ''main''\<rparr>\<rparr>"

definition demo_send :: "u64 \<Rightarrow> SendRequest" where
  "demo_send n = \<lparr>sqFrom = hex_id demo_user, sqTo = hex_id 2, sqAmount = n, sqFee = 1000, sqPassword = []\<rparr>"

definition demo_request :: "u64 \<Rightarrow> SendRequest request" where
  "demo_request n = \<lparr>rqMethod = ''POST'', rqOrigin = ''https://any'', rqBody = Some (demo_send n)\<rparr>"

abbreviation demo_api :: "(bytes \<rightharpoonup> Account) Api" where
  "demo_api \<equiv> apiRun mem_badger api_crypto demo_vault {} key_order demo_sm [demo_create_call]"

lemma demo_api_facts:
  "unlocked (apWallet demo_api) (hex_id demo_user)" "apPool demo_api = Some NewMempool" "apState demo_api = demo_sm"
proof -
  have r: "rdSalt demo_rnd = Some 5" "rdNonce demo_rnd = Some 9" by (simp_all add: demo_rnd_def)
  obtain m1 where m1: "Create api_crypto demo_vault (\<lambda>_. 0) demo_rnd 7 True (NewManager [] ''./wallets'' fmempty) ''secret phrase'' ''main'' =
       (Inr \<lparr>crAddress = hex_id demo_user, crPublicKey = hex_id demo_user, crMnemonic = demo_words, crCreatedAt = 7\<rparr>, m1)"
    "fmlookup (mgWallets m1) (hex_id demo_user) =
       Some (sealed_wallet api_crypto demo_vault 5 9 7 (mnemonic_key api_crypto demo_words) ''secret phrase'' ''main'')"
    using Create_ok [OF demo_vault_ok r, of True "NewManager [] ''./wallets'' fmempty" api_crypto "\<lambda>_. 0" 7 "''secret phrase''" "''main''"]
    by (metis demo_user_def demo_words_def key_address_def)
  have s: "demo_api = \<lparr>apWallet = m1, apState = demo_sm, apPool = Some NewMempool\<rparr>"
    by (simp add: demo_create_call_def startApi_def cors_state walletCreate_def postBody_def m1(1))
  show "unlocked (apWallet demo_api) (hex_id demo_user)" "apPool demo_api = Some NewMempool" "apState demo_api = demo_sm"
    using m1(2) unfolding s by (simp_all add: unlocked_def sealed_wallet_def)
qed

lemma demo_inv: "api_inv mem_badger api_crypto demo_vault demo_api"
  by (rule apiRun_inv(1) [OF key_order_orders api_crypto_ok demo_vault_ok demo_wf])

lemma demo_nonce: "accNonce (view mem_badger demo_sm a) = 0"
  by (simp add: demo_view zeroAccount_def)

text \<open>A send of any amount from a sound state with a small pool that has no transaction of that amount.\<close>

lemma demo_sends:
  assumes "api_inv mem_badger api_crypto demo_vault s" "unlocked (apWallet s) (hex_id demo_user)"
    "apPool s = Some mp" "Count mp < 10000" "view mem_badger (apState s) = view mem_badger demo_sm"
    "\<And>k e. fmlookup (mpPending mp) k = Some e \<Longrightarrow> k = array32 (txSig (meTx e)) \<and> signed_by_sender api_crypto (meTx e) \<and> txAmount (meTx e) \<noteq> n"
  obtains tx s' where "walletSend mem_badger api_crypto demo_vault (poolOrder key_order s) t1 t2 (demo_request n) s =
      (ApiOk (EncodeToString (take 32 (txSig tx)), 1), s')"
    "signed_by_sender api_crypto tx" "txAmount tx = n" "unlocked (apWallet s') (hex_id demo_user)"
    "\<exists>mp'. apPool s' = Some mp' \<and> (\<forall>k e. fmlookup (mpPending mp') k = Some e \<longrightarrow>
       fmlookup (mpPending mp) k = Some e \<or> (k = array32 (txSig tx) \<and> e = new_entry t2 tx))"
proof -
  note goal = that
  show thesis
  proof (rule send_accepts [OF assms(1) api_crypto_ok key_order_orders assms(2-4), of "hex_id 2" "be_bytes 32 (2 :: addr)" 1000 n t1 t2 "''https://any''"])
  show "DecodeString (hex_id 2) = (be_bytes 32 (2 :: addr), True)" "length (be_bytes 32 (2 :: addr)) = 32" by simp_all
  show "1000 \<le> unat (1000 :: u64)" by simp
  show "accNonce (view mem_badger (apState s) demo_user) < accNonce (view mem_badger (apState s) demo_user) + 1"
    unfolding assms(5) demo_nonce by simp
  show "fmlookup (mpPending mp) (array32 (txSig tx)) = None" if "signed_by_sender api_crypto tx" "txAmount tx = n" for tx
    using assms(6) api_prefix [OF that(1)] that(2) by (metis not_None_eq)
  show thesis
    if "walletSend mem_badger api_crypto demo_vault (poolOrder key_order s) t1 t2
        \<lparr>rqMethod = ''POST'', rqOrigin = ''https://any'', rqBody = Some \<lparr>sqFrom = hex_id demo_user, sqTo = hex_id 2,
           sqAmount = n, sqFee = 1000, sqPassword = []\<rparr>\<rparr> s =
        (ApiOk (EncodeToString (take 32 (txSig tx)), accNonce (view mem_badger (apState s) demo_user) + 1), s')"
      "signed_by_sender api_crypto tx" "txAmount tx = n" "unlocked (apWallet s') (hex_id demo_user)"
      "\<exists>mp'. apPool s' = Some mp' \<and> (\<forall>k e. fmlookup (mpPending mp') k = Some e \<longrightarrow>
         fmlookup (mpPending mp) k = Some e \<or> (k = array32 (txSig tx) \<and> e = new_entry t2 tx))" for tx s'
    using goal [of tx s'] that unfolding assms(5) demo_nonce demo_request_def demo_send_def by simp
  qed
qed

lemma demo_first:
  obtains h s1 mp where "walletSend mem_badger api_crypto demo_vault (poolOrder key_order demo_api) 0 0 (demo_request 5) demo_api = (ApiOk (h, 1), s1)"
    "unlocked (apWallet s1) (hex_id demo_user)" "apPool s1 = Some mp" "Count mp \<le> 1" "api_inv mem_badger api_crypto demo_vault s1"
    "view mem_badger (apState s1) = view mem_badger demo_sm"
    "\<forall>k e. fmlookup (mpPending mp) k = Some e \<longrightarrow> k = array32 (txSig (meTx e)) \<and> signed_by_sender api_crypto (meTx e) \<and> txAmount (meTx e) = 5"
proof -
  have n: "Count NewMempool < 10000" "\<And>k. fmlookup (mpPending NewMempool) k = None" by (simp_all add: Count_def NewMempool_def)
  have v: "view mem_badger (apState demo_api) = view mem_badger demo_sm" by (simp only: demo_api_facts(3))
  obtain tx :: Transaction and s1 where t: "walletSend mem_badger api_crypto demo_vault (poolOrder key_order demo_api) 0 0 (demo_request 5) demo_api =
      (ApiOk (EncodeToString (take 32 (txSig tx)), 1), s1)"
    "signed_by_sender api_crypto tx" "txAmount tx = 5" "unlocked (apWallet s1) (hex_id demo_user)"
    "\<exists>mp'. apPool s1 = Some mp' \<and> (\<forall>k e. fmlookup (mpPending mp') k = Some e \<longrightarrow>
       fmlookup (mpPending NewMempool) k = Some e \<or> (k = array32 (txSig tx) \<and> e = new_entry 0 tx))"
    by (rule demo_sends [OF demo_inv demo_api_facts(1,2) n(1) v, of 5 0 0]) (simp_all add: n(2))
  from t(5) obtain mp where mp: "apPool s1 = Some mp"
    "\<And>k e. fmlookup (mpPending mp) k = Some e \<Longrightarrow> k = array32 (txSig tx) \<and> e = new_entry 0 tx"
    using n(2) by auto
  have "fmdom (mpPending mp) |\<subseteq>| {|array32 (txSig tx)|}" using mp(2) by (auto simp: fmlookup_dom_iff)
  then have "fcard (fmdom (mpPending mp)) \<le> fcard {|array32 (txSig tx)|}" by (rule fcard_mono)
  also have "\<dots> = 1" by (simp add: fcard_finsert_if)
  finally have c: "Count mp \<le> 1" by (simp only: Count_def fmsize_def)
  have s: "safe_to mem_badger api_crypto demo_vault demo_api s1"
    using safe_send [OF demo_inv demo_vault_ok key_order_orders api_crypto_ok, of 0 0 "demo_request 5"] t(1) by simp
  have e: "\<forall>k e. fmlookup (mpPending mp) k = Some e \<longrightarrow> k = array32 (txSig (meTx e)) \<and> signed_by_sender api_crypto (meTx e) \<and> txAmount (meTx e) = 5"
    using mp(2) t(2,3) by fastforce
  show thesis by (rule that [OF t(1,4) mp(1) c _ _ e]) (use s demo_api_facts(3) in simp_all)
qed

theorem api_safety_witness:
  "\<exists>mp. apPool (apiRun mem_badger api_crypto demo_vault {} key_order demo_sm [demo_create_call, CallSend 0 0 (demo_request 5)]) = Some mp
     \<and> Count mp \<le> 10000"
  using api_safety [OF key_order_orders api_crypto_ok demo_vault_ok demo_wf refl, of "{}" "[demo_create_call, CallSend 0 0 (demo_request 5)]"]
  by blast

theorem wallet_send_witness:
  "\<exists>tx mp. \<exists>s' :: (bytes \<rightharpoonup> Account) Api. apPool s' = Some mp \<and> fmlookup (mpPending mp) (array32 (txSig tx)) = Some (new_entry 0 tx)
     \<and> hex_id (txFrom tx) = hex_id demo_user \<and> txAmount tx = 5 \<and> txNonce tx = 1
     \<and> (fst (Execute mem_badger (apState s') tx 0) \<longrightarrow> 1005 \<le> unat (accBalance (view mem_badger demo_sm (txFrom tx))))"
proof -
  obtain h s1 where w: "walletSend mem_badger api_crypto demo_vault (poolOrder key_order demo_api) 0 0 (demo_request 5) demo_api = (ApiOk (h, 1), s1)"
    by (rule demo_first)
  obtain req t mp where t: "rqBody (demo_request 5) = Some req" "apPool s1 = Some mp"
    "fmlookup (mpPending mp) (array32 (txSig t)) = Some (new_entry 0 t)" "hex_id (txFrom t) = sqFrom req" "txAmount t = sqAmount req"
    "txFee t = sqFee req" "txNonce t = 1"
    "fst (Execute mem_badger (apState s1) t 0) \<longrightarrow> unat (txAmount t) + unat (txFee t) \<le> unat (accBalance (view mem_badger demo_sm (txFrom t)))"
    using wallet_send [OF key_order_orders api_crypto_ok demo_vault_ok demo_wf refl w, of 0] by blast
  have "req = demo_send 5" using t(1) by (simp add: demo_request_def)
  then show ?thesis using t(2-8) by (intro exI [of _ t] exI [of _ mp] exI [of _ s1]) (simp add: demo_send_def)
qed

theorem send_clash_witness:
  "\<exists>s1 s3 h h' tx tx' mp mp'.
     walletSend mem_badger api_crypto demo_vault (poolOrder key_order demo_api) 0 0 (demo_request 5) demo_api = (ApiOk (h, 1), s1)
   \<and> walletSend mem_badger api_crypto demo_vault (poolOrder key_order s1) 0 0 (demo_request 6) s1 = (ApiOk (h', 1), s3)
   \<and> apPool s1 = Some mp \<and> fmlookup (mpPending mp) (array32 (txSig tx)) = Some (new_entry 0 tx)
   \<and> apPool s3 = Some mp' \<and> fmlookup (mpPending mp') (array32 (txSig tx')) = Some (new_entry 0 tx')
   \<and> (\<forall>sm0 sm1. sm_wf mem_badger sm0 \<and> Execute mem_badger sm0 tx 0 = (True, sm1) \<longrightarrow> \<not> fst (Execute mem_badger sm1 tx' 0))"
proof -
  obtain h s1 mp where a: "walletSend mem_badger api_crypto demo_vault (poolOrder key_order demo_api) 0 0 (demo_request 5) demo_api = (ApiOk (h, 1), s1)"
    "unlocked (apWallet s1) (hex_id demo_user)" "apPool s1 = Some mp" "Count mp \<le> 1" "api_inv mem_badger api_crypto demo_vault s1"
    "view mem_badger (apState s1) = view mem_badger demo_sm"
    "\<forall>k e. fmlookup (mpPending mp) k = Some e \<longrightarrow> k = array32 (txSig (meTx e)) \<and> signed_by_sender api_crypto (meTx e) \<and> txAmount (meTx e) = 5"
    by (rule demo_first)
  have "Count mp < 10000" using a(4) by simp
  moreover have "k = array32 (txSig (meTx e)) \<and> signed_by_sender api_crypto (meTx e) \<and> txAmount (meTx e) \<noteq> 6"
    if "fmlookup (mpPending mp) k = Some e" for k e using a(7) that by auto
  ultimately obtain tx' :: Transaction and s3 where b: "walletSend mem_badger api_crypto demo_vault (poolOrder key_order s1) 0 0 (demo_request 6) s1 =
      (ApiOk (EncodeToString (take 32 (txSig tx')), 1), s3)"
    by (rule demo_sends [OF a(5,2,3) _ a(6), of 6 0 0])
  have rq: "demo_request n = (demo_request 0)\<lparr>rqBody := Some (demo_send n)\<rparr>" "sqFrom (demo_send n) = hex_id demo_user" for n
    by (simp_all add: demo_request_def demo_send_def)
  have c: "s1 = foldl (api_step mem_badger api_crypto demo_vault {} key_order) s1 []" "sqFrom (demo_send 6) = sqFrom (demo_send 5)"
    "length ([] :: (Transaction \<times> i64) list) < 2 ^ 64 - 1" by (simp_all add: rq(2))
  from send_clash [OF key_order_orders api_crypto_ok demo_vault_ok demo_wf refl a(1) [unfolded rq(1) [of 5]] c(1)
      b [unfolded rq(1) [of 6]] c(2,3)]
  obtain t t' mp1 mp' where "apPool s1 = Some mp1" "fmlookup (mpPending mp1) (array32 (txSig t)) = Some (new_entry 0 t)"
    "apPool s3 = Some mp'" "fmlookup (mpPending mp') (array32 (txSig t')) = Some (new_entry 0 t')"
    "\<forall>sm0 sm1 ts ts'. sm_wf mem_badger sm0 \<and> Execute mem_badger sm0 t ts = (True, sm1) \<longrightarrow> \<not> fst (Execute mem_badger sm1 t' ts')"
    by auto
  with a(1) b show ?thesis by blast
qed

definition demo_signed :: Transaction where
  "demo_signed = (let tx = sample_tx\<lparr>txTimestamp := 0\<rparr>
     in tx\<lparr>txSig := be_bytes 32 (array32 (drop 65 (SerializeForSigning tx))) @ be_bytes 32 (1 :: addr)\<rparr>)"

lemma demo_signed_ok: "length (txSig demo_signed) = 64" "ed_verify api_crypto (txFrom demo_signed) (SerializeForSigning demo_signed) (txSig demo_signed)"
proof -
  let ?tx = "sample_tx\<lparr>txTimestamp := 0\<rparr>"
  have s: "SerializeForSigning demo_signed = SerializeForSigning ?tx" by (simp add: SerializeForSigning_eq_iff demo_signed_def Let_def)
  have sg: "txSig demo_signed = be_bytes 32 (array32 (drop 65 (SerializeForSigning ?tx))) @ be_bytes 32 (1 :: addr)"
    by (simp add: demo_signed_def Let_def del: be_bytes.simps)
  then show "length (txSig demo_signed) = 64" by simp
  have "txFrom demo_signed = 1" by (simp add: demo_signed_def sample_tx_def Let_def)
  then show "ed_verify api_crypto (txFrom demo_signed) (SerializeForSigning demo_signed) (txSig demo_signed)"
    unfolding s sg by (simp add: api_crypto_def)
qed

abbreviation demo_submit :: "Transaction request" where
  "demo_submit \<equiv> \<lparr>rqMethod = ''POST'', rqOrigin = [], rqBody = Some demo_signed\<rparr>"

abbreviation fresh_api :: "(bytes \<rightharpoonup> Account) Api" where
  "fresh_api \<equiv> startApi [] fmempty demo_sm (Some NewMempool)"

lemma demo_acceptable:
  "1000 \<le> unat (txFee demo_signed)" "txAmount demo_signed \<noteq> 0" "\<not> IsExpired demo_signed t"
  "accNonce (view mem_badger demo_sm a) < txNonce demo_signed" "fmlookup (mpPending NewMempool) k = None" "Count NewMempool < 10000"
  by (simp_all add: demo_signed_def sample_tx_def demo_nonce NewMempool_def Count_def IsExpired_def Let_def del: be_bytes.simps)

theorem api_tx_witness:
  "\<exists>h s'. apiTx mem_badger api_crypto (poolOrder key_order fresh_api) 0 0 demo_submit fresh_api = (ApiOk h, s')
     \<and> h = EncodeToString (take 32 (txSig demo_signed))"
proof -
  obtain r s' where r: "apiTx mem_badger api_crypto (poolOrder key_order fresh_api) 0 0 demo_submit fresh_api = (r, s')" by fastforce
  have "rqMethod demo_submit = ''POST''" "rqBody demo_submit = Some demo_signed" "apPool fresh_api = Some NewMempool"
    and st: "apState fresh_api = demo_sm" by (simp_all add: startApi_def)
  note a = api_tx [OF this(1-3) demo_acceptable(6) key_order_orders r, unfolded st]
  then have "\<exists>h. r = ApiOk h" using demo_signed_ok demo_acceptable by blast
  then show ?thesis using a r by blast
qed

text \<open>The transaction is even in an indexed block.\<close>

theorem tx_hash_lost_witness:
  "\<exists>h ix. fst (apiTx mem_badger api_crypto (poolOrder key_order fresh_api) 0 0 demo_submit fresh_api) = ApiOk h
     \<and> liveIndex (demo_codec\<lparr>decTxs := \<lambda>_. Some [demo_signed]\<rparr>) [demo_vertex] = Some ix
     \<and> fst (apiTransaction ix h) = Inl (404, ''tx not found'')"
proof -
  let ?X = "demo_codec\<lparr>decTxs := \<lambda>_. Some [demo_signed]\<rparr>"
  have "verifyEd25519Signature api_crypto (be_bytes 32 (txFrom demo_signed)) (SerializeForSigning demo_signed) (txSig demo_signed)"
    by (simp only: verify_iff signed_by_sender_def demo_signed_ok)
  moreover have "Mempool_Add mem_badger ks 0 0 NewMempool (Some demo_sm) demo_signed = admit mem_badger 0 0 NewMempool (Some demo_sm) demo_signed" for ks
    using demo_acceptable(6) by (simp add: Mempool_Add_def Count_def MaxMempoolSize_def)
  moreover have "acceptable mem_badger 0 NewMempool (Some demo_sm) demo_signed" using demo_acceptable by (simp add: acceptable_def)
  then obtain mp st where "admit mem_badger 0 0 NewMempool (Some demo_sm) demo_signed = (True, mp, st)"
    using admit_eq(1) [of mem_badger 0 0 NewMempool "Some demo_sm" demo_signed] by (metis prod.collapse)
  moreover have "\<not> txFee demo_signed < MinFee" using demo_acceptable(1) by (simp add: MinFee_def word_less_nat_alt)
  ultimately obtain h where h: "fst (apiTx mem_badger api_crypto (poolOrder key_order fresh_api) 0 0 demo_submit fresh_api) = ApiOk h"
    using demo_signed_ok(1) demo_acceptable(2) by (simp add: apiTx_def postBody_def startApi_def poolAdd_def)
  obtain ix where ix: "liveIndex ?X [demo_vertex] = Some ix" by (rule live_ok)
  have "\<forall>v\<in>set [demo_vertex]. \<forall>tx\<in>set (blockTxs ?X v). length (txSig tx) = 64" by (simp add: blockTxs_def demo_signed_ok(1))
  then show ?thesis using tx_hash_lost [OF h ix] h ix by blast
qed

theorem unlock_sticky_witness:
  "\<exists>s2 r. hdReply (fst (corsHandler {} (walletSign api_crypto)
      \<lparr>rqMethod = ''POST'', rqOrigin = ''https://evil'', rqBody = Some \<lparr>gqAddress = hex_id demo_user, gqTx = sample_tx\<rparr>\<rparr>
      (s2 :: (bytes \<rightharpoonup> Account) Api))) = ApiOk r"
proof -
  obtain h s1 where w: "walletSend mem_badger api_crypto demo_vault (poolOrder key_order demo_api) 0 0 (demo_request 5) demo_api = (ApiOk (h, 1), s1)"
    by (rule demo_first)
  have "sqFrom (demo_send 5) = hex_id demo_user" by (simp add: demo_send_def)
  with w have "\<exists>hn req. sqFrom req = hex_id demo_user \<and> walletSend mem_badger api_crypto demo_vault (poolOrder key_order demo_api) 0 0
      \<lparr>rqMethod = ''POST'', rqOrigin = ''https://any'', rqBody = Some req\<rparr> demo_api = (ApiOk hn, s1)"
    unfolding demo_request_def by blast
  from unlock_sticky [OF key_order_orders api_crypto_ok demo_vault_ok demo_wf refl disjI2 [OF this] refl,
      of "[CallUnlock \<lparr>rqMethod = ''GET'', rqOrigin = [], rqBody = None\<rparr>]" "''https://evil''" sample_tx]
  show ?thesis by auto
qed

theorem cors_policy_witness:
  "allowedOrigins (\<lambda>_. ''https://a.io, https://b.io'') = {''https://a.io'', ''https://b.io''}
   \<and> hdAllowOrigin (fst (corsHandler (allowedOrigins (\<lambda>_. ''https://a.io, https://b.io'')) (walletList [])
        \<lparr>rqMethod = ''GET'', rqOrigin = ''https://c.io'', rqBody = None :: unit option\<rparr> fresh_api)) = None"
proof -
  let ?ps = "[''https://a.io'', '' https://b.io'']"
  have p: "(\<lambda>_. ''https://a.io, https://b.io'') ''SUPERNOVA_ALLOWED_ORIGINS'' = Join '','' ?ps" "\<forall>p\<in>set ?ps. CHR '','' \<notin> set p"
    by simp_all
  have t: "TrimSpace ` set ?ps - {[]} = {''https://a.io'', ''https://b.io''}" by (simp add: TrimSpace_def isSpace_def insert_Diff_if)
  note c = cors_policy [OF p refl, of "walletList []" "\<lparr>rqMethod = ''GET'', rqOrigin = ''https://c.io'', rqBody = None :: unit option\<rparr>" fresh_api,
      unfolded t]
  then have al: "allowedOrigins (\<lambda>_. ''https://a.io, https://b.io'') = {''https://a.io'', ''https://b.io''}" by (elim conjE)
  show ?thesis using c unfolding al by simp
qed

end
