(* ===== verification/Ingest.thy ===== *)
theory Ingest
  imports Mempool Net_Decode Merkle_Crypto
begin

text \<open>
  \<open>core/tpu/ingest.go\<close>: the UDP ingest pipeline: a receive loop, a bounded packet queue, a pool of
  workers, a rate limiter per sender, and counters.

  Each operation is a function on the server state; \<open>processPacket\<close> is the whole handler of a
  worker. Since receiver, workers and \<open>Stop\<close> run concurrently, the second part is a step relation
  whose atomic steps are the sections between which the goroutines can be interleaved (a channel
  operation, a critical section of the rate limiter, a call of the mempool); \<open>worker_phases\<close> shows that the
  phases of a worker compose to \<open>processPacket\<close>. Opening the socket and logging are left out.
\<close>

section \<open>Data\<close>

definition MaxTxPerAddressPerMinute :: nat where "MaxTxPerAddressPerMinute = 10"
definition RateLimitWindow :: int where "RateLimitWindow = 60 * 1000000000"
definition PacketQueueSize :: nat where "PacketQueueSize = 10000"
definition MinWorkers :: int where "MinWorkers = 4"
definition MaxWorkers :: int where "MaxWorkers = 64"

record rateLimitEntry =
  rlCount :: nat
  rlResetTime :: time

record 'd IngestServer =
  isMempool :: "Mempool option"
  isState :: "'d StateManager option"
  isQueue :: "bytes list"
  isNumWorkers :: int
  isRunning :: bool
  isShutdown :: bool
  isQueueClosed :: bool
  isRate :: "(addr, rateLimitEntry) fmap"
  isReceived :: u64
  isDropped :: u64
  isProcessed :: u64
  isInvalid :: u64

text \<open>\<open>NewIngestServer\<close> once the socket is open; \<open>numCPU\<close> is \<open>runtime.NumCPU()\<close>.\<close>

definition NewIngestServer :: "int \<Rightarrow> Mempool option \<Rightarrow> 'd StateManager option \<Rightarrow> 'd IngestServer" where
  "NewIngestServer numCPU mempool state =
     (let numWorkers = numCPU * 2;
          numWorkers = (if numWorkers < MinWorkers then MinWorkers else numWorkers);
          numWorkers = (if numWorkers > MaxWorkers then MaxWorkers else numWorkers)
      in \<lparr>isMempool = mempool, isState = state, isQueue = [], isNumWorkers = numWorkers,
          isRunning = False, isShutdown = False, isQueueClosed = False, isRate = fmempty,
          isReceived = 0, isDropped = 0, isProcessed = 0, isInvalid = 0\<rparr>)"

section \<open>The rate limiter\<close>

definition checkAndIncrementRateLimit :: "time \<Rightarrow> 'd IngestServer \<Rightarrow> addr \<Rightarrow> bool \<times> 'd IngestServer" where
  "checkAndIncrementRateLimit now s a =
     (let fresh = (True, s\<lparr>isRate := fmupd a \<lparr>rlCount = 1, rlResetTime = now + RateLimitWindow\<rparr> (isRate s)\<rparr>)
      in case fmlookup (isRate s) a of
           None \<Rightarrow> fresh
         | Some entry \<Rightarrow>
             if rlResetTime entry < now then fresh
             else if MaxTxPerAddressPerMinute \<le> rlCount entry then (False, s)
             else (True, s\<lparr>isRate := fmupd a (entry\<lparr>rlCount := rlCount entry + 1\<rparr>) (isRate s)\<rparr>))"

definition checkRateLimit :: "time \<Rightarrow> 'd IngestServer \<Rightarrow> addr \<Rightarrow> bool" where
  "checkRateLimit now s a =
     (case fmlookup (isRate s) a of
        None \<Rightarrow> True
      | Some entry \<Rightarrow> if rlResetTime entry < now then True else rlCount entry < MaxTxPerAddressPerMinute)"

definition incrementRateLimit :: "time \<Rightarrow> 'd IngestServer \<Rightarrow> addr \<Rightarrow> 'd IngestServer" where
  "incrementRateLimit now s a =
     (let fresh = s\<lparr>isRate := fmupd a \<lparr>rlCount = 1, rlResetTime = now + RateLimitWindow\<rparr> (isRate s)\<rparr>
      in case fmlookup (isRate s) a of
           None \<Rightarrow> fresh
         | Some entry \<Rightarrow>
             if rlResetTime entry < now then fresh
             else s\<lparr>isRate := fmupd a (entry\<lparr>rlCount := rlCount entry + 1\<rparr>) (isRate s)\<rparr>)"

definition cleanupRateLimits :: "time \<Rightarrow> 'd IngestServer \<Rightarrow> 'd IngestServer" where
  "cleanupRateLimits now s =
     s\<lparr>isRate := fmfilter (\<lambda>a. case fmlookup (isRate s) a of
          Some entry \<Rightarrow> \<not> rlResetTime entry < now | None \<Rightarrow> True) (isRate s)\<rparr>"

section \<open>Packets\<close>

text \<open>One datagram of \<open>Start\<close>'s receive loop, after it has been read: the size test, and the
  non-blocking send on the queue, which panics (\<open>None\<close>) when the queue has been closed.\<close>

definition enqueuePacket :: "'d IngestServer \<Rightarrow> bytes \<Rightarrow> 'd IngestServer option" where
  "enqueuePacket s packet =
     (if isQueueClosed s then None
      else if length (isQueue s) < PacketQueueSize then Some (s\<lparr>isQueue := isQueue s @ [packet]\<rparr>)
      else Some (s\<lparr>isDropped := isDropped s + 1\<rparr>))"

definition receivePacket :: "'d IngestServer \<Rightarrow> bytes \<Rightarrow> bool \<times> 'd IngestServer" where
  "receivePacket s data =
     (let s = s\<lparr>isReceived := isReceived s + 1\<rparr> in
      if MaxTxSize < length data then (False, s\<lparr>isDropped := isDropped s + 1\<rparr>) else (True, s))"

text \<open>Decoding and signature check: \<open>None\<close> for a packet that counts as invalid.\<close>

definition verifyPacket :: "crypto \<Rightarrow> (bytes \<Rightarrow> Transaction option) \<Rightarrow> nat \<Rightarrow> bytes \<Rightarrow> Transaction option" where
  "verifyPacket C gob m data =
     (if ValidatePayloadSize data MaxTxSize \<noteq> None then None
      else case SafeDecodeTransaction gob m data of
             Inl _ \<Rightarrow> None
           | Inr tx \<Rightarrow>
               if length (txSig tx) \<noteq> 64 then None
               else if \<not> ed_verify C (txFrom tx) (SerializeForSigning tx) (txSig tx) then None
               else Some tx)"

definition submitTx :: "('d, 'b) badger \<Rightarrow> addr list \<Rightarrow> time \<Rightarrow> time \<Rightarrow> 'd IngestServer \<Rightarrow> Transaction \<Rightarrow> 'd IngestServer" where
  "submitTx K ks t1 t2 s tx =
     (case isMempool s of
        None \<Rightarrow> s
      | Some mp \<Rightarrow>
          let (added, mp, st) = Mempool_Add K ks t1 t2 mp (isState s) tx;
              s = s\<lparr>isMempool := Some mp, isState := st\<rparr>
          in if added then s\<lparr>isProcessed := isProcessed s + 1\<rparr> else s\<lparr>isDropped := isDropped s + 1\<rparr>)"

definition processPacket :: "crypto \<Rightarrow> (bytes \<Rightarrow> Transaction option) \<Rightarrow> nat \<Rightarrow> ('d, 'b) badger \<Rightarrow> addr list
    \<Rightarrow> time \<Rightarrow> time \<Rightarrow> time \<Rightarrow> 'd IngestServer \<Rightarrow> bytes \<Rightarrow> 'd IngestServer" where
  "processPacket C gob m K ks t0 t1 t2 s data =
     (case verifyPacket C gob m data of
        None \<Rightarrow> s\<lparr>isInvalid := isInvalid s + 1\<rparr>
      | Some tx \<Rightarrow>
          let (ok, s) = checkAndIncrementRateLimit t0 s (txFrom tx) in
          if \<not> ok then s\<lparr>isDropped := isDropped s + 1\<rparr>
          else submitTx K ks t1 t2 s tx)"

record IngestStats =
  PacketsReceived :: u64
  PacketsDropped :: u64
  PacketsProcessed :: u64
  PacketsInvalid :: u64
  QueueLength :: nat
  QueueCapacity :: nat
  NumWorkers :: int

definition Ingest_GetStats :: "'d IngestServer \<Rightarrow> IngestStats" where
  "Ingest_GetStats s =
     \<lparr>PacketsReceived = isReceived s, PacketsDropped = isDropped s, PacketsProcessed = isProcessed s,
      PacketsInvalid = isInvalid s, QueueLength = length (isQueue s), QueueCapacity = PacketQueueSize,
      NumWorkers = isNumWorkers s\<rparr>"

section \<open>The goroutines\<close>

datatype receiver = RTop | RRead | RSend bytes | RDone | RPanic
datatype worker = WIdle | WTaken bytes | WVerified Transaction | WLimited Transaction | WDone
datatype stopper = SIdle | SSignalled | SConnClosed | SWaiting | SStopped

record 'd ingest_sys =
  server :: "'d IngestServer"
  recv :: receiver
  workers :: "worker list"
  stop :: stopper

text \<open>The workers' select and the three sections of \<open>processPacket\<close>.\<close>

definition worker_verify :: "crypto \<Rightarrow> (bytes \<Rightarrow> Transaction option) \<Rightarrow> nat \<Rightarrow> 'd IngestServer \<Rightarrow> bytes
    \<Rightarrow> worker \<times> 'd IngestServer" where
  "worker_verify C gob m s data =
     (case verifyPacket C gob m data of
        None \<Rightarrow> (WIdle, s\<lparr>isInvalid := isInvalid s + 1\<rparr>)
      | Some tx \<Rightarrow> (WVerified tx, s))"

definition worker_limit :: "time \<Rightarrow> 'd IngestServer \<Rightarrow> Transaction \<Rightarrow> worker \<times> 'd IngestServer" where
  "worker_limit t0 s tx =
     (let (ok, s) = checkAndIncrementRateLimit t0 s (txFrom tx) in
      if \<not> ok then (WIdle, s\<lparr>isDropped := isDropped s + 1\<rparr>) else (WLimited tx, s))"

inductive ingest_step :: "crypto \<Rightarrow> (bytes \<Rightarrow> Transaction option) \<Rightarrow> nat \<Rightarrow> ('d, 'b) badger
    \<Rightarrow> 'd ingest_sys \<Rightarrow> 'd ingest_sys \<Rightarrow> bool" for C gob m K where
  recv_top: "recv x = RTop \<Longrightarrow>
     ingest_step C gob m K x (x\<lparr>recv := if isShutdown (server x) then RDone else RRead\<rparr>)"
| recv_timeout: "recv x = RRead \<Longrightarrow> ingest_step C gob m K x (x\<lparr>recv := RTop\<rparr>)"
| recv_error: "recv x = RRead \<Longrightarrow>
     ingest_step C gob m K x (x\<lparr>recv := if isShutdown (server x) then RDone else RTop\<rparr>)"
| recv_packet: "recv x = RRead \<Longrightarrow> stop x \<in> {SIdle, SSignalled} \<Longrightarrow> receivePacket (server x) data = (queue, s) \<Longrightarrow>
     ingest_step C gob m K x (x\<lparr>server := s, recv := if queue then RSend data else RTop\<rparr>)"
| recv_send: "recv x = RSend data \<Longrightarrow> enqueuePacket (server x) data = Some s \<Longrightarrow>
     ingest_step C gob m K x (x\<lparr>server := s, recv := RTop\<rparr>)"
| recv_panic: "recv x = RSend data \<Longrightarrow> enqueuePacket (server x) data = None \<Longrightarrow>
     ingest_step C gob m K x (x\<lparr>recv := RPanic\<rparr>)"
| worker_take: "i < length (workers x) \<Longrightarrow> workers x ! i = WIdle \<Longrightarrow> isQueue (server x) = data # rest \<Longrightarrow>
     ingest_step C gob m K x (x\<lparr>server := (server x)\<lparr>isQueue := rest\<rparr>, workers := (workers x)[i := WTaken data]\<rparr>)"
| worker_return: "i < length (workers x) \<Longrightarrow> workers x ! i = WIdle \<Longrightarrow>
     isShutdown (server x) \<or> isQueueClosed (server x) \<and> isQueue (server x) = [] \<Longrightarrow>
     ingest_step C gob m K x (x\<lparr>workers := (workers x)[i := WDone]\<rparr>)"
| worker_verify: "i < length (workers x) \<Longrightarrow> workers x ! i = WTaken data \<Longrightarrow>
     worker_verify C gob m (server x) data = (w, s) \<Longrightarrow>
     ingest_step C gob m K x (x\<lparr>server := s, workers := (workers x)[i := w]\<rparr>)"
| worker_limit: "i < length (workers x) \<Longrightarrow> workers x ! i = WVerified tx \<Longrightarrow>
     worker_limit t0 (server x) tx = (w, s) \<Longrightarrow>
     ingest_step C gob m K x (x\<lparr>server := s, workers := (workers x)[i := w]\<rparr>)"
| worker_submit: "i < length (workers x) \<Longrightarrow> workers x ! i = WLimited tx \<Longrightarrow> isMempool (server x) = Some mp \<Longrightarrow>
     map_order (mpPending mp) ks \<Longrightarrow>
     ingest_step C gob m K x (x\<lparr>server := submitTx K ks t1 t2 (server x) tx, workers := (workers x)[i := WIdle]\<rparr>)"
| cleanup: "ingest_step C gob m K x (x\<lparr>server := cleanupRateLimits now (server x)\<rparr>)"
| stop_signal: "stop x = SIdle \<Longrightarrow> isRunning (server x) \<Longrightarrow>
     ingest_step C gob m K x (x\<lparr>server := (server x)\<lparr>isRunning := False, isShutdown := True\<rparr>, stop := SSignalled\<rparr>)"
| stop_conn: "stop x = SSignalled \<Longrightarrow> ingest_step C gob m K x (x\<lparr>stop := SConnClosed\<rparr>)"
| stop_queue: "stop x = SConnClosed \<Longrightarrow>
     ingest_step C gob m K x (x\<lparr>server := (server x)\<lparr>isQueueClosed := True\<rparr>, stop := SWaiting\<rparr>)"
| stop_wait: "stop x = SWaiting \<Longrightarrow> \<forall>w\<in>set (workers x). w = WDone \<Longrightarrow> ingest_step C gob m K x (x\<lparr>stop := SStopped\<rparr>)"

text \<open>\<open>Start\<close>: one receiver and \<open>numWorkers\<close> workers on a server that was not running.\<close>

definition ingest_start :: "'d IngestServer \<Rightarrow> 'd ingest_sys option" where
  "ingest_start s =
     (if isRunning s then None
      else Some \<lparr>server = s\<lparr>isRunning := True\<rparr>, recv = RTop,
                 workers = replicate (nat (isNumWorkers s)) WIdle, stop = SIdle\<rparr>)"

lemma worker_phases:
  "processPacket C gob m K ks t0 t1 t2 s data =
     (case worker_verify C gob m s data of
        (WVerified tx, s) \<Rightarrow> (case worker_limit t0 s tx of
            (WLimited tx, s) \<Rightarrow> submitTx K ks t1 t2 s tx
          | (_, s) \<Rightarrow> s)
      | (_, s) \<Rightarrow> s)"
  by (auto simp: processPacket_def worker_verify_def worker_limit_def Let_def split: option.splits prod.splits if_splits)

section \<open>Lemmas\<close>

text \<open>Packets that have been received and not yet counted as dropped, processed or invalid.\<close>

fun busy :: "worker \<Rightarrow> bool" where
  "busy WIdle = False" | "busy WDone = False" | "busy _ = True"

fun holding :: "receiver \<Rightarrow> nat" where
  "holding (RSend _) = 1" | "holding RPanic = 1" | "holding _ = 0"

definition inflight :: "'d ingest_sys \<Rightarrow> nat" where
  "inflight x = length (isQueue (server x)) + holding (recv x) + length (filter busy (workers x))"

lemma busy_update:
  "i < length ws \<Longrightarrow>
     length (filter busy (ws[i := w])) + of_bool (busy (ws ! i)) = length (filter busy ws) + of_bool (busy w)"
proof (induction ws arbitrary: i)
  case (Cons v ws)
  then show ?case by (cases i) (auto split: if_splits)
qed simp

definition sig_ok :: "crypto \<Rightarrow> Transaction \<Rightarrow> bool" where
  "sig_ok C tx \<longleftrightarrow> length (txSig tx) = 64 \<and> ed_verify C (txFrom tx) (SerializeForSigning tx) (txSig tx)"

fun worker_ok :: "crypto \<Rightarrow> worker \<Rightarrow> bool" where
  "worker_ok C (WVerified tx) = sig_ok C tx" | "worker_ok C (WLimited tx) = sig_ok C tx" | "worker_ok C _ = True"

definition ingest_inv :: "crypto \<Rightarrow> 'd ingest_sys \<Rightarrow> bool" where
  "ingest_inv C x \<longleftrightarrow>
     isReceived (server x) = isDropped (server x) + isProcessed (server x) + isInvalid (server x) + of_nat (inflight x)
     \<and> length (isQueue (server x)) \<le> PacketQueueSize
     \<and> (\<forall>w\<in>set (workers x). worker_ok C w)
     \<and> (\<exists>mp. isMempool (server x) = Some mp \<and> mp_inv mp
          \<and> (\<forall>k e. fmlookup (mpPending mp) k = Some e \<longrightarrow> sig_ok C (meTx e)))"

lemma submit_effect:
  assumes "isMempool s = Some mp" "map_order (mpPending mp) ks" "mp_inv mp"
    "\<forall>k e. fmlookup (mpPending mp) k = Some e \<longrightarrow> sig_ok C (meTx e)" "sig_ok C tx"
    and "s' = submitTx K ks t1 t2 s tx"
  shows "isReceived s' = isReceived s" "isQueue s' = isQueue s"
    "isDropped s' + isProcessed s' + isInvalid s' = isDropped s + isProcessed s + isInvalid s + 1"
    "\<exists>mp. isMempool s' = Some mp \<and> mp_inv mp \<and> (\<forall>k e. fmlookup (mpPending mp) k = Some e \<longrightarrow> sig_ok C (meTx e))"
proof -
  obtain ok mp' st' where r: "Mempool_Add K ks t1 t2 mp (isState s) tx = (ok, mp', st')" by (metis prod_cases3)
  have e: "s' = (if ok then s\<lparr>isMempool := Some mp', isState := st', isProcessed := isProcessed s + 1\<rparr>
      else s\<lparr>isMempool := Some mp', isState := st', isDropped := isDropped s + 1\<rparr>)"
    using assms(1) r by (simp add: submitTx_def assms(6))
  show "isReceived s' = isReceived s" "isQueue s' = isQueue s"
    "isDropped s' + isProcessed s' + isInvalid s' = isDropped s + isProcessed s + isInvalid s + 1"
    by (simp_all add: e)
  have "mp_inv mp'" using Add_inv [OF assms(3,2), of K t1 t2 "isState s" tx] r by simp
  moreover have "sig_ok C (meTx e)" if "fmlookup (mpPending mp') k = Some e" for k e
    using Add_entries [OF r that] assms(4,5) by auto
  ultimately show "\<exists>mp. isMempool s' = Some mp \<and> mp_inv mp
      \<and> (\<forall>k e. fmlookup (mpPending mp) k = Some e \<longrightarrow> sig_ok C (meTx e))"
    by (auto simp: e)
qed

lemma rate_frame:
  assumes "checkAndIncrementRateLimit t s a = (ok, s')"
  shows "isReceived s' = isReceived s" "isQueue s' = isQueue s" "isDropped s' = isDropped s"
    "isProcessed s' = isProcessed s" "isInvalid s' = isInvalid s" "isMempool s' = isMempool s"
  using assms by (auto simp: checkAndIncrementRateLimit_def Let_def split: option.splits if_splits)

lemma verify_sig: "verifyPacket C gob m data = Some tx \<Longrightarrow> sig_ok C tx"
  by (auto simp: verifyPacket_def sig_ok_def split: if_splits sum.splits)

lemma balance:
  fixes R :: "'a::ab_group_add"
  assumes "R = D + (q + h + b)" "D' + (q' + w') = D + (q + w)" "b' + w = b + w'"
  shows "R = D' + (q' + h + b')"
proof -
  have "D' + q' = D + q + w - w'" using assms(2) by (simp add: algebra_simps)
  moreover have "b' = b + w' - w" using assms(3) by (simp add: algebra_simps)
  ultimately have "D' + q' + h + b' = D + q + w - w' + h + (b + w' - w)" by simp
  then show ?thesis using assms(1) by (simp add: algebra_simps)
qed

text \<open>A step of one worker keeps the books when the counters and the worker's packet balance.\<close>

lemma inv_worker:
  assumes "ingest_inv C x" "i < length (workers x)" "worker_ok C w"
    and "isReceived s' = isReceived (server x)" "length (isQueue s') \<le> PacketQueueSize"
    and "isDropped s' + isProcessed s' + isInvalid s' + of_nat (length (isQueue s') + of_bool (busy w))
       = isDropped (server x) + isProcessed (server x) + isInvalid (server x)
         + of_nat (length (isQueue (server x)) + of_bool (busy (workers x ! i)))"
    and "\<exists>mp. isMempool s' = Some mp \<and> mp_inv mp
      \<and> (\<forall>k e. fmlookup (mpPending mp) k = Some e \<longrightarrow> sig_ok C (meTx e))"
  shows "ingest_inv C (x\<lparr>server := s', workers := (workers x)[i := w]\<rparr>)"
proof -
  let ?b = "length (filter busy (workers x))" and ?b' = "length (filter busy ((workers x)[i := w]))"
  have b: "of_nat ?b' + of_nat (of_bool (busy (workers x ! i))) = (of_nat ?b + of_nat (of_bool (busy w)) :: u64)"
    using arg_cong [OF busy_update [OF assms(2), of w], of "of_nat :: nat \<Rightarrow> u64"] by simp
  have "isReceived (server x) = isDropped (server x) + isProcessed (server x) + isInvalid (server x) + of_nat (inflight x)"
    using assms(1) by (simp add: ingest_inv_def)
  then have "isReceived s' = isDropped s' + isProcessed s' + isInvalid s'
      + of_nat (length (isQueue s') + holding (recv x) + ?b')"
    using assms(4) balance [OF _ _ b, of "isReceived (server x)"
        "isDropped (server x) + isProcessed (server x) + isInvalid (server x)"
        "of_nat (length (isQueue (server x)))" "of_nat (holding (recv x))"
        "isDropped s' + isProcessed s' + isInvalid s'" "of_nat (length (isQueue s'))"] assms(6)
    by (simp add: inflight_def)
  moreover have "\<forall>v\<in>set ((workers x)[i := w]). worker_ok C v"
    using assms(1,3) set_update_subset_insert [of "workers x" i w] by (auto simp: ingest_inv_def)
  ultimately show ?thesis using assms(5,7) by (simp add: ingest_inv_def inflight_def)
qed

lemma ingest_step_inv: "ingest_step C gob m K x y \<Longrightarrow> ingest_inv C x \<Longrightarrow> ingest_inv C y"
proof (induction rule: ingest_step.induct)
  case (recv_packet x data queue s)
  then show ?case by (auto simp: ingest_inv_def inflight_def receivePacket_def Let_def split: if_splits)
next
  case (recv_send x data s)
  then show ?case by (auto simp: ingest_inv_def inflight_def enqueuePacket_def PacketQueueSize_def split: if_splits)
next
  case (worker_take i x data rest)
  then show ?case
    by (intro inv_worker) (auto simp: ingest_inv_def)
next
  case (worker_return i x)
  have "x\<lparr>workers := (workers x)[i := WDone]\<rparr> = x\<lparr>server := server x, workers := (workers x)[i := WDone]\<rparr>" by simp
  moreover have "ingest_inv C \<dots>" using worker_return by (intro inv_worker) (auto simp: ingest_inv_def)
  ultimately show ?case by simp
next
  case (worker_verify i x data w s)
  then show ?case
    by (intro inv_worker)
      (auto simp: ingest_inv_def worker_verify_def split: option.splits dest: verify_sig)
next
  case (worker_limit i x tx t0 w s)
  obtain ok s1 where r: "checkAndIncrementRateLimit t0 (server x) (txFrom tx) = (ok, s1)" by fastforce
  have "worker_ok C (workers x ! i)" using worker_limit nth_mem [of i "workers x"] by (force simp: ingest_inv_def)
  then have "sig_ok C tx" using worker_limit.hyps by simp
  with worker_limit rate_frame [OF r] r show ?case
    by (intro inv_worker) (auto simp: ingest_inv_def worker_limit_def split: if_splits)
next
  case (worker_submit i x tx mp ks t1 t2)
  have "worker_ok C (workers x ! i)" using worker_submit nth_mem [of i "workers x"] by (force simp: ingest_inv_def)
  then have sig: "sig_ok C tx" using worker_submit.hyps by simp
  have mp: "mp_inv mp" "\<forall>k e. fmlookup (mpPending mp) k = Some e \<longrightarrow> sig_ok C (meTx e)"
    using worker_submit by (auto simp: ingest_inv_def)
  note e = submit_effect [OF worker_submit.hyps(3,4) mp sig refl, of K t1 t2]
  show ?case
    using worker_submit by (intro inv_worker e) (auto simp: e ingest_inv_def)
qed (auto simp: ingest_inv_def inflight_def cleanupRateLimits_def)

lemma reachable_inv:
  "(ingest_step C gob m K)\<^sup>*\<^sup>* x y \<Longrightarrow> ingest_inv C x \<Longrightarrow> ingest_inv C y"
  by (induction rule: rtranclp_induct) (auto intro: ingest_step_inv)

lemma start_inv:
  "ingest_start (NewIngestServer numCPU (Some NewMempool) st) = Some x0 \<Longrightarrow> ingest_inv C x0"
  by (auto simp: ingest_start_def NewIngestServer_def Let_def ingest_inv_def inflight_def NewMempool_def mp_inv_def
      split: if_splits)

lemma start_workers:
  "ingest_start (NewIngestServer numCPU mp st) = Some x0 \<Longrightarrow> 4 \<le> length (workers x0) \<and> length (workers x0) \<le> 64"
  by (auto simp: ingest_start_def NewIngestServer_def Let_def MinWorkers_def MaxWorkers_def)

lemma step_workers_length: "ingest_step C gob m K x y \<Longrightarrow> length (workers y) = length (workers x)"
  by (induction rule: ingest_step.induct) auto

lemma reachable_workers: "(ingest_step C gob m K)\<^sup>*\<^sup>* x y \<Longrightarrow> length (workers y) = length (workers x)"
  by (induction rule: rtranclp_induct) (auto dest: step_workers_length)

section \<open>Rate limiting over time\<close>

datatype rate_event = RateCheck addr time | RateCleanup time

fun rate_step :: "'d IngestServer \<Rightarrow> rate_event \<Rightarrow> bool \<times> 'd IngestServer" where
  "rate_step s (RateCheck a now) = checkAndIncrementRateLimit now s a"
| "rate_step s (RateCleanup now) = (False, cleanupRateLimits now s)"

text \<open>How many calls for \<open>a\<close> are let through.\<close>

fun accepted :: "addr \<Rightarrow> 'd IngestServer \<Rightarrow> rate_event list \<Rightarrow> nat" where
  "accepted a s [] = 0"
| "accepted a s (e # es) =
     (let (ok, s') = rate_step s e in
      (if ok \<and> (\<exists>now. e = RateCheck a now) then 1 else 0) + accepted a s' es)"

fun event_time :: "rate_event \<Rightarrow> time" where
  "event_time (RateCheck a now) = now" | "event_time (RateCleanup now) = now"

definition budget :: "time \<Rightarrow> rateLimitEntry option \<Rightarrow> nat" where
  "budget T e = (case e of None \<Rightarrow> 10
     | Some e \<Rightarrow> (10 - rlCount e) + (if rlResetTime e < T then 10 else 0))"

definition counts_ok :: "'d IngestServer \<Rightarrow> bool" where
  "counts_ok s \<longleftrightarrow> (\<forall>a e. fmlookup (isRate s) a = Some e \<longrightarrow> 1 \<le> rlCount e \<and> rlCount e \<le> 10)"

lemma rate_step_counts: "counts_ok s \<Longrightarrow> counts_ok (snd (rate_step s e))"
  by (cases e) (auto simp: counts_ok_def checkAndIncrementRateLimit_def cleanupRateLimits_def Let_def
      MaxTxPerAddressPerMinute_def split: option.splits)

lemma rate_step_budget:
  assumes "counts_ok s" "t \<le> event_time e" "event_time e \<le> T" "T \<le> t + RateLimitWindow"
    and "rate_step s e = (ok, s')"
  shows "(if ok \<and> (\<exists>now. e = RateCheck a now) then 1 else 0) + budget T (fmlookup (isRate s') a)
    \<le> budget T (fmlookup (isRate s) a)"
proof (cases e)
  case (RateCheck b now)
  have c: "1 \<le> rlCount x \<and> rlCount x \<le> 10" if "fmlookup (isRate s) a = Some x" for x
    using assms(1) that by (auto simp: counts_ok_def)
  show ?thesis
  proof (cases "b = a")
    case False
    then have "fmlookup (isRate s') a = fmlookup (isRate s) a"
      using assms(5) RateCheck
      by (auto simp: checkAndIncrementRateLimit_def Let_def split: option.splits if_splits)
    with False RateCheck show ?thesis by simp
  next
    case True
    then show ?thesis
      using assms RateCheck
      by (auto simp: checkAndIncrementRateLimit_def Let_def budget_def MaxTxPerAddressPerMinute_def
          split: option.splits if_splits dest!: c)
  qed
next
  case (RateCleanup now)
  have s': "ok = False" "s' = cleanupRateLimits now s" using assms(5) RateCleanup by simp_all
  show ?thesis
  proof (cases "fmlookup (isRate s) a")
    case None
    then show ?thesis by (simp add: s' cleanupRateLimits_def)
  next
    case (Some x)
    then have "rlCount x \<le> 10" using assms(1) by (auto simp: counts_ok_def)
    with Some show ?thesis using assms(3) RateCleanup by (simp add: s' cleanupRateLimits_def budget_def) linarith
  qed
qed

lemma accepted_budget:
  assumes "counts_ok s" "\<forall>e\<in>set es. t \<le> event_time e \<and> event_time e \<le> T" "T \<le> t + RateLimitWindow"
  shows "accepted a s es \<le> budget T (fmlookup (isRate s) a)"
  using assms(1,2)
proof (induction es arbitrary: s)
  case (Cons e es)
  obtain ok s' where r: "rate_step s e = (ok, s')" by fastforce
  have "accepted a s' es \<le> budget T (fmlookup (isRate s') a)"
    using Cons.IH [of s'] rate_step_counts [OF Cons.prems(1), of e] Cons.prems(2) r by simp
  moreover have "(if ok \<and> (\<exists>now. e = RateCheck a now) then 1 else 0) + budget T (fmlookup (isRate s') a)
      \<le> budget T (fmlookup (isRate s) a)"
    using rate_step_budget [OF Cons.prems(1) _ _ assms(3) r] Cons.prems(2) by simp
  ultimately show ?case by (simp add: r)
qed simp

section \<open>Properties\<close>

text \<open>No packet is lost from the books. Whatever the interleaving of the receiver, the workers, the
  rate limit sweeps and \<open>Stop\<close>, in every reachable state of a started server with a mempool the
  number of packets received is (modulo 2^64) the sum of those dropped, processed and invalid, those
  in the queue and those in the hands of a goroutine; the queue never exceeds 10000 packets and there
  are between 4 and 64 workers.\<close>

theorem ingest_accounting:
  assumes "ingest_start (NewIngestServer numCPU (Some NewMempool) st) = Some x0"
    and "(ingest_step C gob m K)\<^sup>*\<^sup>* x0 x" and "q = Ingest_GetStats (server x)"
  shows "PacketsReceived q = PacketsDropped q + PacketsProcessed q + PacketsInvalid q
      + of_nat (QueueLength q + holding (recv x) + length (filter busy (workers x)))
    \<and> QueueLength q \<le> 10000 \<and> 4 \<le> length (workers x) \<and> length (workers x) \<le> 64"
proof -
  have "ingest_inv C x" using reachable_inv [OF assms(2)] start_inv [OF assms(1)] by blast
  then show ?thesis
    using start_workers [OF assms(1)] reachable_workers [OF assms(2)]
    by (auto simp: ingest_inv_def inflight_def assms(3) Ingest_GetStats_def PacketQueueSize_def)
qed

text \<open>C26: only signed transactions reach the pool. In every reachable state every pending transaction
  carries a 64-byte signature of its signing message that verifies under its sender's key, and the
  pool is in order.\<close>

theorem ingest_verified:
  assumes "ingest_start (NewIngestServer numCPU (Some NewMempool) st) = Some x0"
    and "(ingest_step C gob m K)\<^sup>*\<^sup>* x0 x"
  shows "\<exists>mp. isMempool (server x) = Some mp \<and> mp_inv mp
    \<and> (\<forall>k e. fmlookup (mpPending mp) k = Some e \<longrightarrow>
         length (txSig (meTx e)) = 64
         \<and> ed_verify C (txFrom (meTx e)) (SerializeForSigning (meTx e)) (txSig (meTx e)))"
proof -
  have "ingest_inv C x" using reachable_inv [OF assms(2)] start_inv [OF assms(1)] by blast
  then show ?thesis by (auto simp: ingest_inv_def sig_ok_def)
qed

text \<open>The rate limit. In any sequence of rate-limiter calls and sweeps whose times all lie in a
  span of 60 seconds, in any order and for any senders, at most 10 calls of an address without an
  entry are let through, and at most 19 of any address.\<close>

theorem rate_limit_bound:
  assumes "counts_ok s" and "\<forall>e\<in>set es. t \<le> event_time e \<and> event_time e \<le> t + 60 * 1000000000"
  shows "accepted a s es \<le> (if fmlookup (isRate s) a = None then 10 else 19)"
proof -
  let ?T = "t + RateLimitWindow"
  have "accepted a s es \<le> budget ?T (fmlookup (isRate s) a)"
    using assms by (intro accepted_budget [where t = t]) (auto simp: RateLimitWindow_def)
  also have "\<dots> \<le> (if fmlookup (isRate s) a = None then 10 else 19)"
  proof (cases "fmlookup (isRate s) a")
    case (Some x)
    then have "1 \<le> rlCount x" using assms(1) by (auto simp: counts_ok_def)
    with Some show ?thesis by (auto simp: budget_def)
  qed (simp add: budget_def)
  finally show ?thesis .
qed

text \<open>C27: the atomic limiter is the deprecated pair of calls in one critical section:
  \<open>checkAndIncrementRateLimit\<close> returns what \<open>checkRateLimit\<close> returns and, when that is true, leaves
  the state that \<open>incrementRateLimit\<close> leaves.\<close>

theorem rate_limit_equiv:
  "checkAndIncrementRateLimit now s a =
     (checkRateLimit now s a, if checkRateLimit now s a then incrementRateLimit now s a else s)"
  by (auto simp: checkAndIncrementRateLimit_def checkRateLimit_def incrementRateLimit_def Let_def not_less
      split: option.splits)

text \<open>Stopping can crash the node. From every started server there is an interleaving in which the
  receive loop has read a datagram when \<open>Stop\<close> closes the packet queue, and its send on the closed
  channel panics.\<close>

theorem ingest_stop_race:
  assumes "ingest_start (NewIngestServer numCPU mp st) = Some x0"
  shows "\<exists>x. (ingest_step C gob m K)\<^sup>*\<^sup>* x0 x \<and> recv x = RPanic"
proof -
  have i: "recv x0 = RTop" "stop x0 = SIdle" "isRunning (server x0)" "\<not> isShutdown (server x0)"
    using assms by (auto simp: ingest_start_def NewIngestServer_def Let_def)
  define x1 where "x1 = x0\<lparr>recv := RRead\<rparr>"
  define x2 where "x2 = x1\<lparr>server := (server x1)\<lparr>isReceived := isReceived (server x1) + 1\<rparr>, recv := RSend []\<rparr>"
  define x3 where "x3 = x2\<lparr>server := (server x2)\<lparr>isRunning := False, isShutdown := True\<rparr>, stop := SSignalled\<rparr>"
  define x4 where "x4 = x3\<lparr>stop := SConnClosed\<rparr>"
  define x5 where "x5 = x4\<lparr>server := (server x4)\<lparr>isQueueClosed := True\<rparr>, stop := SWaiting\<rparr>"
  have "ingest_step C gob m K x0 x1" using ingest_step.recv_top [OF i(1), of C gob m K] i(4) by (simp add: x1_def)
  moreover have "ingest_step C gob m K x1 x2"
    using ingest_step.recv_packet [of x1 "[]" True "(server x1)\<lparr>isReceived := isReceived (server x1) + 1\<rparr>" C gob m K] i
    by (simp add: x2_def x1_def receivePacket_def MaxTxSize_def)
  moreover have "ingest_step C gob m K x2 x3"
    unfolding x3_def by (rule ingest_step.stop_signal) (simp_all add: x2_def x1_def i)
  moreover have "ingest_step C gob m K x3 x4"
    unfolding x4_def by (rule ingest_step.stop_conn) (simp add: x3_def)
  moreover have "ingest_step C gob m K x4 x5"
    unfolding x5_def by (rule ingest_step.stop_queue) (simp add: x4_def)
  moreover have "ingest_step C gob m K x5 (x5\<lparr>recv := RPanic\<rparr>)"
    by (rule ingest_step.recv_panic [where data = "[]"])
      (simp_all add: x5_def x4_def x3_def x2_def enqueuePacket_def)
  ultimately have "(ingest_step C gob m K)\<^sup>*\<^sup>* x0 (x5\<lparr>recv := RPanic\<rparr>)"
    by (meson converse_rtranclp_into_rtranclp rtranclp.rtrancl_refl)
  then show ?thesis by (intro exI [of _ "x5\<lparr>recv := RPanic\<rparr>"]) simp
qed

definition demo_ingest :: "(bytes \<rightharpoonup> Account) ingest_sys" where
  "demo_ingest = the (ingest_start (NewIngestServer 8 (Some NewMempool) None))"

lemma demo_ingest_start: "ingest_start (NewIngestServer 8 (Some NewMempool) None) = Some demo_ingest"
  by (simp add: demo_ingest_def ingest_start_def NewIngestServer_def Let_def)

theorem ingest_accounting_witness:
  "isReceived (server demo_ingest) = 0 \<and> length (workers demo_ingest) \<le> 64
   \<and> PacketsReceived (Ingest_GetStats (server demo_ingest)) =
      PacketsDropped (Ingest_GetStats (server demo_ingest)) + PacketsProcessed (Ingest_GetStats (server demo_ingest))
      + PacketsInvalid (Ingest_GetStats (server demo_ingest))
      + of_nat (QueueLength (Ingest_GetStats (server demo_ingest)) + holding (recv demo_ingest)
          + length (filter busy (workers demo_ingest)))"
  using ingest_accounting [OF demo_ingest_start rtranclp.rtrancl_refl refl]
  by (simp add: demo_ingest_def ingest_start_def NewIngestServer_def Let_def)

text \<open>A run of the pipeline: the packet is read, queued and taken by the first worker, then verified, let through by
  the rate limiter and added.\<close>

lemma packet_taken:
  assumes "ingest_start (NewIngestServer numCPU (Some NewMempool) st) = Some x0" and "length data \<le> MaxTxSize"
  shows "\<exists>x. (ingest_step C gob m K)\<^sup>*\<^sup>* x0 x \<and> 0 < length (workers x) \<and> workers x ! 0 = WTaken data
    \<and> isRate (server x) = fmempty \<and> isMempool (server x) = Some NewMempool \<and> isState (server x) = st"
proof -
  let ?r = "ingest_step C gob m K"
  have i: "recv x0 = RTop" "stop x0 = SIdle" "\<not> isShutdown (server x0)" "\<not> isQueueClosed (server x0)" "isQueue (server x0) = []"
    "isRate (server x0) = fmempty" "isMempool (server x0) = Some NewMempool" "isState (server x0) = st"
    using assms(1) by (auto simp: ingest_start_def NewIngestServer_def Let_def)
  have w: "0 < length (workers x0)" using start_workers [OF assms(1)] by linarith
  moreover have "\<forall>w\<in>set (workers x0). w = WIdle" using assms(1) by (auto simp: ingest_start_def split: if_splits)
  ultimately have idle: "workers x0 ! 0 = WIdle" by simp
  define x1 where "x1 = x0\<lparr>recv := RRead\<rparr>"
  define x2 where "x2 = x1\<lparr>server := (server x1)\<lparr>isReceived := isReceived (server x1) + 1\<rparr>, recv := RSend data\<rparr>"
  define x3 where "x3 = x2\<lparr>server := (server x2)\<lparr>isQueue := [data]\<rparr>, recv := RTop\<rparr>"
  define x4 where "x4 = x3\<lparr>server := (server x3)\<lparr>isQueue := []\<rparr>, workers := (workers x3)[0 := WTaken data]\<rparr>"
  note defs = x1_def x2_def x3_def x4_def
  have 1: "?r x0 x1" using ingest_step.recv_top [OF i(1), of C gob m K] i(3) by (simp add: x1_def)
  have 2: "?r x1 x2"
    using ingest_step.recv_packet [of x1 data True "(server x1)\<lparr>isReceived := isReceived (server x1) + 1\<rparr>" C gob m K] i assms(2)
    by (simp add: x2_def x1_def receivePacket_def)
  have 3: "?r x2 x3" unfolding x3_def
    by (rule ingest_step.recv_send) (simp_all add: defs i enqueuePacket_def PacketQueueSize_def)
  have 4: "?r x3 x4" unfolding x4_def
    by (rule ingest_step.worker_take) (use w idle in \<open>simp_all add: defs\<close>)
  have "?r\<^sup>*\<^sup>* x0 x4" using 1 2 3 4 by (meson converse_rtranclp_into_rtranclp rtranclp.rtrancl_refl)
  then show ?thesis using w i by (intro exI [of _ x4]) (simp add: defs)
qed

lemma packet_added:
  assumes "0 < length (workers x)" and "workers x ! 0 = WTaken data" and "isRate (server x) = fmempty"
    and "isMempool (server x) = Some NewMempool" and "isState (server x) = st"
    and "verifyPacket C gob m data = Some tx" and "acceptable K t1 NewMempool st tx"
  shows "\<exists>y mp. (ingest_step C gob m K)\<^sup>*\<^sup>* x y \<and> isMempool (server y) = Some mp
    \<and> fmlookup (mpPending mp) (array32 (txSig tx)) = Some (new_entry t2 tx)"
proof -
  let ?r = "ingest_step C gob m K"
  define s2 where "s2 = snd (worker_limit 0 (server x) tx)"
  define x1 where "x1 = x\<lparr>workers := (workers x)[0 := WVerified tx]\<rparr>"
  define x2 where "x2 = x1\<lparr>server := s2, workers := (workers x1)[0 := WLimited tx]\<rparr>"
  define x3 where "x3 = x2\<lparr>server := submitTx K [] t1 t2 (server x2) tx, workers := (workers x2)[0 := WIdle]\<rparr>"
  have l: "worker_limit 0 (server x) tx = (WLimited tx, s2)" and mp: "isMempool s2 = Some NewMempool" "isState s2 = st"
    using assms(3-5) by (simp_all add: s2_def worker_limit_def checkAndIncrementRateLimit_def Let_def)
  have "?r x (x\<lparr>server := server x, workers := (workers x)[0 := WVerified tx]\<rparr>)"
    by (rule ingest_step.worker_verify [OF assms(1,2)]) (simp add: worker_verify_def assms(6))
  then have 1: "?r x x1" by (simp add: x1_def)
  have 2: "?r x1 x2" unfolding x2_def
    by (rule ingest_step.worker_limit) (use assms(1) l in \<open>simp_all add: x1_def\<close>)
  have 3: "?r x2 x3" unfolding x3_def
    by (rule ingest_step.worker_submit [where mp = NewMempool])
      (use assms(1) mp in \<open>simp_all add: x2_def x1_def map_order_def NewMempool_def\<close>)
  have "Mempool_Add K [] t1 t2 NewMempool st tx = admit K t1 t2 NewMempool st tx"
    by (simp add: Mempool_Add_def NewMempool_def fmsize_def fcard.rep_eq MaxMempoolSize_def)
  then have "\<exists>mp. isMempool (server x3) = Some mp \<and> fmlookup (mpPending mp) (array32 (txSig tx)) = Some (new_entry t2 tx)"
    using admit_eq [of K t1 t2 NewMempool st tx] assms(7)
    by (cases "admit K t1 t2 NewMempool st tx") (simp add: x3_def x2_def submitTx_def mp)
  moreover have "?r\<^sup>*\<^sup>* x x3" using 1 2 3 by (meson converse_rtranclp_into_rtranclp rtranclp.rtrancl_refl)
  ultimately show ?thesis by blast
qed

lemma packet_accepted:
  assumes "ingest_start (NewIngestServer numCPU (Some NewMempool) st) = Some x0"
    and "verifyPacket C gob m data = Some tx" and "length data \<le> MaxTxSize" and "acceptable K t1 NewMempool st tx"
  shows "\<exists>x mp. (ingest_step C gob m K)\<^sup>*\<^sup>* x0 x \<and> isMempool (server x) = Some mp
    \<and> fmlookup (mpPending mp) (array32 (txSig tx)) = Some (new_entry t2 tx)"
proof -
  obtain x where x: "(ingest_step C gob m K)\<^sup>*\<^sup>* x0 x" "0 < length (workers x)" "workers x ! 0 = WTaken data"
    "isRate (server x) = fmempty" "isMempool (server x) = Some NewMempool" "isState (server x) = st"
    using packet_taken [OF assms(1,3), of C gob m K] by blast
  from packet_added [OF x(2-6) assms(2,4), of t2]
  obtain y mp where y: "(ingest_step C gob m K)\<^sup>*\<^sup>* x y" "isMempool (server y) = Some mp"
    "fmlookup (mpPending mp) (array32 (txSig tx)) = Some (new_entry t2 tx)" by blast
  then show ?thesis using rtranclp_trans [OF x(1) y(1)] by blast
qed

definition demo_packet_tx :: Transaction where
  "demo_packet_tx = sample_tx\<lparr>txSig := be_bytes 32 (1 :: addr) @ be_bytes 32 (array32 (SerializeForSigning sample_tx))\<rparr>"

text \<open>A signed packet goes through the whole pipeline; in the state reached it is pending, and its signature is valid.\<close>

theorem ingest_verified_witness:
  "\<exists>x mp. (ingest_step demo_crypto (\<lambda>_. Some demo_packet_tx) 0 mem_badger)\<^sup>*\<^sup>* demo_ingest x \<and> isMempool (server x) = Some mp
     \<and> fmlookup (mpPending mp) (array32 (txSig demo_packet_tx)) = Some (new_entry 1000000000000 demo_packet_tx)
     \<and> length (txSig demo_packet_tx) = 64
     \<and> ed_verify demo_crypto (txFrom demo_packet_tx) (SerializeForSigning demo_packet_tx) (txSig demo_packet_tx)"
proof -
  have "SerializeForSigning demo_packet_tx = SerializeForSigning sample_tx"
    by (simp add: SerializeForSigning_def demo_packet_tx_def)
  then have v: "verifyPacket demo_crypto (\<lambda>_. Some demo_packet_tx) 0 [] = Some demo_packet_tx"
    by (simp add: verifyPacket_def ValidatePayloadSize_def SafeDecodeTransaction_def SafeDecode_def demo_crypto_def)
      (simp add: demo_packet_tx_def sample_tx_def del: be_bytes.simps)
  have "acceptable mem_badger 1000000000000 NewMempool None demo_packet_tx"
    by (simp add: acceptable_def demo_packet_tx_def sample_tx_def IsExpired_def UnixNano_def NewMempool_def
        TxMaxAge_def word_sless_alt Let_def)
  from packet_accepted [OF demo_ingest_start v _ this, of 1000000000000]
  obtain x mp where x: "(ingest_step demo_crypto (\<lambda>_. Some demo_packet_tx) 0 mem_badger)\<^sup>*\<^sup>* demo_ingest x" "isMempool (server x) = Some mp"
    "fmlookup (mpPending mp) (array32 (txSig demo_packet_tx)) = Some (new_entry 1000000000000 demo_packet_tx)" by auto
  with ingest_verified [OF demo_ingest_start x(1)] show ?thesis by fastforce
qed

theorem rate_limit_bound_witness:
  "accepted 7 (server demo_ingest) (replicate 12 (RateCheck 7 5)) \<le> 10"
proof -
  have r: "isRate (server demo_ingest) = fmempty"
    by (simp add: demo_ingest_def ingest_start_def NewIngestServer_def Let_def)
  show ?thesis
    using rate_limit_bound [of "server demo_ingest" "replicate 12 (RateCheck 7 5)" 5 7]
    by (simp add: counts_ok_def r del: accepted.simps replicate.simps)
qed

theorem ingest_stop_race_witness:
  "\<exists>x. (ingest_step demo_crypto (\<lambda>_. None) 0 mem_badger)\<^sup>*\<^sup>* demo_ingest x \<and> recv x = RPanic"
  by (rule ingest_stop_race [OF demo_ingest_start])

end
