(* ===== verification/Node_Miner.thy ===== *)
theory Node_Miner
  imports Node_Genesis Ingest
begin

text \<open>
  \<open>main.go\<close>, part 2, and \<open>cmd/wallet/main.go\<close>: the mining loop and the transactions that the command-line
  tools build.

  One round of the mining loop works on the DAG, the mempool and the state of the running server. \<open>enc\<close> is
  the gob encoding of a batch, \<open>ks\<close> and \<open>pk\<close> are iteration orders of the mempool and of the peers.
  A panic is \<open>None\<close>.
\<close>

section \<open>The mining loop\<close>

definition devSeed :: bytes where
  "devSeed = string_bytes ''supernova-genesis-seed-key-12345''"

definition minerSeed :: "string \<Rightarrow> bytes option" where
  "minerSeed minerKey =
     (if minerKey \<noteq> []
      then let (decoded, ok) = DecodeString minerKey in
        if \<not> ok \<or> length decoded \<noteq> 32 then None else Some decoded
      else Some devSeed)"

text \<open>Payload and Merkle root of a batch; \<open>None\<close> when the encoder fails.\<close>

definition sealBatch :: "crypto \<Rightarrow> (Transaction list \<Rightarrow> bytes option) \<Rightarrow> Transaction list \<Rightarrow> (bytes \<times> 256 word) option" where
  "sealBatch C enc txs =
     (if txs \<noteq> []
      then (case enc txs of
              None \<Rightarrow> None
            | Some payload \<Rightarrow> Some (payload, array32 (MerkleRoot C (map txSig txs))))
      else Some (string_bytes ''mined-block'', 0))"

definition mineTick :: "('d, 'b) node_env \<Rightarrow> (Transaction list \<Rightarrow> bytes option) \<Rightarrow> time \<Rightarrow> addr list \<Rightarrow> string list
    \<Rightarrow> bytes \<Rightarrow> 'd Server \<Rightarrow> (Transaction list \<times> Vertex option) \<times> 'd Server \<times> (string \<times> Message) list" where
  "mineTick E enc now ks pk seed s =
     (case (svDAG s, svMempool s) of
        (Some dag, Some mp) \<Rightarrow>
          let C = neCrypto E;
              minerPriv = ed_key_from_seed C seed;
              minerPub = ed_public C minerPriv;
              tips = GetTips (neOrd E) dag;
              tips = (if tips = [] then [0] else tips);
              (txs, mp) = GetBatch ks mp 100;
              s = s\<lparr>svMempool := Some mp\<rparr>
          in (case sealBatch C enc txs of
                None \<Rightarrow> ((txs, None), s, [])
              | Some (payload, merkleRoot) \<Rightarrow>
                  let v = NewVertex C now tips minerPub minerPriv payload merkleRoot;
                      ((db, dag), _) = AddVertex (neBadger E) (neGob E) (neOrd E) (storeDB (svState s), dag) v;
                      s = s\<lparr>svDAG := Some dag, svState := (svState s)\<lparr>storeDB := db\<rparr>\<rparr>
                  in ((txs, Some v), s, BroadcastBlock (neCodec E) pk v))
      | _ \<Rightarrow> (([], None), s, []))"

section \<open>Command-line transactions\<close>

definition handleTransaction :: "crypto \<Rightarrow> time \<Rightarrow> bool \<Rightarrow> bool \<Rightarrow> string \<Rightarrow> u64 \<Rightarrow> string \<Rightarrow> Transaction option" where
  "handleTransaction C now isSend isStake toStr amountVal key =
     (let keyStr = (if key = [] then ''73757065726e6f76612d67656e657369732d736565642d6b65792d3132333435'' else key);
          (seed, ok) = (if keyStr = ''genesis'' then (devSeed, True) else DecodeString keyStr) in
      if \<not> ok then None
      else if length seed \<noteq> 32 then None
      else
        let priv = ed_key_from_seed C seed;
            pub = ed_public C priv;
            tx = \<lparr>txType = 0, txFrom = pub, txTo = 0, txAmount = amountVal * 1000000, txFee = 0,
                  txNonce = UnixNano now, txTimestamp = 0, txSig = []\<rparr>;
            tx = (if isSend then tx\<lparr>txType := TxTransfer, txTo := array32 (fst (DecodeString toStr))\<rparr>
                  else if isStake then tx\<lparr>txType := TxStake\<rparr> else tx)
        in if isSend \<and> toStr = [] then None
           else Some (tx\<lparr>txSig := ed_sign C priv (SerializeForSigning tx)\<rparr>))"

text \<open>\<open>wallet send\<close>; \<open>None\<close> when it only prints a message.\<close>

definition runSend :: "crypto \<Rightarrow> string \<Rightarrow> string \<Rightarrow> u64 \<Rightarrow> u64 \<Rightarrow> Transaction option" where
  "runSend C privKeyHex toHex amount nonce =
     (if privKeyHex = [] \<or> toHex = [] \<or> amount = 0 then None
      else
        let privBytes = fst (DecodeString privKeyHex); toBytes = fst (DecodeString toHex) in
        if length privBytes \<noteq> 64 then None
        else
          let kp = \<lparr>kpPublicKey = drop 32 privBytes, kpPrivateKey = privBytes\<rparr>;
              tx = \<lparr>txType = 0, txFrom = array32 (kpPublicKey kp), txTo = array32 toBytes, txAmount = amount,
                    txFee = 0, txNonce = nonce, txTimestamp = 0, txSig = []\<rparr>
          in Some (tx\<lparr>txSig := KeyPair_Sign C kp (SerializeForSigning tx)\<rparr>))"

text \<open>\<open>-genkey\<close>: the seed and the address that are printed; a failing random source panics (\<open>None\<close>).\<close>

definition genKey :: "crypto \<Rightarrow> bytes option \<Rightarrow> (string \<times> string) option" where
  "genKey C entropy = map_option (\<lambda>seed. (EncodeToString seed, hex_id (ed_public C (ed_key_from_seed C seed)))) entropy"

definition runKeygen :: "crypto \<Rightarrow> bytes option \<Rightarrow> (string \<times> string) option" where
  "runKeygen C entropy =
     map_option (\<lambda>kp. (EncodeToString (kpPublicKey kp), EncodeToString (kpPrivateKey kp))) (GenerateKeyPair C entropy)"

section \<open>Lemmas\<close>

lemma length_devSeed: "length devSeed = 32"
  by (simp add: devSeed_def string_bytes_def)

text \<open>The whole effect of a round in which a block is mined.\<close>

lemma mineTick_mined:
  assumes "svDAG s = Some dag" "svMempool s = Some mp"
    and "mineTick E enc now ks pk seed s = ((txs, Some v), s', out)"
  defines "C \<equiv> neCrypto E"
  defines "priv \<equiv> ed_key_from_seed C seed"
  defines "tips \<equiv> GetTips (neOrd E) dag"
  obtains payload root where
    "sealBatch C enc txs = Some (payload, root)" "txs = fst (GetBatch ks mp 100)"
    "v = NewVertex C now (if tips = [] then [0] else tips) (ed_public C priv) priv payload root"
    "s' = s\<lparr>svMempool := Some (snd (GetBatch ks mp 100)),
            svDAG := Some (if HasVertex dag (vHash v) then dag else insertVertex dag v),
            svState := (svState s)\<lparr>storeDB := (if HasVertex dag (vHash v) then storeDB (svState s)
               else persistVertex (neBadger E) (neGob E) (neOrd E) (storeDB (svState s)) (insertVertex dag v) v)\<rparr>\<rparr>"
    "out = BroadcastBlock (neCodec E) pk v"
proof -
  obtain payload root where sb: "sealBatch C enc txs = Some (payload, root)"
    using assms(3) by (auto simp: mineTick_def assms(1,2) C_def Let_def split: option.splits prod.splits)
  show thesis
    using assms(3) sb
    by (intro that [of payload root])
      (auto simp: mineTick_def assms(1,2) C_def tips_def priv_def Let_def AddVertex_def HasVertex_def
        split: option.splits prod.splits if_splits)
qed

text \<open>Rounds of the loop, one after the other, with nothing else running: the batches and the blocks.\<close>

primrec mineRounds :: "('d, 'b) node_env \<Rightarrow> (Transaction list \<Rightarrow> bytes option) \<Rightarrow> (Mempool \<Rightarrow> addr list) \<Rightarrow> bytes
    \<Rightarrow> 'd Server \<Rightarrow> (time \<times> string list) list \<Rightarrow> (Transaction list \<times> Vertex option) list \<times> 'd Server" where
  "mineRounds E enc ord seed s [] = ([], s)"
| "mineRounds E enc ord seed s (t # ts) =
     (let ks = (case svMempool s of Some mp \<Rightarrow> ord mp | None \<Rightarrow> []);
          (res, s, out) = mineTick E enc (fst t) ks (snd t) seed s;
          (rest, s) = mineRounds E enc ord seed s ts
      in (res # rest, s))"

lemma mineTick_total:
  assumes "svDAG s = Some dag" "svMempool s = Some mp" "\<forall>txs. enc txs \<noteq> None"
    and "mineTick E enc now ks pk seed s = (res, s', out)"
  obtains v dag' where "res = (fst (GetBatch ks mp 100), Some v)" "svDAG s' = Some dag'"
    "svMempool s' = Some (snd (GetBatch ks mp 100))"
    "fst res \<noteq> [] \<longrightarrow> enc (fst res) = Some (vTxPayload v)"
proof -
  obtain txs mp' where b: "GetBatch ks mp 100 = (txs, mp')" by fastforce
  have "sealBatch (neCrypto E) enc txs \<noteq> None" using assms(3) [rule_format, of txs] by (auto simp: sealBatch_def split: option.splits)
  then obtain v where m: "res = (txs, Some v)"
    using assms(4) by (auto simp: mineTick_def assms(1,2) b Let_def split: option.splits prod.splits)
  from mineTick_mined [OF assms(1,2) assms(4) [unfolded m]] show thesis
  proof cases
    case (1 payload root)
    then have "txs \<noteq> [] \<Longrightarrow> enc txs = Some (vTxPayload v)"
      by (auto simp: sealBatch_def NewVertex_def Let_def split: option.splits)
    then show thesis using that [of v] 1(4) by (auto simp: m b)
  qed
qed

lemma Count_zero: "map_order (mpPending mp) ks \<Longrightarrow> Count mp = 0 \<Longrightarrow> GetAll ks mp = []"
  using map_order_length [of "mpPending mp" ks] by (simp add: Count_def GetAll_def pendingEntries_def map_filter_simps)

lemma count_batch:
  assumes "mp_inv mp" "orders ord"
  shows "Count (snd (GetBatch (ord mp) mp 100)) = Count mp - 100"
    "mset (GetAll (ord mp) mp) = mset (fst (GetBatch (ord mp) mp 100))
      + mset (GetAll (ord (snd (GetBatch (ord mp) mp 100))) (snd (GetBatch (ord mp) mp 100)))"
proof -
  let ?r = "GetBatch (ord mp) mp 100"
  have o: "map_order (mpPending m) (ord m)" for m using assms(2) by (simp add: orders_def)
  note b = batch_split [OF assms(1) o, where limit = 100 and batch = "fst ?r" and mp' = "snd ?r", OF _ o]
  have len: "length (GetAll (ord m) m) = Count m" for m
    using map_order_length [OF o, of m] pendingEntries_map [OF o, of m] by (simp add: GetAll_def Count_def)
  show all: "mset (GetAll (ord mp) mp) = mset (fst ?r) + mset (GetAll (ord (snd ?r)) (snd ?r))" using b by simp
  have "length (fst ?r) = min 100 (Count mp)" using b by simp
  moreover have "Count mp = length (fst ?r) + Count (snd ?r)"
    using arg_cong [OF all, of size] len by (simp flip: size_mset)
  ultimately show "Count (snd ?r) = Count mp - 100" by simp
qed

section \<open>Properties\<close>

text \<open>C37: a round of the mining loop. The new block is signed by the miner and has all tips as parents,
  so it becomes the only tip; the pool gives up its (at most 100) best-paying transactions to it; it is sent to every
  address in \<open>pk\<close>, the enumeration of the connected peers. No account changes: the miner neither executes the transactions
  nor pays itself. The round is not interrupted here; \<open>Node_Races\<close> has what an interruption changes.\<close>

theorem mine_tick:
  assumes "svDAG s = Some dag" and "svMempool s = Some mp" and "mp_inv mp" and "map_order (mpPending mp) ks"
    and "sm_wf K (svState s)" and "K = neBadger E" and "C = neCrypto E" and "ed25519_ok C"
    and "set (neOrd E (vsTips dag)) = fset (vsTips dag)"
    and "mineTick E enc now ks pk seed s = ((txs, Some v), s', out)"
    and "\<not> HasVertex dag (vHash v)" and "vHash v \<notin> set (vParents v)"
  shows "vAuthor v = ed_public C (ed_key_from_seed C seed)
    \<and> (\<exists>sig. vSignature v = Some sig \<and> ed_verify C (vAuthor v) (be_bytes 32 (vHash v)) sig)
    \<and> svDAG s' = Some (insertVertex dag v) \<and> vsTips (insertVertex dag v) = {|vHash v|}
    \<and> (\<exists>mp'. svMempool s' = Some mp' \<and> length txs = min 100 (Count mp)
         \<and> (\<forall>ks'. map_order (mpPending mp') ks' \<longrightarrow>
              mset (GetAll ks mp) = mset txs + mset (GetAll ks' mp')
              \<and> (\<forall>tx\<in>set txs. \<forall>tx'\<in>set (GetAll ks' mp'). txFee tx' \<le> txFee tx)))
    \<and> view K (svState s') = view K (svState s)
    \<and> (\<forall>buf. encVertex (neCodec E) v = Some buf \<longrightarrow>
         out = map (\<lambda>a. (a, \<lparr>msgType = MsgBlock, msgPayload = buf\<rparr>)) pk)"
  using mineTick_mined [OF assms(1,2,10)]
proof cases
  case (1 payload root)
  let ?db = "persistVertex K (neGob E) (neOrd E) (storeDB (svState s)) (insertVertex dag v) v"
  have "view K ((svState s)\<lparr>storeDB := ?db\<rparr>) = view K (svState s)"
    using persist_view [OF assms(5) refl] by simp
  moreover have "vsTips (insertVertex dag v) = {|vHash v|}"
  proof -
    have "vParents v = (if neOrd E (vsTips dag) = [] then [0] else neOrd E (vsTips dag))"
      unfolding 1(3) by (simp add: NewVertex_def Let_def GetTips_def)
    then have "fset (vsTips dag) \<subseteq> set (vParents v)" using assms(9) by auto
    then have "vsTips dag |\<subseteq>| fset_of_list (vParents v)" by (simp add: less_eq_fset.rep_eq fset_of_list.rep_eq)
    then show ?thesis using assms(12) by (auto simp: insertVertex_def fset_of_list.rep_eq)
  qed
  moreover have "vAuthor v = ed_public C (ed_key_from_seed C seed)"
    "\<exists>sig. vSignature v = Some sig \<and> ed_verify C (vAuthor v) (be_bytes 32 (vHash v)) sig"
    using assms(8) unfolding 1(3) by (simp_all add: NewVertex_def Let_def assms(7) ed25519_ok_def)
  moreover have "length txs = min 100 (Count mp)"
  proof -
    obtain ks' where "map_order (mpPending (snd (GetBatch ks mp 100))) ks'" using map_order_exists by blast
    then show ?thesis using batch_split [OF assms(3,4), of 100 txs "snd (GetBatch ks mp 100)"] 1(2) by simp
  qed
  moreover have "mset (GetAll ks mp) = mset txs + mset (GetAll ks' mp')
      \<and> (\<forall>tx\<in>set txs. \<forall>tx'\<in>set (GetAll ks' mp'). txFee tx' \<le> txFee tx)"
    if "mp' = snd (GetBatch ks mp 100)" "map_order (mpPending mp') ks'" for mp' ks'
    using batch_split [OF assms(3,4), of 100 txs mp' ks'] that 1(2) by simp
  moreover have "svMempool s' = Some (snd (GetBatch ks mp 100))" "svDAG s' = Some (insertVertex dag v)"
    "svState s' = (svState s)\<lparr>storeDB := ?db\<rparr>"
    using assms(11) by (simp_all add: 1(4) assms(6))
  moreover have "\<forall>buf. encVertex (neCodec E) v = Some buf \<longrightarrow>
      out = map (\<lambda>a. (a, \<lparr>msgType = MsgBlock, msgPayload = buf\<rparr>)) pk"
    by (simp add: 1(5) BroadcastBlock_def Broadcast_def)
  ultimately show ?thesis by simp
qed

text \<open>C36: every pending transaction is mined. When the encoder works and nothing new arrives, a pool of \<open>n\<close>
  transactions is empty after any number of rounds that is at least \<open>n / 100\<close>: the batches of the
  rounds together are exactly the pending transactions, and each non-empty batch is the payload of the
  block of its round.\<close>

theorem pool_drains:
  assumes "orders ord" and "svDAG s = Some dag" and "svMempool s = Some mp" and "mp_inv mp"
    and "\<forall>txs. enc txs \<noteq> None" and "Count mp \<le> 100 * length rounds"
    and "mineRounds E enc ord seed s rounds = (res, s')"
  shows "(\<exists>mp'. svMempool s' = Some mp' \<and> Count mp' = 0)
    \<and> mset (concat (map fst res)) = mset (GetAll (ord mp) mp)
    \<and> (\<forall>r\<in>set res. \<exists>v. snd r = Some v \<and> (fst r \<noteq> [] \<longrightarrow> enc (fst r) = Some (vTxPayload v)))"
  using assms(2-4,6,7)
proof (induction rounds arbitrary: s dag mp res)
  case Nil
  have "map_order (mpPending mp) (ord mp)" using assms(1) by (simp add: orders_def)
  then show ?case using Nil Count_zero by auto
next
  case (Cons t ts)
  obtain r s1 out where T: "mineTick E enc (fst t) (ord mp) (snd t) seed s = (r, s1, out)" by (rule prod_cases3)
  obtain rest s2 where R: "mineRounds E enc ord seed s1 ts = (rest, s2)" by fastforce
  obtain v dag' where v: "r = (fst (GetBatch (ord mp) mp 100), Some v)" "svDAG s1 = Some dag'"
    "svMempool s1 = Some (snd (GetBatch (ord mp) mp 100))" "fst r \<noteq> [] \<longrightarrow> enc (fst r) = Some (vTxPayload v)"
    using mineTick_total [OF Cons.prems(1,2) assms(5) T] by blast
  have res: "res = r # rest" "s' = s2" using Cons.prems(2,5) T R by (auto simp: Let_def)
  from Cons.IH [OF v(2,3) GetBatch_inv [OF Cons.prems(3)] _ R [folded res(2)]] res(1) show ?case
    using count_batch [OF Cons.prems(3) assms(1)] Cons.prems(4) v(1,4) by auto
qed

text \<open>C38: the miner and its peers end up with different ledgers. A staked miner mines a block and sends
  it to a peer that holds the same accounts, has no block of this author and does not know it yet: the
  peer accepts the block and pays the reward to the miner in its own ledger, the miner's ledger stays
  as it was.\<close>

theorem miner_diverges:
  assumes "full_server F p dag' sl" and "K = neBadger F" and "C = neCrypto F" and "C = neCrypto E" and "ed25519_ok C"
    and "svDAG s = Some dag" and "svMempool s = Some mp" and "sm_wf (neBadger E) (svState s)"
    and "mineTick E enc now ks pk seed s = ((txs, Some v), s', out)"
    and "view K (svState p) = view (neBadger E) (svState s)"
    and "encVertex (neCodec E) v = Some buf" and "decVertex (neCodec F) buf = Some v" and "length buf \<le> MaxBlockSize"
    and "\<not> HasVertex dag' (vHash v)" and "signedAt sl 0 (vAuthor v) = None"
    and "A = view K (svState p) (vAuthor v)"
    and "unat (accStake A) + unat (accGrantStake A) \<in> {1000000000 ..< 2 ^ 64}"
    and "unat (accBalance A) + 500000000 + 2 ^ 63 < 2 ^ 64"
    and "handleBlock F now' pk' p q buf = (p', out')"
  shows "(\<forall>a. (a, \<lparr>msgType = MsgBlock, msgPayload = buf\<rparr>) \<in> set out \<longleftrightarrow> a \<in> set pk)
    \<and> svDAG p' = Some (insertVertex dag' v)
    \<and> unat (accBalance (view K (svState p') (vAuthor v))) =
        unat (accBalance A) + reward_schedule (halvings_at (vTimestamp v)) + unat (blockFees (neCodec F) v) div 2
    \<and> view (neBadger E) (svState s') = view (neBadger E) (svState s)
    \<and> view K (svState p') \<noteq> view (neBadger E) (svState s')"
  using mineTick_mined [OF assms(6,7,9)]
proof cases
  case (1 payload root)
  let ?db = "if HasVertex dag (vHash v) then storeDB (svState s)
    else persistVertex (neBadger E) (neGob E) (neOrd E) (storeDB (svState s)) (insertVertex dag v) v"
  have same: "view (neBadger E) (svState s') = view (neBadger E) (svState s)"
    using persist_view [OF assms(8) refl] by (simp add: 1(4))
  have v: "vRound v = 0" "vAuthor v = ed_public C (ed_key_from_seed C seed)"
    by (simp_all add: 1(3) NewVertex_def Let_def assms(4))
  have valid: "fst (ValidateBlock C K (svState p) v) = None"
    unfolding 1(3) assms(4) [symmetric]
    by (rule honest_validates [OF assms(5) refl refl]) (use assms(16,17) v(2) in simp)
  have flag: "\<not> fst (fst (RecordBlockSigned sl v))" using assms(15) v(1) by (simp add: RecordBlockSigned_flag)
  have acc: "svDAG p' = Some (insertVertex dag' v)"
    "view K (svState p') = rewarded (view K (svState p)) (vAuthor v) (blockFees (neCodec F) v) (vTimestamp v)"
    using handle_block_cases [OF assms(1,2,13,12,19) refl refl refl refl] valid flag assms(14)
    by (auto simp: assms(2,3))
  let ?r = "reward_schedule (halvings_at (vTimestamp v))" and ?f = "unat (blockFees (neCodec F) v) div 2"
  have "?f < 2 ^ 63" using unat_u64_less [of "blockFees (neCodec F) v"] by simp
  then have fit: "unat (accBalance A) + (?r + ?f) < 2 ^ 64"
    using assms(18) reward_schedule_bounds(2) [of "halvings_at (vTimestamp v)"] by linarith
  then have bal: "unat (accBalance (view K (svState p') (vAuthor v))) = unat (accBalance A) + ?r + ?f"
  proof -
    have "unat (of_nat n :: u64) = n" if "n < 2 ^ 64" for n using that by (simp add: unat_of_nat take_bit_eq_mod)
    then show ?thesis using fit unfolding acc(2)
      by (simp add: rewarded_def Let_def assms(16) add.assoc del: of_nat_add of_nat_Suc)
  qed
  moreover have "0 < ?r" using reward_schedule_bounds(1) [of "halvings_at (vTimestamp v)"] by simp
  ultimately have "view K (svState p') \<noteq> view (neBadger E) (svState s')"
    using assms(16) unfolding same assms(10) [symmetric] by auto
  then show ?thesis using acc(1) bal same assms(11) by (auto simp: 1(5) BroadcastBlock_def Broadcast_def)
qed


text \<open>The key that mining uses when none is given holds no genesis stake. Without any
  configuration the allocation goes to the development seed of \<open>loadConfig\<close>, two random keys and the
  default community keys; unless the address of the default mining key is one of these five, a node
  that starts on a fresh ledger refuses every block mined with it for lack of stake. A comment in the
  mining loop says that this key was given stake.\<close>

theorem default_miner_unstaked:
  assumes "view K sm = (\<lambda>a. zeroAccount\<lparr>accAddress := a\<rparr>)" and "sm_wf K sm" and "ed25519_ok C"
    and "minerSeed [] = Some seed" and "genesisIDs C rnd (loadConfig None (\<lambda>_. [])) = (gens, users)"
    and "ed_public C (ed_key_from_seed C seed) \<notin> set (gens @ users)"
  shows "fst (ValidateBlock C K (bigBang C K rnd (loadConfig None (\<lambda>_. [])) sm)
      (NewVertex C now parents (ed_public C (ed_key_from_seed C seed)) (ed_key_from_seed C seed) payload root))
    = Some (ErrInsufficientStake 0)"
  using assms(3,6) view_bigBang [OF assms(2,5)]
  by (simp add: ValidateBlock_def NewVertex_def Let_def get_eq ed25519_ok_def assms(1) zeroAccount_def
      SafeAdd_cases MinStakeRequired_def)

section \<open>Witnesses\<close>

text \<open>A node that mines an empty block on an empty DAG with the key of account 2.\<close>

definition demo_block :: Vertex where
  "demo_block = NewVertex length_crypto 5 [0] 2 demo_key (string_bytes ''mined-block'') 0"

definition miner_env :: "(bytes \<rightharpoonup> Account, Account) node_env" where
  "miner_env = demo_env\<lparr>neCodec := demo_codec\<lparr>encVertex := \<lambda>_. Some [1], decVertex := \<lambda>_. Some demo_block\<rparr>\<rparr>"

definition miner_tick :: "(Transaction list \<times> Vertex option) \<times> (bytes \<rightharpoonup> Account) Server \<times> (string \<times> Message) list" where
  "miner_tick = mineTick miner_env (\<lambda>_. Some []) 5 [] [''peer''] (be_bytes 32 (2 :: addr)) demo_server"

lemma demo_block_facts: "vHash demo_block = 115" "vAuthor demo_block = 2" "vTimestamp demo_block = 5" "vParents demo_block = [0]"
  by (simp_all add: demo_block_def NewVertex_def ComputeHash_def hashPreimage_def length_crypto_def string_bytes_def
      UnixNano_def Let_def del: be_bytes.simps)

lemma miner_env_simps:
  "neCrypto miner_env = length_crypto" "neBadger miner_env = mem_badger" "neOrd miner_env = sorted_list_of_fset"
  "neCodec miner_env = demo_codec\<lparr>encVertex := \<lambda>_. Some [1], decVertex := \<lambda>_. Some demo_block\<rparr>"
  "neGob miner_env = neGob demo_env"
  by (simp_all add: miner_env_def demo_env_def)

lemma empty_order: "sorted_list_of_fset ({||} :: hash fset) = []"
  by (simp add: sorted_list_of_fset.rep_eq)

lemma miner_tick_eq: "miner_tick = (([], Some demo_block), fst (snd miner_tick), snd (snd miner_tick))"
  using demo_key_public
  by (simp add: miner_tick_def mineTick_def demo_server_def NewServer_def miner_env_simps GetTips_def empty_store_def
      GetBatch_def NewMempool_def fmsize_def sealBatch_def demo_block_def demo_key_def empty_order Let_def split: prod.split)

lemma empty_tips: "vsTips empty_store = {||}"
  by (simp add: empty_store_def)

lemma demo_server_parts: "svDAG demo_server = Some empty_store" "svMempool demo_server = Some NewMempool"
  "svState demo_server = demo_sm" "mp_inv NewMempool" "map_order (mpPending NewMempool) []"
  by (simp_all add: demo_server_def NewServer_def mp_inv_def NewMempool_def map_order_def fmsize_def MaxMempoolSize_def
      fcard.rep_eq)

theorem mine_tick_witness:
  "vsTips (insertVertex empty_store demo_block) = {|115|}
   \<and> view mem_badger (svState (fst (snd miner_tick))) = view mem_badger demo_sm"
  using mine_tick [where s = demo_server and dag = empty_store and mp = NewMempool and K = mem_badger and E = miner_env
      and C = length_crypto and ks = "[]", OF _ _ _ _ _ _ _ _ _ miner_tick_eq [unfolded miner_tick_def]]
  by (simp add: demo_server_parts miner_env_simps demo_wf length_crypto_ok demo_block_facts empty_has empty_tips
      flip: miner_tick_def)

theorem pool_drains_witness:
  "\<exists>mp'. svMempool (snd (mineRounds miner_env (\<lambda>_. Some []) key_order (be_bytes 32 (2 :: addr))
       (demo_server\<lparr>svMempool := Some (demo_pool 150)\<rparr>) [(5, []), (6, [])])) = Some mp' \<and> Count mp' = 0"
  using pool_drains [where s = "demo_server\<lparr>svMempool := Some (demo_pool 150)\<rparr>" and dag = empty_store
      and mp = "demo_pool 150" and ord = key_order and rounds = "[(5, []), (6, [])]"
      and enc = "\<lambda>_. Some []" and E = miner_env and seed = "be_bytes 32 (2 :: addr)", OF _ _ _ _ _ _ surjective_pairing]
  by (simp add: demo_server_parts demo_pool_inv demo_pool_count key_order_orders del: mineRounds.simps be_bytes.simps)

lemma demo_miner_full: "full_server miner_env demo_server empty_store (NewSlasher None)"
  using demo_full by (simp add: full_server_def miner_env_def demo_env_def)

lemma demo_balance: "accBalance (view mem_badger demo_sm 2) = 0"
  by (simp add: demo_view zeroAccount_def)

theorem miner_diverges_witness:
  "view mem_badger (svState (fst (handleBlock miner_env 6 [] demo_server demo_peer [1])))
     \<noteq> view mem_badger (svState (fst (snd miner_tick)))"
proof -
  have "view (neBadger miner_env) (svState (fst (handleBlock miner_env 6 [] demo_server demo_peer [1])))
      \<noteq> view (neBadger miner_env) (svState (fst (snd miner_tick)))"
    by (rule miner_diverges [where s = demo_server and p = demo_server and F = miner_env and E = miner_env
        and dag = empty_store and mp = NewMempool and buf = "[1]" and now' = 6 and pk' = "[]" and q = demo_peer,
        OF demo_miner_full refl _ refl _ _ _ _ miner_tick_eq [unfolded miner_tick_def] _ _ _ _ _ _ refl _ _ surjective_pairing,
        THEN conjunct2, THEN conjunct2, THEN conjunct2, THEN conjunct2, folded miner_tick_def])
      (simp_all add: demo_server_parts miner_env_simps demo_wf length_crypto_ok demo_block_facts empty_has demo_stakes
        demo_codec_def MaxBlockSize_def signedAt_def NewSlasher_def demo_balance)
  then show ?thesis by (simp add: miner_env_simps)
qed


lemma array32_neq: "length xs = 32 \<Longrightarrow> length ys = 32 \<Longrightarrow> hd xs \<noteq> hd ys \<Longrightarrow> array32 xs \<noteq> array32 ys"
  by (metis be_bytes_array32)

lemma demo_genesisID: "length seed = 32 \<Longrightarrow> genesisID demo_crypto seed = array32 seed"
  by (simp add: genesisID_def demo_crypto_def be_bytes_array32 del: be_bytes.simps)

lemma community_bytes:
  "snd (DecodeString (defaultCommunity ! 0))" "length (fst (DecodeString (defaultCommunity ! 0))) = 32"
  "hd (fst (DecodeString (defaultCommunity ! 0))) = 0x80"
  "snd (DecodeString (defaultCommunity ! 1))" "length (fst (DecodeString (defaultCommunity ! 1))) = 32"
  "hd (fst (DecodeString (defaultCommunity ! 1))) = 0x08"
  by code_simp+

theorem default_miner_unstaked_witness:
  "fst (ValidateBlock demo_crypto mem_badger
     (bigBang demo_crypto mem_badger demo_entropy (loadConfig None (\<lambda>_. [])) (NewStateManager (Some Map.empty)))
     (NewVertex demo_crypto 5 [0] (ed_public demo_crypto (ed_key_from_seed demo_crypto devSeed))
        (ed_key_from_seed demo_crypto devSeed) [] 0)) = Some (ErrInsufficientStake 0)"
proof -
  let ?cfg = "loadConfig None (\<lambda>_. [])"
  have cfg: "cfgGenesisSeed1 ?cfg = ''dev-only-insecure-seed-do-not-use-in-production''"
    "cfgGenesisSeed2 ?cfg = []" "cfgGenesisSeed3 ?cfg = []" "cfgCommunityValidators ?cfg = []"
    by (simp_all add: loadConfig_def override_def readUDPPort_def defaultConfig_def Let_def)
  let ?s1 = "deriveGenesisSeed 1 (cfgGenesisSeed1 ?cfg)"
  have s1: "length ?s1 = 32" "hd ?s1 = 0x64" unfolding cfg by code_simp+
  have d: "hd devSeed = 0x73" by (simp add: devSeed_def string_bytes_def)
  have c: "communityID ?cfg i = array32 (fst (DecodeString (defaultCommunity ! i)))" if "i = 0 \<or> i = 1" for i
    using that community_bytes by (auto simp: communityID_def cfg defaultCommunity_def split: prod.split)
  have r: "hd (be_bytes 32 (n :: addr)) = 0" if "n = 2 \<or> n = 3" for n using that by (elim disjE) (simp_all only:, code_simp+)
  have "array32 devSeed \<noteq> array32 ?s1" by (rule array32_neq) (simp_all add: s1 d length_devSeed)
  moreover have "array32 devSeed \<noteq> array32 (be_bytes 32 n)" if "n = 2 \<or> n = 3" for n :: addr
    by (rule array32_neq) (simp_all add: r [OF that] d length_devSeed del: be_bytes.simps)
  moreover have "array32 devSeed \<noteq> communityID ?cfg i" if "i = 0 \<or> i = 1" for i
    unfolding c [OF that] by (rule array32_neq) (use that community_bytes in \<open>auto simp: d length_devSeed\<close>)
  ultimately have fresh: "ed_public demo_crypto (ed_key_from_seed demo_crypto devSeed)
      \<notin> set (fst (genesisIDs demo_crypto demo_entropy ?cfg) @ snd (genesisIDs demo_crypto demo_entropy ?cfg))"
    using demo_genesisID [OF length_devSeed] demo_genesisID [OF s1(1)] demo_genesisID [of "be_bytes 32 (_ :: addr)"]
    by (simp add: genesisIDs_def demo_entropy_def cfg(2,3) deriveGenesisSeed_def [of _ "[]"]
      del: be_bytes.simps flip: genesisID_def)
  have wf: "sm_wf mem_badger (NewStateManager (Some Map.empty))"
    using synced_new [OF mem_badger_reliable] by (simp add: synced_def)
  show ?thesis
    by (rule default_miner_unstaked [OF demo_start wf demo_crypto_ok _ surjective_pairing fresh])
      (simp add: minerSeed_def)
qed

end
