(* ===== verification/Node_System.thy ===== *)
theory Node_System
  imports Peer_Session Explorer_Api Node_Miner
begin

text \<open>
  The running node as \<open>main.go\<close> wires it: the peer-to-peer server, the miner, the HTTP API, the UDP ingest
  (through what it adds to the mempool) and the grant callback share one account state and one mempool.
  A run is a sequence of events, each handled by the model of the component it belongs to.
\<close>

record 'd Node =
  ndServer :: "'d Server"
  ndWallet :: Manager
  ndGranted :: "string fset"

datatype node_event =
    EvConn conn_event
  | EvMine "Transaction list \<Rightarrow> bytes option" time "addr list" "string list" bytes
  | EvApi "string set" "Mempool \<Rightarrow> addr list" ApiCall
  | EvPool "Mempool \<Rightarrow> addr list" mp_op

text \<open>\<open>OnPeerConnected\<close> is called for a peer whose handshake succeeded.\<close>

definition connected :: "('d, 'b) badger \<Rightarrow> bool \<Rightarrow> Peer option \<Rightarrow> 'd Node \<Rightarrow> 'd Node" where
  "connected K isGenesis1 p nd =
     (case p of
        None \<Rightarrow> nd
      | Some p \<Rightarrow>
          let g = OnPeerConnected K isGenesis1 \<lparr>grState = svState (ndServer nd), grGranted = ndGranted nd\<rparr> (peerNodeID p)
          in nd\<lparr>ndServer := (ndServer nd)\<lparr>svState := grState g\<rparr>, ndGranted := grGranted g\<rparr>)"

fun node_step :: "('d, 'b) node_env \<Rightarrow> vault \<Rightarrow> bool \<Rightarrow> 'd Node \<Rightarrow> node_event \<Rightarrow> 'd Node" where
  "node_step E V g1 nd (EvConn (CnHandshake t1 t2 remote outbound reply)) =
     (let (p, s, _) = handleConn E t1 t2 (ndServer nd) remote outbound reply
      in connected (neBadger E) g1 p (nd\<lparr>ndServer := s\<rparr>))"
| "node_step E V g1 nd (EvConn e) = nd\<lparr>ndServer := conn_step E (ndServer nd) e\<rparr>"
| "node_step E V g1 nd (EvMine enc now ks pk seed) =
     nd\<lparr>ndServer := fst (snd (mineTick E enc now ks pk seed (ndServer nd)))\<rparr>"
| "node_step E V g1 nd (EvApi al ord call) =
     (let s = ndServer nd;
          api = api_step (neBadger E) (neCrypto E) V al ord \<lparr>apWallet = ndWallet nd, apState = svState s, apPool = svMempool s\<rparr> call
      in nd\<lparr>ndServer := s\<lparr>svState := apState api, svMempool := apPool api\<rparr>, ndWallet := apWallet api\<rparr>)"
| "node_step E V g1 nd (EvPool ord op) =
     (let s = ndServer nd in
      case svMempool s of
        None \<Rightarrow> nd
      | Some mp \<Rightarrow>
          let (mp, st) = mp_step (neBadger E) ord (mp, Some (svState s)) op
          in nd\<lparr>ndServer := s\<lparr>svMempool := Some mp, svState := (case st of Some sm \<Rightarrow> sm | None \<Rightarrow> svState s)\<rparr>\<rparr>)"

section \<open>Start-up\<close>

text \<open>\<open>startNode\<close>: the part of \<open>main\<close> that builds the node over the opened database \<open>db\<close>; \<open>names\<close> and \<open>files\<close>
  are the wallet directory. The Boolean is the test \<open>bytes.Equal(identitySeed, genSeed1)\<close> of the grant
  callback. \<open>startExplorerAPI\<close> installs the vertex callback.\<close>

definition startNode :: "('d, 'b) node_env \<Rightarrow> string list \<Rightarrow> (string, WalletFile) fmap \<Rightarrow> entropy \<Rightarrow> Config \<Rightarrow> i64 \<Rightarrow> string
    \<Rightarrow> 'd option \<Rightarrow> bool \<times> 'd Node" where
  "startNode E names files rnd cfg maxPeers minerKey db =
     (let K = neBadger E; C = neCrypto E;
          dag = NewVertexStore K (neGob E) db;
          state = bigBang C K rnd cfg (NewStateManager db);
          genSeed1 = deriveGenesisSeed (rnd1 rnd) (cfgGenesisSeed1 cfg);
          idSeed = identitySeed minerKey genSeed1;
          server = NewServer (sint maxPeers) (nodeIDOf C idSeed) (Some (dag\<lparr>vsOnNewVertex := True\<rparr>)) state True True (Some NewMempool)
      in (idSeed = genSeed1,
          \<lparr>ndServer = server, ndWallet = NewManager names ''./wallets'' files, ndGranted = {||}\<rparr>))"

text \<open>\<open>fmt.Sprintf("./data/nova-%s", strings.ReplaceAll(p2pPort, ":", ""))\<close>; the configured data directory is not
  used.\<close>

definition dbPath :: "string \<Rightarrow> string" where
  "dbPath p2pPort = ''./data/nova-'' @ filter (\<lambda>c. c \<noteq> CHR '':'') p2pPort"

text \<open>The addresses that \<open>main\<close> dials for the flag \<open>-peers\<close>.\<close>

definition peerList :: "string \<Rightarrow> string list" where
  "peerList peers = (if peers = [] then [] else map TrimSpace (Split peers '',''))"

section \<open>What can happen to an account\<close>

text \<open>Everything that only executed transactions change stays; balances only grow (by rewards), stakes only
  shrink (by slashing).\<close>

definition unspent :: "(addr \<Rightarrow> Account) \<Rightarrow> (addr \<Rightarrow> Account) \<Rightarrow> bool" where
  "unspent A A' \<longleftrightarrow> (\<forall>a. accNonce (A' a) = accNonce (A a) \<and> accDelegations (A' a) = accDelegations (A a)
     \<and> accUnbondingBalance (A' a) = accUnbondingBalance (A a) \<and> accUnbondingRelease (A' a) = accUnbondingRelease (A a)
     \<and> accBalance (A a) \<le> accBalance (A' a) \<and> accStake (A' a) \<le> accStake (A a))"

lemma unspent_refl [simp]: "unspent A A"
  by (simp add: unspent_def)

lemma unspent_trans: "unspent A B \<Longrightarrow> unspent B C \<Longrightarrow> unspent A C"
  unfolding unspent_def by (metis order_trans)

abbreviation keeps :: "('d, 'b) badger \<Rightarrow> 'd StateManager \<Rightarrow> 'd StateManager \<Rightarrow> bool" where
  "keeps K sm sm' \<equiv> sm_wf K sm' \<and> unspent (view K sm) (view K sm') \<and> (synced K sm \<longrightarrow> synced K sm')"

lemma synced_setters:
  "synced K sm \<Longrightarrow> synced K (SetBalance K sm a x)" "synced K sm \<Longrightarrow> synced K (SetStake K sm a x)"
  "synced K sm \<Longrightarrow> synced K (AddGrantStake K sm a x)"
  using synced_step [of K sm "OpSetBalance a x"] synced_step [of K sm "OpSetStake a x"] synced_step [of K sm "OpAddGrantStake a x"]
  by simp_all

lemmas synced_ops [simp] = synced_setters synced_touch

lemma synced_persist:
  assumes "synced K sm" "db' = persistVertex K G ord (storeDB sm) vs v"
  shows "synced K (sm\<lparr>storeDB := db'\<rparr>)"
proof -
  obtain d where d: "storeDB sm = Some d" "reliable_db K d" using assms(1) by (auto simp: synced_def)
  then obtain d' where d': "db' = Some d'" using assms(2) by (auto simp: persistVertex_def split: option.splits prod.splits)
  have load: "loadAccountFromDB K (sm\<lparr>storeDB := db'\<rparr>) = loadAccountFromDB K sm"
    using assms(2) [symmetric] d d' persist_get [of K G ord d vs v d']
    by (simp add: loadAccountFromDB_def reliable_db_def fun_eq_iff)
  then have "reliable_db K d'" using d d' load_new [of K sm] load_new [of K "sm\<lparr>storeDB := db'\<rparr>"] by (simp add: reliable_db_def)
  moreover have "sm_wf K (sm\<lparr>storeDB := db'\<rparr>)" using persist_view(2) [OF _ assms(2)] assms(1) by (simp add: synced_def)
  ultimately show ?thesis using assms(1) d' load by (simp add: synced_def)
qed

lemma Add_state:
  "snd (snd (Mempool_Add K ks t1 t2 mp (Some sm) tx)) \<in> {Some sm, Some (touch K sm (txFrom tx))}"
  by (auto simp: Mempool_Add_def admit_def get_eq Let_def split: prod.split)

lemma keeps_Add:
  assumes "sm_wf K sm" "Mempool_Add K ks t1 t2 mp (Some sm) tx = (ok, mp', st)"
  shows "\<exists>sm'. st = Some sm' \<and> keeps K sm sm'"
  using Add_state [of K ks t1 t2 mp sm tx] assms by auto

lemma keeps_trans: "keeps K sm sm1 \<Longrightarrow> keeps K sm1 sm2 \<Longrightarrow> keeps K sm sm2"
  using unspent_trans by blast

lemma keeps_slash: "sm_wf K sm \<Longrightarrow> keeps K sm (fst (slashAuthor K sm sl v))"
  by (auto simp: slashAuthor_def get_eq unspent_def Let_def not_less split: sum.splits prod.splits)

lemma keeps_reward:
  assumes "sm_wf K sm"
  shows "keeps K sm (ApplyBlockReward K sm a fees ts)"
proof -
  have "x \<le> x + y" if "unat x + unat y < 2 ^ 64" for x y :: u64
    using that by (simp add: word_le_nat_alt unat_add_fits)
  then show ?thesis using assms by (auto simp: ApplyBlockReward_eq unspent_def Let_def)
qed

lemma keeps_add_vertex:
  assumes "sm_wf K sm" "AddVertex K G ord (storeDB sm, dag) v = ((db, dag'), out)"
  shows "keeps K sm (sm\<lparr>storeDB := db\<rparr>)"
proof (cases "db = storeDB sm")
  case False
  then have db: "db = persistVertex K G ord (storeDB sm) (insertVertex dag v) v"
    using assms(2) by (auto simp: AddVertex_def Let_def split: if_splits)
  then show ?thesis using persist_view [OF assms(1) db] synced_persist [OF _ db] by simp
qed (use assms(1) in simp)

lemma keeps_check:
  assumes "sm_wf (neBadger E) (svState s)"
  shows "keeps (neBadger E) (svState s) (svState (snd (checkBlock E s v)))"
proof -
  obtain err sm where V: "ValidateBlock (neCrypto E) (neBadger E) (svState s) v = (err, sm)" by fastforce
  then have k: "keeps (neBadger E) (svState s) sm" using assms
    by (auto simp: ValidateBlock_def get_eq Let_def split: option.splits sum.splits if_splits)
  then have "keeps (neBadger E) (svState s) (fst (slashAuthor (neBadger E) sm sl v))" for sl
    using keeps_trans [OF k keeps_slash] by blast
  then have "keeps (neBadger E) (svState s) sm'" if "slashAuthor (neBadger E) sm sl v = (sm', sl')" for sl sm' sl'
    using that by (metis fst_conv)
  with k show ?thesis using assms V
    by (auto simp: checkBlock_def Let_def split: prod.splits option.splits)
qed

lemma keeps_accept:
  assumes "sm_wf (neBadger E) (svState s)"
  shows "keeps (neBadger E) (svState s) (svState (fst (acceptBlock E now pk s p v)))"
proof (cases "svDAG s")
  case (Some dag)
  obtain db dag' out where a: "AddVertex (neBadger E) (neGob E) (neOrd E) (storeDB (svState s), dag) v = ((db, dag'), out)"
    by (metis prod.collapse)
  note k = keeps_add_vertex [OF assms a]
  have "keeps (neBadger E) (svState s) (ApplyBlockReward (neBadger E) ((svState s)\<lparr>storeDB := db\<rparr>) (vAuthor v) fees ts)" for fees ts
    using keeps_trans [OF k keeps_reward] k by blast
  then show ?thesis using Some a k by (simp add: acceptBlock_def setRep_def Let_def)
qed (use assms in \<open>simp add: acceptBlock_def setRep_def\<close>)

lemma keeps_handleBlock:
  assumes "sm_wf (neBadger E) (svState s)"
  shows "keeps (neBadger E) (svState s) (svState (fst (handleBlock E now pk s p b)))"
proof -
  have c: "keeps (neBadger E) (svState s) (svState s1)" if "checkBlock E s v = (ok, s1)" for v ok s1
    using keeps_check [OF assms, of v] that by simp
  then have "keeps (neBadger E) (svState s) (svState (fst (acceptBlock E now pk s1 p v)))" if "checkBlock E s v = (True, s1)" for v s1
    using keeps_trans [OF c [OF that] keeps_accept] that by blast
  with c show ?thesis using assms
    by (auto simp: handleBlock_def setRep_def split: prod.split option.split sum.split bool.split)
qed

lemma keeps_handleBlocks:
  "sm_wf (neBadger E) (svState s) \<Longrightarrow> keeps (neBadger E) (svState s) (svState (fst (handleBlocks E now pk s p bs)))"
proof (induction bs arbitrary: s)
  case (Cons b bs)
  obtain s1 out where h: "handleBlock E now pk s p b = (s1, out)" by fastforce
  then have 1: "keeps (neBadger E) (svState s) (svState s1)" using keeps_handleBlock [OF Cons.prems, of now pk p b] by simp
  then show ?case using keeps_trans [OF 1 Cons.IH] h by (cases "handleBlocks E now pk s1 p bs") (auto simp: Let_def)
qed simp

lemma keeps_handleMessage:
  assumes "sm_wf (neBadger E) (svState s)"
  shows "keeps (neBadger E) (svState s) (svState (fst (handleMessage E it now s p msg)))"
proof -
  have tx: "keeps (neBadger E) (svState s) (svState (handleTx E ks t1 t2 now s p b))" for ks t1 t2 b
  proof -
    have "keeps (neBadger E) (svState s) sm'"
      if "Mempool_Add (neBadger E) ks t1 t2 mp (Some (svState s)) t = (ok, mp', Some sm')" for mp t ok mp' sm'
      using keeps_Add [OF assms that] by simp
    then show ?thesis using assms
      by (auto simp: handleTx_def setRep_def Let_def split: prod.splits option.splits sum.splits)
  qed
  have addr: "svState (snd (handleAddr X s b)) = svState s" for X b
    by (simp add: handleAddr_def split: option.split prod.split)
  have dag: "keeps (neBadger E) (svState s) (svState (fst (handleDAG E now pk s p b)))" for pk b
    using keeps_handleBlocks [OF assms] assms by (simp add: handleDAG_def split: option.split)
  have "fst (handleMessage E it now s p msg) \<in> {setRep s (\<lambda>r. RecordProtocolError now r (peerNodeID p)),
      handleTx E (itPool it) (itExpiry it) (itAdded it) now s p (msgPayload msg), fst (handleBlock E now (itPeers it) s p (msgPayload msg)), s,
      snd (handleAddr (neCodec E) s (msgPayload msg)), fst (handleDAG E now (itPeers it) s p (msgPayload msg))}"
    by (simp add: handleMessage_def Let_def split: prod.split)
  then show ?thesis using tx addr dag keeps_handleBlock [OF assms] assms by (auto simp: setRep_def)
qed

lemma keeps_conn_step:
  assumes "sm_wf (neBadger E) (svState s)"
  shows "keeps (neBadger E) (svState s) (svState (conn_step E s e))"
proof -
  have "svState (fst (snd (handleConn E t1 t2 s remote outbound reply))) = svState s" for t1 t2 remote outbound reply
    by (auto simp: handleConn_def AddPeer_def setRep_def Let_def split: option.split)
  then show ?thesis using assms keeps_handleMessage [OF assms]
    by (cases e) (auto simp: acceptConn_def disconnect_def RemovePeer_def setRep_def Let_def split: option.split)
qed

lemma keeps_mine:
  assumes "sm_wf (neBadger E) (svState s)"
  shows "keeps (neBadger E) (svState s) (svState (fst (snd (mineTick E enc now ks pk seed s))))"
  using assms keeps_add_vertex [OF assms]
  by (auto simp: mineTick_def Let_def split: option.split prod.split) 

lemma keeps_pool:
  assumes "sm_wf K sm" "mp_step K ord (mp, Some sm) op = (mp', st)"
  shows "\<exists>sm'. st = Some sm' \<and> keeps K sm sm'"
  using assms keeps_Add [OF assms(1)] by (cases op) (auto split: prod.splits, metis prod.collapse)

text \<open>No request changes an account, whatever is in the pool.\<close>

lemma keeps_api:
  assumes "sm_wf K (apState s)"
  shows "keeps K (apState s) (apState (api_step K C V al ord s call))"
proof -
  have add: "keeps K (apState s') (apState s'')" if "poolAdd K ks t1 t2 mp tx s' = (ok, s'')" "sm_wf K (apState s')" for ks t1 t2 mp tx s' ok s''
    using that keeps_Add [of K "apState s'" ks t1 t2 mp tx] by (auto simp: poolAdd_def split: prod.splits)
  have send: "keeps K (apState s') (apState (snd (sendUnlocked K C ks t1 t2 req s')))" if "sm_wf K (apState s')" for ks t1 t2 req s'
    using that by (auto simp: sendUnlocked_def get_eq Let_def split: sum.split option.splits prod.splits dest: add)
  have "keeps K (apState s) (apState (snd (sendUnlocked K C ks t1 t2 req (s\<lparr>apWallet := m\<rparr>))))" for ks t1 t2 req m
    using send [of "s\<lparr>apWallet := m\<rparr>"] assms by simp
  then show ?thesis
    using assms send
    by (cases call)
      (auto simp: cors_state postBody_def apiTx_def walletCreate_def walletImport_def walletInfo_def walletUnlock_def walletLock_def
        walletSend_def walletSign_def walletExport_def walletDelete_def get_eq Let_def
        split: if_splits option.splits sum.splits prod.splits dest: add)
qed

lemma keeps_connected:
  assumes "sm_wf K (svState (ndServer nd))"
  shows "keeps K (svState (ndServer nd)) (svState (ndServer (connected K g1 p nd)))"
  using assms
  by (auto simp: connected_def OnPeerConnected_def grantCheck_def grantApply_def get_eq unspent_def Let_def split: option.split prod.split)

lemma keeps_node_step:
  assumes wf: "sm_wf (neBadger E) (svState (ndServer nd))"
  shows "keeps (neBadger E) (svState (ndServer nd)) (svState (ndServer (node_step E V g1 nd e)))"
proof (cases e)
  case (EvConn ce)
  show ?thesis
  proof (cases ce)
    case (CnHandshake t1 t2 remote outbound reply)
    obtain p s out where h: "handleConn E t1 t2 (ndServer nd) remote outbound reply = (p, s, out)" by (metis prod.collapse)
    have k: "keeps (neBadger E) (svState (ndServer nd)) (svState s)"
      using keeps_conn_step [OF wf, of "CnHandshake t1 t2 remote outbound reply"] h by simp
    then have "keeps (neBadger E) (svState s) (svState (ndServer (connected (neBadger E) g1 p (nd\<lparr>ndServer := s\<rparr>))))"
      using keeps_connected [of "neBadger E" "nd\<lparr>ndServer := s\<rparr>" g1 p] by simp
    with k show ?thesis using EvConn CnHandshake h keeps_trans by simp blast
  qed (use EvConn keeps_conn_step [OF wf, of ce] in simp_all)
next
  case (EvMine enc now ks pk seed)
  then show ?thesis using keeps_mine [OF wf, of enc now ks pk seed] by simp
next
  case (EvApi al ord call)
  then show ?thesis
    using keeps_api [of "neBadger E" "\<lparr>apWallet = ndWallet nd, apState = svState (ndServer nd), apPool = svMempool (ndServer nd)\<rparr>" "neCrypto E" V al ord call] wf
    by (simp add: Let_def)
next
  case (EvPool ord op)
  show ?thesis
  proof (cases "svMempool (ndServer nd)")
    case (Some mp)
    obtain mp' st where m: "mp_step (neBadger E) ord (mp, Some (svState (ndServer nd))) op = (mp', st)" by fastforce
    then show ?thesis using keeps_pool [OF wf m] EvPool Some by (auto simp: Let_def)
  qed (use EvPool wf in simp)
qed

interpretation node: monotone_system "node_step E V g1" "\<lambda>nd. sm_wf (neBadger E) (svState (ndServer nd))"
    "\<lambda>x y. unspent (view (neBadger E) (svState (ndServer x))) (view (neBadger E) (svState (ndServer y)))
       \<and> (synced (neBadger E) (svState (ndServer x)) \<longrightarrow> synced (neBadger E) (svState (ndServer y)))"
  for E :: "('d, 'b) node_env" and V g1
  by unfold_locales (use keeps_node_step unspent_trans in \<open>blast intro: unspent_refl\<close>)+

lemma node_run:
  assumes "sm_wf (neBadger E) (svState (ndServer nd))"
  shows "keeps (neBadger E) (svState (ndServer nd)) (svState (ndServer (foldl (node_step E V g1) nd evs)))"
  using node.inv_run [OF assms] node.below_run [OF assms] by blast

section \<open>Where the pending transactions of a node come from\<close>

lemma wallet_no_pool: "apWallet (api_step K C V al ord s call) = apWallet (api_step K C V al ord' (s\<lparr>apPool := None\<rparr>) call)"
  by (cases call)
    (auto simp: cors_state postBody_def apiTx_def poolAdd_def walletCreate_def walletImport_def walletInfo_def walletUnlock_def
      walletLock_def walletSend_def walletSign_def walletExport_def walletDelete_def sendUnlocked_wallet Let_def
      split: option.splits sum.splits prod.splits)

lemma api_wallets:
  assumes "mg_inv C V (apWallet s)" "sm_wf K (apState s)" "ed25519_ok C" "vault_ok V"
  shows "mg_inv C V (apWallet (api_step K C V al ord s call))"
proof -
  have "api_inv K C V (s\<lparr>apPool := None\<rparr>)" using assms(1,2) by (simp add: api_inv_def)
  from api_step_safe [OF this key_order_orders assms(3,4), of al call] show ?thesis
    by (simp add: api_inv_def wallet_no_pool [of K C V al ord s call key_order])
qed

lemma poolAdd_txs: "poolAdd K ks t1 t2 mp tx s = (ok, s') \<Longrightarrow> pool_txs (apPool s') \<subseteq> insert tx (pool_txs (Some mp))"
  using Add_txs [of K ks t1 t2 mp "Some (apState s)" tx] by (auto simp: poolAdd_def split: prod.splits)

lemma sendUnlocked_txs:
  assumes "mg_inv C V (apWallet s)" "ed25519_ok C"
  shows "pool_txs (apPool (snd (sendUnlocked K C ks t1 t2 req s))) \<subseteq> pool_txs (apPool s) \<union> Collect (signed_by_sender C)"
  using sendUnlocked_cases [of C s req K ks t1 t2]
proof (elim disjE exE conjE)
  fix tx
  assume tx: "CreateTransaction C (apWallet s) (sqFrom req) (sqTo req) (sqAmount req) (sqFee req)
      (accNonce (view K (apState s) (array32 (fst (DecodeString (sqFrom req))))) + 1) TxTransfer = Inr tx"
  have "signed_by_sender C tx"
    using CreateTransaction_unlocked [OF assms tx] by (simp add: signed_by_sender_def)
  moreover note poolAdd_txs
  moreover assume "case apPool s of None \<Rightarrow> sendUnlocked K C ks t1 t2 req s = (ApiOk (EncodeToString (take 32 (txSig tx)),
        accNonce (view K (apState s) (array32 (fst (DecodeString (sqFrom req))))) + 1), s\<lparr>apState := touch K (apState s) (array32 (fst (DecodeString (sqFrom req))))\<rparr>)
     | Some mp \<Rightarrow> \<exists>ok s'. poolAdd K ks t1 t2 mp tx (s\<lparr>apState := touch K (apState s) (array32 (fst (DecodeString (sqFrom req))))\<rparr>) = (ok, s')
         \<and> sendUnlocked K C ks t1 t2 req s = (if ok then ApiOk (EncodeToString (take 32 (txSig tx)), accNonce (view K (apState s) (array32 (fst (DecodeString (sqFrom req))))) + 1)
              else ApiErr 503 (Text ''transaction rejected by mempool''), s')"
  ultimately show ?thesis by (cases "apPool s") fastforce+
qed simp

lemma api_step_txs:
  assumes "mg_inv C V (apWallet s)" "ed25519_ok C" "vault_ok V"
  shows "pool_txs (apPool (api_step K C V al ord s call)) \<subseteq> pool_txs (apPool s) \<union> Collect (signed_by_sender C)"
proof -
  have send: "pool_txs (apPool (snd (sendUnlocked K C ks t1 t2 req (s\<lparr>apWallet := m\<rparr>)))) \<subseteq> pool_txs (apPool s) \<union> Collect (signed_by_sender C)"
    if "Unlock V (apWallet s) a pw = (r, m)" for ks t1 t2 req a pw r m
    using sendUnlocked_txs [of C V "s\<lparr>apWallet := m\<rparr>" K ks t1 t2 req] Unlock_inv [OF assms(1,3), of a pw] that assms(2) by simp
  show ?thesis
  proof (cases call)
    case (CallTx t1 t2 rq)
    then show ?thesis
      by (auto simp: apiTx_def postBody_def verify_iff Let_def split: option.splits prod.splits dest!: poolAdd_txs)
  next
    case (CallSend t1 t2 rq)
    then show ?thesis
      by (simp add: cors_state walletSend_def postBody_def sendUnlocked_txs [OF assms(1,2)] send split: option.split prod.split)
  qed (auto simp: cors_state postBody_def walletCreate_def walletImport_def walletInfo_def walletUnlock_def walletLock_def
      walletSign_def walletExport_def walletDelete_def Let_def split: option.splits sum.splits prod.splits)
qed

text \<open>Blocks do not touch the pool; a message offers the transaction that it decodes to.\<close>

lemma pool_setRep [simp]: "svMempool (setRep s f) = svMempool s"
  by (simp add: setRep_def)

lemma pool_handleBlock: "svMempool (fst (handleBlock E now pk s p b)) = svMempool s"
proof -
  have c: "svMempool (snd (checkBlock E s v)) = svMempool s" for v
    by (auto simp: checkBlock_def Let_def split: prod.splits option.splits if_splits)
  have "svMempool (fst (acceptBlock E now pk s1 p v)) = svMempool s1" for s1 v
    by (auto simp: acceptBlock_def Let_def split: prod.splits option.splits)
  then show ?thesis using c
    by (auto simp: handleBlock_def split: prod.split option.split sum.split bool.split) (metis snd_conv)+
qed

lemma pool_handleBlocks: "svMempool (fst (handleBlocks E now pk s p bs)) = svMempool s"
  by (induction bs arbitrary: s) (auto simp: pool_handleBlock Let_def split: prod.splits, metis pool_handleBlock fst_conv)

definition msg_offered :: "('d, 'b) node_env \<Rightarrow> Message \<Rightarrow> Transaction set" where
  "msg_offered E msg =
     {tx. msgType msg = MsgTx \<and> SafeDecodeTransaction (decTx (neCodec E)) (bufSize (neCodec E)) (msgPayload msg) = Inr tx}"

fun node_offered :: "('d, 'b) node_env \<Rightarrow> node_event \<Rightarrow> Transaction set" where
  "node_offered E (EvConn (CnMessage it now p msg)) = msg_offered E msg"
| "node_offered E (EvPool ord op) = mp_offered op"
| "node_offered E (EvApi al ord call) = Collect (signed_by_sender (neCrypto E))"
| "node_offered E _ = {}"

lemma node_offeredD:
  assumes "tx \<in> node_offered E e"
  shows "signed_by_sender (neCrypto E) tx \<or> (\<exists>ord t1 t2. e = EvPool ord (MpAdd t1 t2 tx))
    \<or> (\<exists>it now p msg. e = EvConn (CnMessage it now p msg) \<and> tx \<in> msg_offered E msg)"
proof (cases e)
  case (EvConn ce)
  then show ?thesis using assms by (cases ce) auto
next
  case (EvPool ord op)
  then show ?thesis using assms by (cases op) auto
qed (use assms in auto)

lemma handleMessage_txs:
  "pool_txs (svMempool (fst (handleMessage E it now s p msg))) \<subseteq> pool_txs (svMempool s) \<union> msg_offered E msg"
proof (cases "msgType msg = MsgTx")
  case True
  have "pool_txs (svMempool (handleTx E ks t1 t2 now s p (msgPayload msg))) \<subseteq> pool_txs (svMempool s) \<union> msg_offered E msg"
    for ks t1 t2
    using Add_txs [of "neBadger E" ks t1 t2 _ "Some (svState s)"] True
    by (auto simp: handleTx_def msg_offered_def Let_def split: option.splits sum.splits prod.splits if_splits)
  then show ?thesis using True by (simp add: handleMessage_def)
next
  case False
  have "svMempool (snd (handleAddr X s b)) = svMempool s" for X b
    by (auto simp: handleAddr_def split: option.split prod.split)
  moreover have "svMempool (fst (handleDAG E now pk s p b)) = svMempool s" for pk b
    by (simp add: handleDAG_def pool_handleBlocks split: option.split)
  ultimately have "svMempool (fst (handleMessage E it now s p msg)) = svMempool s"
    using False pool_handleBlock [of E now _ s p]
    by (auto simp: handleMessage_def Let_def split: prod.splits) (metis fst_conv snd_conv)+
  then show ?thesis by simp
qed

definition node_sound :: "('d, 'b) node_env \<Rightarrow> vault \<Rightarrow> 'd Node \<Rightarrow> bool" where
  "node_sound E V nd \<longleftrightarrow> ed25519_ok (neCrypto E) \<and> vault_ok V \<and> sm_wf (neBadger E) (svState (ndServer nd))
     \<and> mg_inv (neCrypto E) V (ndWallet nd)"

lemma node_sound_step: "node_sound E V nd \<Longrightarrow> node_sound E V (node_step E V g1 nd e)"
proof -
  assume n: "node_sound E V nd"
  have "mg_inv (neCrypto E) V (ndWallet (node_step E V g1 nd e))"
  proof (cases "(E, V, g1, nd, e)" rule: node_step.cases)
    case (1 E V g1 nd t1 t2 remote outbound reply)
    then show ?thesis using n by (auto simp: node_sound_def connected_def Let_def split: prod.split option.split)
  next
    case (4 E V g1 nd al ord call)
    then show ?thesis using n
      api_wallets [of "neCrypto E" V "\<lparr>apWallet = ndWallet nd, apState = svState (ndServer nd), apPool = svMempool (ndServer nd)\<rparr>" "neBadger E" al ord call]
      by (simp add: node_sound_def Let_def)
  qed (use n in \<open>auto simp: node_sound_def Let_def split: option.split prod.split\<close>)
  then show ?thesis using n keeps_node_step [of E nd V g1 e] by (simp add: node_sound_def)
qed

lemma connected_pool: "svMempool (ndServer (connected K g1 p nd)) = svMempool (ndServer nd)"
  by (simp add: connected_def Let_def split: option.split)

lemma node_step_txs:
  assumes "node_sound E V nd"
  shows "pool_txs (svMempool (ndServer (node_step E V g1 nd e))) \<subseteq> pool_txs (svMempool (ndServer nd)) \<union> node_offered E e"
proof (cases e)
  case (EvConn ce)
  have h: "svMempool (fst (snd (handleConn E t1 t2 s remote outbound reply))) = svMempool s" for t1 t2 s remote outbound reply
    by (auto simp: handleConn_def AddPeer_def Let_def split: option.split)
  show ?thesis
  proof (cases ce)
    case (CnHandshake t1 t2 remote outbound reply)
    with EvConn h [of t1 t2 "ndServer nd" remote outbound reply] show ?thesis
      by (auto simp: connected_pool split: prod.splits)
  next
    case (CnMessage it now p msg)
    then show ?thesis using EvConn handleMessage_txs [of E it now "ndServer nd" p msg] by simp
  qed (use EvConn in \<open>auto simp: acceptConn_def disconnect_def RemovePeer_def Let_def split: option.split\<close>)
next
  case (EvMine enc now ks pk seed)
  have "pool_txs (svMempool (fst (snd (mineTick E enc now ks pk seed s)))) \<subseteq> pool_txs (svMempool s)" for s
    using removal_txs(2) [of ks _ 100] by (auto simp: mineTick_def Let_def split: option.splits prod.splits) (metis snd_conv subsetD)+
  then show ?thesis using EvMine by simp
next
  case (EvApi al ord call)
  let ?s = "\<lparr>apWallet = ndWallet nd, apState = svState (ndServer nd), apPool = svMempool (ndServer nd)\<rparr>"
  show ?thesis using EvApi assms api_step_txs [of "neCrypto E" V ?s "neBadger E" al ord call]
    by (simp add: node_sound_def Let_def)
next
  case (EvPool ord op)
  then show ?thesis
    using mp_step_txs [of "neBadger E" ord "(mp, Some (svState (ndServer nd)))" op for mp]
    by (cases "svMempool (ndServer nd)") (auto simp: Let_def split: prod.splits, metis UnE fst_conv subsetD)
qed

interpretation node_intake: tx_intake "node_step E V g1" "node_sound E V" "\<lambda>nd. pool_txs (svMempool (ndServer nd))" "node_offered E"
  for E :: "('d, 'b) node_env" and V g1
  by unfold_locales (rule node_sound_step node_step_txs, assumption)+

text \<open>The node that a start builds.\<close>

lemma allocates_synced: "synced K sm \<Longrightarrow> synced K (foldl (allocate K b s) sm as)"
  by (induction as arbitrary: sm) (simp_all add: allocate_def)

lemma startNode_state:
  assumes "startNode E names files rnd cfg mx key db = (g1, nd)"
  shows "svState (ndServer nd) = bigBang (neCrypto E) (neBadger E) rnd cfg (NewStateManager db)"
    "svMempool (ndServer nd) = Some NewMempool" "svPeers (ndServer nd) = fmempty" "svConnCount (ndServer nd) = fmempty"
    "svSlasher (ndServer nd) = Some (NewSlasher None)" "ndGranted nd = {||}"
    "svReputation (ndServer nd) = NewReputationManager"
    "\<exists>dag. svDAG (ndServer nd) = Some dag \<and> vsVertices dag = fmempty"
  using assms by (auto simp: startNode_def Let_def NewServer_def NewVertexStore_def LoadTips_def split: option.splits)

lemma pool_txs_new [simp]: "pool_txs (Some NewMempool) = {}"
  by (simp add: pool_txs_def NewMempool_def)

lemma sig_ok_signed: "signed_by_sender C tx = sig_ok C tx"
  by (simp add: signed_by_sender_def sig_ok_def)

lemma startNode_sound:
  assumes "startNode E [] fmempty rnd cfg mx key db = (g1, nd)" "sm_wf (neBadger E) (NewStateManager db)"
    and "ed25519_ok (neCrypto E)" "vault_ok V"
  shows "node_sound E V nd"
proof -
  obtain gens users where g: "genesisIDs (neCrypto E) rnd cfg = (gens, users)" by fastforce
  have "mg_inv (neCrypto E) V (ndWallet nd)"
    using assms(1) by (auto simp: startNode_def Let_def mg_inv_def NewManager_def loadWallets_def)
  then show ?thesis using view_bigBang(1) [OF assms(2) g] assms(3,4) by (simp add: node_sound_def startNode_state(1) [OF assms(1)])
qed

lemma startNode_synced:
  assumes "startNode E names files rnd cfg mx key (Some d) = (g1, nd)" "reliable_db (neBadger E) d"
  shows "synced (neBadger E) (svState (ndServer nd))"
  by (simp add: startNode_state(1) [OF assms(1)] bigBang_def allocates_synced synced_new [OF assms(2)] split: prod.split)

end
