(* ===== verification/Node_Races.thy ===== *)
theory Node_Races
  imports Node_System
begin

text \<open>
  Concurrent goroutines of \<open>core/p2p/server.go\<close> and \<open>main.go\<close>. Every peer has a \<open>readLoop\<close> of its own and the miner
  is one more goroutine. No lock is held across \<open>handleBlock\<close> or across a round of the miner, only inside the
  methods they call. Here both are cut into stages between which any other goroutine may run; a run of
  \<open>race_step\<close> is an arbitrary interleaving of any number of block messages and mining rounds.

  The stages run one after the other are \<open>handleBlock\<close> and \<open>mineTick\<close>, so the sequential theorems are about runs in which
  a handler is not interrupted; this theory shows which of them hold for all runs and which do not.
\<close>

datatype goroutine =
    BReceived Peer bytes
  | BFresh Peer Vertex
  | BChecked Peer Vertex
  | BDone
  | MTick bytes
  | MParents bytes "hash list"
  | MBatch bytes "hash list" "Transaction list"

text \<open>\<open>handleBlock\<close>: decoding and \<open>HasVertex\<close>; validation and slashing; \<open>AddVertex\<close> and the reward.\<close>

fun blockStage :: "('d, 'b) node_env \<Rightarrow> time \<Rightarrow> string list \<Rightarrow> 'd Server \<Rightarrow> goroutine
    \<Rightarrow> goroutine \<times> 'd Server \<times> (string \<times> Message) list" where
  "blockStage E now pk s (BReceived p payload) =
     (if ValidatePayloadSize payload MaxBlockSize \<noteq> None
      then (BDone, setRep s (\<lambda>r. RecordProtocolError now r (peerNodeID p)), [])
      else case SafeDecodeBlock (decVertex (neCodec E)) (bufSize (neCodec E)) payload of
             Inl err \<Rightarrow> (BDone, setRep s (\<lambda>r. RecordProtocolError now r (peerNodeID p)), [])
           | Inr v \<Rightarrow>
               if (case svDAG s of None \<Rightarrow> False | Some dag \<Rightarrow> HasVertex dag (vHash v)) then (BDone, s, [])
               else (BFresh p v, s, []))"
| "blockStage E now pk s (BFresh p v) =
     (case checkBlock E s v of
        (False, s) \<Rightarrow> (BDone, setRep s (\<lambda>r. RecordInvalidBlock now r (peerNodeID p)), [])
      | (True, s) \<Rightarrow> (BChecked p v, s, []))"
| "blockStage E now pk s (BChecked p v) = (let (s, out) = acceptBlock E now pk s p v in (BDone, s, out))"
| "blockStage E now pk s t = (t, s, [])"

text \<open>A round of the miner: \<open>GetTips\<close>; \<open>GetBatch\<close>; \<open>NewVertex\<close>, \<open>AddVertex\<close> and the broadcast. A failing encoder ends the
  round.\<close>

fun mineStage :: "('d, 'b) node_env \<Rightarrow> (Transaction list \<Rightarrow> bytes option) \<Rightarrow> time \<Rightarrow> addr list \<Rightarrow> string list \<Rightarrow> 'd Server
    \<Rightarrow> goroutine \<Rightarrow> goroutine \<times> 'd Server \<times> (string \<times> Message) list" where
  "mineStage E enc now ks pk s (MTick seed) =
     (case svDAG s of
        None \<Rightarrow> (MTick seed, s, [])
      | Some dag \<Rightarrow>
          let tips = GetTips (neOrd E) dag; tips = (if tips = [] then [0] else tips)
          in (MParents seed tips, s, []))"
| "mineStage E enc now ks pk s (MParents seed tips) =
     (case svMempool s of
        None \<Rightarrow> (MTick seed, s, [])
      | Some mp \<Rightarrow> let (txs, mp) = GetBatch ks mp 100 in (MBatch seed tips txs, s\<lparr>svMempool := Some mp\<rparr>, []))"
| "mineStage E enc now ks pk s (MBatch seed tips txs) =
     (case (sealBatch (neCrypto E) enc txs, svDAG s) of
        (Some (payload, merkleRoot), Some dag) \<Rightarrow>
          let C = neCrypto E;
              minerPriv = ed_key_from_seed C seed;
              v = NewVertex C now tips (ed_public C minerPriv) minerPriv payload merkleRoot;
              ((db, dag), _) = AddVertex (neBadger E) (neGob E) (neOrd E) (storeDB (svState s), dag) v
          in (MTick seed, s\<lparr>svDAG := Some dag, svState := (svState s)\<lparr>storeDB := db\<rparr>\<rparr>, BroadcastBlock (neCodec E) pk v)
      | _ \<Rightarrow> (MTick seed, s, []))"
| "mineStage E enc now ks pk s t = (t, s, [])"

inductive race_step :: "('d, 'b) node_env \<Rightarrow> (Transaction list \<Rightarrow> bytes option) \<Rightarrow> 'd Server \<times> goroutine list
    \<Rightarrow> 'd Server \<times> goroutine list \<Rightarrow> bool"
  for E enc where
  block: "i < length gs \<Longrightarrow> blockStage E now pk s (gs ! i) = (g, s', out) \<Longrightarrow> race_step E enc (s, gs) (s', gs[i := g])"
| mine: "i < length gs \<Longrightarrow> mineStage E enc now ks pk s (gs ! i) = (g, s', out) \<Longrightarrow> race_step E enc (s, gs) (s', gs[i := g])"

inductive_cases race_stepE: "race_step E enc (s, gs) (s', gs')"

section \<open>Stages and handlers\<close>

text \<open>The stages of a block message without interruption.\<close>

definition blockStages :: "('d, 'b) node_env \<Rightarrow> time \<Rightarrow> string list \<Rightarrow> 'd Server \<Rightarrow> Peer \<Rightarrow> bytes
    \<Rightarrow> goroutine \<times> 'd Server \<times> (string \<times> Message) list" where
  "blockStages E now pk s p payload =
     (let (g, s, out1) = blockStage E now pk s (BReceived p payload);
          (g, s, out2) = blockStage E now pk s g;
          (g, s, out3) = blockStage E now pk s g
      in (g, s, out1 @ out2 @ out3))"

theorem stages_handleBlock: "blockStages E now pk s p payload = (BDone, handleBlock E now pk s p payload)"
  by (auto simp: blockStages_def handleBlock_def Let_def split: sum.splits prod.splits bool.splits option.splits)

text \<open>The stages of a mining round without interruption.\<close>

definition mineStages :: "('d, 'b) node_env \<Rightarrow> (Transaction list \<Rightarrow> bytes option) \<Rightarrow> time \<Rightarrow> addr list \<Rightarrow> string list \<Rightarrow> bytes
    \<Rightarrow> 'd Server \<Rightarrow> goroutine \<times> 'd Server \<times> (string \<times> Message) list" where
  "mineStages E enc now ks pk seed s =
     (let (g, s, out1) = mineStage E enc now ks pk s (MTick seed);
          (g, s, out2) = mineStage E enc now ks pk s g;
          (g, s, out3) = mineStage E enc now ks pk s g
      in (g, s, out1 @ out2 @ out3))"

theorem stages_mineTick:
  assumes "svDAG s = Some dag" and "svMempool s = Some mp"
  shows "mineStages E enc now ks pk seed s = (MTick seed, snd (mineTick E enc now ks pk seed s))"
  using assms by (auto simp: mineStages_def mineTick_def Let_def split: option.splits prod.splits)

section \<open>What holds for every interleaving\<close>

lemma stage_keeps:
  assumes "sm_wf (neBadger E) (svState s)"
  shows "keeps (neBadger E) (svState s) (svState (fst (snd (blockStage E now pk s g))))"
    "keeps (neBadger E) (svState s) (svState (fst (snd (mineStage E enc now ks pk s g))))"
proof -
  show "keeps (neBadger E) (svState s) (svState (fst (snd (blockStage E now pk s g))))"
    using assms keeps_accept [OF assms, of now pk] keeps_check [OF assms]
    by (cases g) (auto simp: setRep_def case_prod_unfold split: bool.split sum.split)
  show "keeps (neBadger E) (svState s) (svState (fst (snd (mineStage E enc now ks pk s g))))"
    using assms keeps_add_vertex [OF assms]
    by (cases g) (auto simp: Let_def split: option.splits prod.splits)
qed

lemma has_hash_cong: "svDAG s = svDAG s' \<Longrightarrow> has_hash s h = has_hash s' h"
  by (simp add: has_hash_def)

lemma stage_dag:
  assumes "has_hash s h"
  shows "has_hash (fst (snd (blockStage E now pk s g))) h" "has_hash (fst (snd (mineStage E enc now ks pk s g))) h"
proof -
  show "has_hash (fst (snd (blockStage E now pk s g))) h"
    using assms acceptBlock_dag [OF assms, of E now pk] has_hash_cong [OF checkBlock_dag [of E s]]
    by (cases g) (auto simp: case_prod_unfold split: bool.split sum.split)
  show "has_hash (fst (snd (mineStage E enc now ks pk s g))) h"
    using assms by (cases g) (auto simp: Let_def has_hash_def AddVertex_def HasVertex_def insertVertex_def
        split: option.splits prod.splits if_splits)
qed

text \<open>What every stage keeps of the server, every run keeps.\<close>

lemma race_invariant [consumes 1, case_names init block mine]:
  assumes "(race_step E enc)\<^sup>*\<^sup>* (s, gs) (s', gs')" and "P s"
    and "\<And>s now pk g. P s \<Longrightarrow> P (fst (snd (blockStage E now pk s g)))"
    and "\<And>s now ks pk g. P s \<Longrightarrow> P (fst (snd (mineStage E enc now ks pk s g)))"
  shows "P s'"
  using assms(1)
proof (induction rule: rtranclp_induct2)
  case (step s1 gs1 s2 gs2)
  show ?case
    by (rule race_stepE [OF step.hyps(2)]) (metis assms(3,4) step.IH fst_conv snd_conv)+
qed (rule assms(2))

text \<open>No interleaving executes a transaction: nonces, delegations and unbonding funds of every account stay, no balance
  goes down and no stake goes up.\<close>

theorem race_ledger:
  assumes "(race_step E enc)\<^sup>*\<^sup>* (s, gs) (s', gs')" and "sm_wf (neBadger E) (svState s)"
  shows "unspent (view (neBadger E) (svState s)) (view (neBadger E) (svState s'))"
proof -
  have "keeps (neBadger E) (svState s) (svState s')"
    using assms(1)
  proof (induction rule: race_invariant)
    case (block s1 now pk g)
    then show ?case using keeps_trans [OF block stage_keeps(1)] by blast
  next
    case (mine s1 now ks pk g)
    then show ?case using keeps_trans [OF mine stage_keeps(2)] by blast
  qed (use assms(2) in simp)
  then show ?thesis by blast
qed

text \<open>No interleaving loses a vertex; so a block message that is received when the DAG has its vertex changes nothing.\<close>

theorem race_known:
  assumes "(race_step E enc)\<^sup>*\<^sup>* (s, gs) (s', gs')" and "has_hash s (vHash v)"
    and "decVertex (neCodec E) payload = Some v" and "length payload \<le> MaxBlockSize"
  shows "blockStage E now pk s' (BReceived p payload) = (BDone, s', [])"
proof -
  have "has_hash s' (vHash v)"
    using assms(1) by (induction rule: race_invariant) (use assms(2) in \<open>auto simp: stage_dag\<close>)
  then show ?thesis using assms(3,4)
    by (auto simp: has_hash_def ValidatePayloadSize_def SafeDecodeBlock_def SafeDecode_def deliver_take)
qed

section \<open>What interruption breaks\<close>

text \<open>Validity of a block depends on the shown accounts only, and a block reward changes no stake.\<close>

lemma rewarded_stakes [simp]:
  "accStake (rewarded A a fees ts x) = accStake (A x)" "accGrantStake (rewarded A a fees ts x) = accGrantStake (A x)"
  by (simp_all add: rewarded_def Let_def)

text \<open>The checks and the rest of \<open>handleBlock\<close> for a valid block that the slasher does not object to, whether or not the
  DAG has the vertex by now.\<close>

lemma acceptBlock_paid:
  assumes "sm_wf (neBadger E) (svState s)" "svDAG s = Some dag" "svHasExecutor s"
    and "acceptBlock E now pk s p v = (s', out)"
  shows "svDAG s' = Some (if HasVertex dag (vHash v) then dag else insertVertex dag v)"
    "view (neBadger E) (svState s') = rewarded (view (neBadger E) (svState s)) (vAuthor v)
       (blockFees (neCodec E) v) (vTimestamp v)"
    "sm_wf (neBadger E) (svState s')" "svSlasher s' = svSlasher s" "svHasExecutor s'" "svHasState s' = svHasState s"
proof -
  have "s' = (setRep s (\<lambda>r. RecordValidBlock now r (peerNodeID p)))\<lparr>svDAG := Some dag,
      svState := ApplyBlockReward (neBadger E) (svState s) (vAuthor v) (blockFees (neCodec E) v) (vTimestamp v)\<rparr>"
    if "HasVertex dag (vHash v)"
    using assms(2-4) that by (auto simp: acceptBlock_def AddVertex_def HasVertex_def setRep_def Let_def)
  then show "svDAG s' = Some (if HasVertex dag (vHash v) then dag else insertVertex dag v)"
    "view (neBadger E) (svState s') = rewarded (view (neBadger E) (svState s)) (vAuthor v)
       (blockFees (neCodec E) v) (vTimestamp v)"
    "sm_wf (neBadger E) (svState s')" "svSlasher s' = svSlasher s" "svHasExecutor s'" "svHasState s' = svHasState s"
    using acceptBlock_full [OF assms(1-3) _ assms(4)] assms(1-3)
    by (cases "HasVertex dag (vHash v)"; simp add: setRep_def reward_view ApplyBlockReward_wf)+
qed

lemma fresh_block_paid:
  assumes "full_server E s dag sl" and "K = neBadger E"
    and "fst (ValidateBlock (neCrypto E) K (svState s) v) = None" and "\<not> fst (fst (RecordBlockSigned sl v))"
  obtains s1 s2 out where "blockStage E now pk s (BFresh p v) = (BChecked p v, s1, [])"
    "blockStage E now' pk' s1 (BChecked p v) = (BDone, s2, out)"
    "full_server E s2 (if HasVertex dag (vHash v) then dag else insertVertex dag v) (snd (RecordBlockSigned sl v))"
    "view K (svState s2) = rewarded (view K (svState s)) (vAuthor v) (blockFees (neCodec E) v) (vTimestamp v)"
proof -
  define sm' where "sm' = snd (ValidateBlock (neCrypto E) K (svState s) v)"
  define s1 where "s1 = s\<lparr>svState := sm', svSlasher := Some (snd (RecordBlockSigned sl v))\<rparr>"
  have full: "sm_wf K (svState s)" "svDAG s = Some dag" "svHasExecutor s" "svHasState s" "slConfig sl = DefaultSlashingConfig"
    using assms(1) by (auto simp: full_server_def assms(2))
  have sm': "view K sm' = view K (svState s)" "sm_wf K sm'"
    using ValidateBlock_state [of "neCrypto E" K "svState s" v] full(1) by (auto simp: sm'_def)
  have c: "checkBlock E s v = (True, s1)"
    using checkBlock_full [OF assms(1), of v] assms(3,4) by (simp add: assms(2) sm'_def s1_def)
  obtain s2 out where a: "acceptBlock E now' pk' s1 p v = (s2, out)" by fastforce
  have s1: "sm_wf (neBadger E) (svState s1)" "svDAG s1 = Some dag" "svHasExecutor s1"
    using sm'(2) full by (simp_all add: s1_def flip: assms(2))
  note r = acceptBlock_paid [OF s1 a]
  show thesis
  proof (rule that [of s1 s2 out])
    show "full_server E s2 (if HasVertex dag (vHash v) then dag else insertVertex dag v) (snd (RecordBlockSigned sl v))"
      using r full by (simp add: full_server_def s1_def RecordBlockSigned_frame)
    show "view K (svState s2) = rewarded (view K (svState s)) (vAuthor v) (blockFees (neCodec E) v) (vTimestamp v)"
      using r(2) sm'(1) by (simp add: s1_def flip: assms(2))
  qed (use c a in simp_all)
qed

lemma received_fresh:
  assumes "svDAG s = Some dag" and "\<not> HasVertex dag (vHash v)"
    and "decVertex (neCodec E) payload = Some v" and "length payload \<le> MaxBlockSize"
  shows "blockStage E now pk s (BReceived p payload) = (BFresh p v, s, [])"
  using assms by (simp add: ValidatePayloadSize_def SafeDecodeBlock_def SafeDecode_def deliver_take)

lemma race_pair:
  "blockStage E now pk s g = (g', s', out) \<Longrightarrow> race_step E enc (s, [g, h]) (s', [g', h])"
  "blockStage E now pk s h = (h', s', out) \<Longrightarrow> race_step E enc (s, [g, h]) (s', [g, h'])"
  "mineStage E enc now ks pk s g = (g', s', out) \<Longrightarrow> race_step E enc (s, [g, h]) (s', [g', h])"
  using race_step.block [of 0 "[g, h]" E now pk s g' s' out enc] race_step.block [of 1 "[g, h]" E now pk s h' s' out enc]
    race_step.mine [of 0 "[g, h]" E enc now ks pk s g' s' out] by simp_all

lemma has_inserted: "HasVertex (insertVertex dag v) (vHash v)"
  by (simp add: HasVertex_def insertVertex_def)

text \<open>The block race. Two peers deliver the same new, valid block, and both read loops pass the \<open>HasVertex\<close> test
  before one of them adds the vertex. Both then pay the author: the vertex is stored once and rewarded twice.\<close>

theorem block_race:
  assumes "full_server E s dag sl" and "K = neBadger E"
    and "decVertex (neCodec E) payload = Some v" and "length payload \<le> MaxBlockSize" and "\<not> HasVertex dag (vHash v)"
    and "fst (ValidateBlock (neCrypto E) K (svState s) v) = None"
    and "vRound v \<le> 1000" and "signedAt sl (vRound v) (vAuthor v) = None"
    and "pay = (\<lambda>A. rewarded A (vAuthor v) (blockFees (neCodec E) v) (vTimestamp v))"
  shows "\<exists>s'. (race_step E enc)\<^sup>*\<^sup>* (s, [BReceived p payload, BReceived q payload]) (s', [BDone, BDone])
    \<and> svDAG s' = Some (insertVertex dag v) \<and> view K (svState s') = pay (pay (view K (svState s)))"
proof -
  let ?r = "race_step E enc" and ?sl = "snd (RecordBlockSigned sl v)"
  have dag: "svDAG s = Some dag" using assms(1) by (simp add: full_server_def)
  have rec: "blockStage E 0 [] s (BReceived x payload) = (BFresh x v, s, [])" for x
    by (rule received_fresh [OF dag assms(5,3,4)])
  have f1: "\<not> fst (fst (RecordBlockSigned sl v))" using assms(8) by (simp add: RecordBlockSigned_flag)
  have f2: "\<not> fst (fst (RecordBlockSigned ?sl v))"
    using assms(7,8) by (simp add: RecordBlockSigned_flag RecordBlockSigned_signedAt)
  obtain s1 s2 out where a: "blockStage E 0 [] s (BFresh p v) = (BChecked p v, s1, [])"
    "blockStage E 0 [] s1 (BChecked p v) = (BDone, s2, out)" "full_server E s2 (insertVertex dag v) ?sl"
    "view K (svState s2) = pay (view K (svState s))"
    by (rule fresh_block_paid [OF assms(1,2,6) f1, of 0 "[]" p 0 "[]"]) (simp add: assms(5,9))
  have "fst (ValidateBlock (neCrypto E) K (svState s2) v) = None"
    using assms(6) by (simp add: ValidateBlock_accepts a(4) assms(9))
  then obtain s3 s4 out' where b: "blockStage E 0 [] s2 (BFresh q v) = (BChecked q v, s3, [])"
    "blockStage E 0 [] s3 (BChecked q v) = (BDone, s4, out')" "full_server E s4 (insertVertex dag v) (snd (RecordBlockSigned ?sl v))"
    "view K (svState s4) = pay (view K (svState s2))"
    by (rule fresh_block_paid [OF a(3) assms(2) _ f2, of 0 "[]" q 0 "[]"]) (simp add: assms(9) has_inserted)
  have "?r\<^sup>*\<^sup>* (s, [BReceived p payload, BReceived q payload]) (s4, [BDone, BDone])"
    using race_pair(1) [OF rec, of enc p "BReceived q payload"] race_pair(2) [OF rec, of enc "BFresh p v" q]
      race_pair(1) [OF a(1), of enc "BFresh q v"] race_pair(1) [OF a(2), of enc "BFresh q v"]
      race_pair(2) [OF b(1), of enc BDone] race_pair(2) [OF b(2), of enc BDone]
    by (meson converse_rtranclp_into_rtranclp rtranclp.rtrancl_refl)
  with a(4) b(3,4) show ?thesis by (auto simp: full_server_def)
qed

text \<open>The mining race. A new valid block \<open>w\<close> is accepted between the \<open>GetTips\<close> of the miner and its \<open>AddVertex\<close>. The mined
  vertex then has the old tips as its parents, not \<open>w\<close>, and both are tips afterwards.\<close>

theorem mine_race:
  assumes "full_server E s dag sl" and "svMempool s = Some mp" and "K = neBadger E" and "C = neCrypto E"
    and "decVertex (neCodec E) payload = Some w" and "length payload \<le> MaxBlockSize" and "\<not> HasVertex dag (vHash w)"
    and "fst (ValidateBlock C K (svState s) w) = None" and "signedAt sl (vRound w) (vAuthor w) = None"
    and "tips = (if GetTips (neOrd E) dag = [] then [0] else GetTips (neOrd E) dag)"
    and "priv = ed_key_from_seed C seed" and "sealBatch C enc (fst (GetBatch ks mp 100)) = Some (load, root)"
    and "v = NewVertex C now tips (ed_public C priv) priv load root"
    and "\<not> HasVertex dag (vHash v)" and "vHash v \<noteq> vHash w" and "vHash w \<notin> set tips \<union> set (vParents w)" and "vHash v \<notin> set tips"
  shows "\<exists>s' dag'. (race_step E enc)\<^sup>*\<^sup>* (s, [MTick seed, BReceived p payload]) (s', [MTick seed, BDone])
    \<and> svDAG s' = Some dag' \<and> vHash v |\<in>| vsTips dag' \<and> vHash w |\<in>| vsTips dag'"
proof -
  let ?r = "race_step E enc"
  have dag: "svDAG s = Some dag" using assms(1) by (simp add: full_server_def)
  have m1: "mineStage E enc now ks [] s (MTick seed) = (MParents seed tips, s, [])" by (simp add: dag assms(10) Let_def)
  have rec: "blockStage E 0 [] s (BReceived p payload) = (BFresh p w, s, [])"
    by (rule received_fresh [OF dag assms(7,5,6)])
  have f: "\<not> fst (fst (RecordBlockSigned sl w))" using assms(9) by (simp add: RecordBlockSigned_flag)
  obtain s1 s2 out where a: "blockStage E 0 [] s (BFresh p w) = (BChecked p w, s1, [])"
    "blockStage E 0 [] s1 (BChecked p w) = (BDone, s2, out)" "full_server E s2 (insertVertex dag w) (snd (RecordBlockSigned sl w))"
    by (rule fresh_block_paid [OF assms(1,3) assms(8) [unfolded assms(4)] f, of 0 "[]" p 0 "[]"]) (simp add: assms(7))
  have "s2 = fst (handleBlock E 0 [] s p payload)"
    using stages_handleBlock [of E 0 "[]" s p payload] by (simp add: blockStages_def rec a del: blockStage.simps) (metis fst_conv)
  then have pool: "svMempool s2 = Some mp" using pool_handleBlock [of E 0 "[]" s p payload] assms(2) by simp
  define s3 where "s3 = s2\<lparr>svMempool := Some (snd (GetBatch ks mp 100))\<rparr>"
  have m2: "mineStage E enc now ks [] s2 (MParents seed tips) = (MBatch seed tips (fst (GetBatch ks mp 100)), s3, [])"
    by (simp add: pool s3_def case_prod_unfold Let_def)
  have dag3: "svDAG s3 = Some (insertVertex dag w)" using a(3) by (simp add: full_server_def s3_def)
  have new: "\<not> HasVertex (insertVertex dag w) (vHash v)"
    using assms(14,15) by (simp add: HasVertex_def insertVertex_def)
  define db where "db = persistVertex K (neGob E) (neOrd E) (storeDB (svState s3)) (insertVertex (insertVertex dag w) v) v"
  define s4 where "s4 = s3\<lparr>svDAG := Some (insertVertex (insertVertex dag w) v), svState := (svState s3)\<lparr>storeDB := db\<rparr>\<rparr>"
  have add: "fst (AddVertex K (neGob E) (neOrd E) (storeDB (svState s3), insertVertex dag w) v) =
      (db, insertVertex (insertVertex dag w) v)"
    using new unfolding HasVertex_def by (simp add: AddVertex_def Let_def db_def)
  have m3: "mineStage E enc now ks [] s3 (MBatch seed tips (fst (GetBatch ks mp 100)))
      = (MTick seed, s4, BroadcastBlock (neCodec E) [] v)"
    using assms(12) add
    by (simp add: assms(3,4,11,13) dag3 Let_def case_prod_unfold s4_def)
  have d4: "svDAG s4 = Some (insertVertex (insertVertex dag w) v)" by (simp add: s4_def)
  have "?r\<^sup>*\<^sup>* (s, [MTick seed, BReceived p payload]) (s4, [MTick seed, BDone])"
    using race_pair(3) [OF m1, of "BReceived p payload"] race_pair(2) [OF rec, of enc "MParents seed tips"]
      race_pair(2) [OF a(1), of enc "MParents seed tips"] race_pair(2) [OF a(2), of enc "MParents seed tips"]
      race_pair(3) [OF m2, of BDone] race_pair(3) [OF m3, of BDone]
    by (meson converse_rtranclp_into_rtranclp rtranclp.rtrancl_refl)
  moreover have "vParents v = tips" by (simp add: assms(13) NewVertex_def Let_def)
  ultimately show ?thesis
    using d4 assms(16,17) by (intro exI [of _ s4]) (auto simp: insertVertex_def fset_of_list.rep_eq)
qed

section \<open>Witnesses\<close>

lemma mined_valid: "fst (ValidateBlock length_crypto mem_badger demo_sm (mined b)) = None"
  unfolding mined_def
  by (rule honest_validates [OF length_crypto_ok demo_key_def [symmetric] demo_key_public]) (simp add: demo_stakes)

lemma mined_fields: "vAuthor (mined b) = 2" "vTimestamp (mined b) = 5" "vRound (mined b) = 0" "vParents (mined b) = [9]"
  by (simp_all add: mined_def NewVertex_def Let_def UnixNano_def)

text \<open>The author of one block ends with two block rewards of 500000000 units each.\<close>

theorem block_race_witness:
  "\<exists>s'. (race_step demo_env (\<lambda>_. None))\<^sup>*\<^sup>* (demo_server, [BReceived demo_peer [1], BReceived demo_peer [1]]) (s', [BDone, BDone])
     \<and> accBalance (view mem_badger (svState s') 2) = 1000000000"
proof -
  from block_race [OF demo_full refl, of "[1]" "mined [1]", OF _ _ _ _ _ _ refl, of "\<lambda>_. None" demo_peer demo_peer]
  obtain s' where "(race_step demo_env (\<lambda>_. None))\<^sup>*\<^sup>* (demo_server, [BReceived demo_peer [1], BReceived demo_peer [1]]) (s', [BDone, BDone])"
    "view mem_badger (svState s') = rewarded (rewarded (view mem_badger demo_sm) 2 (blockFees demo_codec (mined [1])) 5) 2
       (blockFees demo_codec (mined [1])) 5"
    by (auto simp: demo_env_simps mined_valid mined_fields empty_has MaxBlockSize_def)
  then show ?thesis
    by (intro exI [of _ s'])
      (simp add: rewarded_def blockFees_def demo_codec_def demo_view zeroAccount_def reward_schedule_def halvings_at_def)
qed

theorem mine_race_witness:
  "\<exists>s' dag'. (race_step demo_env (\<lambda>_. None))\<^sup>*\<^sup>* (demo_server, [MTick (be_bytes 32 (2 :: addr)), BReceived demo_peer [1]])
       (s', [MTick (be_bytes 32 (2 :: addr)), BDone])
     \<and> svDAG s' = Some dag' \<and> 115 |\<in>| vsTips dag' \<and> 105 |\<in>| vsTips dag'"
proof -
  have b: "fst (GetBatch [] NewMempool 100) = []"
    by (simp add: GetBatch_def NewMempool_def Let_def pendingEntries_def map_filter_simps)
  have h: "vHash (NewVertex length_crypto 5 [0] 2 demo_key (string_bytes ''mined-block'') 0) = 115"
    by (simp add: NewVertex_def ComputeHash_def hashPreimage_def length_crypto_def string_bytes_def Let_def del: be_bytes.simps)
  have t: "GetTips (neOrd demo_env) empty_store = []" by (simp add: GetTips_def demo_env_def empty_store_def empty_order)
  show ?thesis
    using mine_race [OF demo_full _ refl refl, where mp = NewMempool and payload = "[1]" and w = "mined [1]"
        and seed = "be_bytes 32 (2 :: addr)" and enc = "\<lambda>_. None" and ks = "[]" and load = "string_bytes ''mined-block''"
        and root = 0 and now = 5 and p = demo_peer, OF _ _ _ _ _ _ refl refl _ refl]
    by (simp add: t b h demo_env_simps demo_key_public mined_valid mined_fields mined_hash empty_has MaxBlockSize_def sealBatch_def
        flip: demo_key_def del: be_bytes.simps) (simp add: demo_server_def NewServer_def)
qed

end
