(* ===== verification/Cmd_Tools.thy ===== *)
theory Cmd_Tools
  imports Node_Miner Ingest
begin

text \<open>
  The programs around the node and the thin layers over the operating system: the command dispatch of
  \<open>main.go\<close> and \<open>cmd/wallet\<close>, the websocket bridge \<open>cmd/gateway\<close>, the load generator \<open>cmd/bench\<close>, the TCP
  transport of \<open>core/p2p\<close>, the database handle of \<open>core/store\<close> and the choice between HTTP and HTTPS at the end of
  \<open>explorer.go\<close>. What the operating system answers (a dialled socket, a write, a read, an opened
  database) is an argument; flags are taken as parsed by the standard library.
\<close>

section \<open>TCP transport and database handle\<close>

text \<open>\<open>trListener\<close>: the listener is not nil. A call on the nil listener panics (\<open>None\<close>).\<close>

record Transport =
  trListenAddr :: string
  trListener :: bool

definition NewTransport :: "string \<Rightarrow> Transport" where
  "NewTransport addr = \<lparr>trListenAddr = addr, trListener = False\<rparr>"

definition Listen :: "bool \<Rightarrow> Transport \<Rightarrow> bool \<times> Transport" where
  "Listen bound t = (if bound then (True, t\<lparr>trListener := True\<rparr>) else (False, t))"

definition Transport_Accept :: "'c option \<Rightarrow> Transport \<Rightarrow> 'c option option" where
  "Transport_Accept conn t = (if trListener t then Some conn else None)"

definition Transport_Close :: "Transport \<Rightarrow> Transport option" where
  "Transport_Close t = (if trListener t then Some t else None)"

text \<open>\<open>Server.Start\<close>: whether the accept loop runs.\<close>

definition Server_Start :: "bool \<Rightarrow> Transport \<Rightarrow> bool \<times> Transport" where
  "Server_Start bound t = (case Listen bound t of (True, t) \<Rightarrow> (True, t) | (False, t) \<Rightarrow> (False, t))"

text \<open>The global \<open>store.DB\<close>: nil, or a handle that may have been closed. \<open>Init\<close> ends the process when the database
  cannot be opened (\<open>None\<close>); \<open>Close\<close> leaves the global as it is.\<close>

record 'd store =
  stDB :: "'d option"
  stClosed :: bool

definition store_Init :: "'d option \<Rightarrow> 'd store option" where
  "store_Init opened = map_option (\<lambda>db. \<lparr>stDB = Some db, stClosed = False\<rparr>) opened"

definition store_Close :: "'d store \<Rightarrow> 'd store" where
  "store_Close s = (if stDB s \<noteq> None then s\<lparr>stClosed := True\<rparr> else s)"

section \<open>Commands\<close>

record Flags =
  flSend :: bool
  flStake :: bool
  flGenKey :: bool
  flTo :: string
  flAmount :: u64
  flKey :: string

datatype command =
    CmdTransaction "Transaction option"
  | CmdGenKey "(string \<times> string) option"
  | CmdRun

text \<open>What \<open>main\<close> does before it opens the database; a transaction or key that is \<open>None\<close> is a panic.\<close>

definition mainCommand :: "crypto \<Rightarrow> time \<Rightarrow> bytes option \<Rightarrow> Flags \<Rightarrow> command" where
  "mainCommand C now rnd fl =
     (if flSend fl \<or> flStake fl
      then CmdTransaction (handleTransaction C now (flSend fl) (flStake fl) (flTo fl) (flAmount fl) (flKey fl))
      else if flGenKey fl then CmdGenKey (genKey C rnd)
      else CmdRun)"

text \<open>The end of \<open>handleTransaction\<close> and \<open>sendToNetwork\<close>: dial, encode, write. The result is the datagram and
  whether success is reported; \<open>sendToNetwork\<close> ignores the outcome of the write, \<open>handleTransaction\<close> panics.\<close>

definition sendToNetwork :: "(Transaction \<Rightarrow> bytes option) \<Rightarrow> bool \<Rightarrow> bool \<Rightarrow> Transaction \<Rightarrow> bytes list \<times> bool" where
  "sendToNetwork enc dialed written tx =
     (if \<not> dialed then ([], False)
      else case enc tx of
             None \<Rightarrow> ([], False)
           | Some buf \<Rightarrow> (if written then [buf] else [], True))"

definition sendTransaction :: "(Transaction \<Rightarrow> bytes option) \<Rightarrow> bool \<Rightarrow> bool \<Rightarrow> Transaction \<Rightarrow> bytes list option" where
  "sendTransaction enc dialed written tx =
     (case enc tx of
        None \<Rightarrow> None
      | Some buf \<Rightarrow> if dialed \<and> written then Some [buf] else None)"

record SendFlags =
  sfPriv :: string
  sfTo :: string
  sfAmount :: u64
  sfNonce :: u64

datatype wallet_command = WUsage | WUnknown | WKeygen "(string \<times> string) option" | WSend "Transaction option"

definition walletMain :: "crypto \<Rightarrow> bytes option \<Rightarrow> (string list \<Rightarrow> SendFlags) \<Rightarrow> string list \<Rightarrow> wallet_command" where
  "walletMain C rnd parse args =
     (case args of
        prog # cmd # rest \<Rightarrow>
          if cmd = ''keygen'' then WKeygen (runKeygen C rnd)
          else if cmd = ''send''
          then let fl = parse rest in WSend (runSend C (sfPriv fl) (sfTo fl) (sfAmount fl) (sfNonce fl))
          else WUnknown
      | _ \<Rightarrow> WUsage)"

section \<open>Gateway, load generator, API server\<close>

text \<open>One websocket session of the gateway: the results of \<open>ReadMessage\<close> (\<open>None\<close> an error, which ends the loop), the
  datagrams that leave, and the number of acknowledgements. \<open>fits_udp\<close>: the UDP write succeeds.\<close>

fun gatewaySession :: "(bytes \<Rightarrow> bool) \<Rightarrow> bytes option list \<Rightarrow> bytes list \<times> nat" where
  "gatewaySession fits_udp [] = ([], 0)"
| "gatewaySession fits_udp (None # reads) = ([], 0)"
| "gatewaySession fits_udp (Some msg # reads) =
     (let (out, acks) = gatewaySession fits_udp reads
      in (if fits_udp msg then msg # out else out, Suc acks))"

text \<open>The loop of the load generator; \<open>written n\<close>: the write after \<open>n\<close> successful ones succeeds. The result is
  the number of packets sent.\<close>

function benchLoop :: "(nat \<Rightarrow> bool) \<Rightarrow> nat \<Rightarrow> nat" where
  "benchLoop written n =
     (if \<not> written n then n
      else let n = n + 1 in if 1000000 \<le> n then n else benchLoop written n)"
  by pat_completeness auto

termination benchLoop
  by (relation "measure (\<lambda>(written, n). 1000000 - n)") auto

declare benchLoop.simps [simp del]

definition benchPacket :: bytes where
  "benchPacket = string_bytes ''PULSE_DATA_PAYLOAD_EXAMPLE_SIG_VERIFY_ME''"

datatype serve_mode = ServeTLS string string string | ServeHTTP string

definition serveMode :: "Config \<Rightarrow> serve_mode" where
  "serveMode cfg =
     (if cfgEnableTLS cfg \<and> cfgTLSCertFile cfg \<noteq> [] \<and> cfgTLSKeyFile cfg \<noteq> []
      then ServeTLS (cfgAPIPort cfg) (cfgTLSCertFile cfg) (cfgTLSKeyFile cfg)
      else ServeHTTP (cfgAPIPort cfg))"

section \<open>Properties\<close>

lemma no_nil_listener: "Server_Start bound (NewTransport addr) = (True, t)
  \<Longrightarrow> Transport_Accept conn t \<noteq> None \<and> Transport_Close t \<noteq> None"
  by (auto simp: Server_Start_def Listen_def Transport_Accept_def Transport_Close_def split: if_splits)

text \<open>Closing twice, as \<open>main\<close> does at its end, is closing once; the handle is never nil again.\<close>

lemma store_Close_twice: "store_Close (store_Close s) = store_Close s" "stDB (store_Close s) = stDB s"
  by (simp_all add: store_Close_def)

text \<open>The gateway forwards every message up to the first read error whose datagram can be sent, in
  order and unchanged, but acknowledges all of them: the acknowledgement does not say that anything was sent.\<close>

theorem gateway_acks:
  fixes reads :: "bytes option list"
  defines "msgs \<equiv> map the (takeWhile (\<lambda>r. r \<noteq> None) reads)"
  shows "gatewaySession fits_udp reads = (filter fits_udp msgs, length msgs)"
  unfolding msgs_def by (induction fits_udp reads rule: gatewaySession.induct) (simp_all add: Let_def)

text \<open>The load generator always ends, after a million packets or at the first write that fails.\<close>

theorem bench_stops:
  "benchLoop written 0 \<le> 1000000 \<and> (\<forall>i < benchLoop written 0. written i)
   \<and> (benchLoop written 0 < 1000000 \<longrightarrow> \<not> written (benchLoop written 0))"
proof -
  have "c < 1000000 \<Longrightarrow> c \<le> benchLoop written c \<and> benchLoop written c \<le> 1000000
    \<and> (\<forall>i. c \<le> i \<and> i < benchLoop written c \<longrightarrow> written i)
    \<and> (benchLoop written c < 1000000 \<longrightarrow> \<not> written (benchLoop written c))" for c
  proof (induction written c rule: benchLoop.induct)
    case (1 written c)
    let ?n = "benchLoop written c"
    have n: "?n = (if \<not> written c then c else if 1000000 \<le> c + 1 then c + 1 else benchLoop written (c + 1))"
      by (subst benchLoop.simps) (simp add: Let_def)
    consider "\<not> written c" "?n = c" | "written c" "?n = c + 1" "c + 1 = 1000000"
      | "written c" "?n = benchLoop written (c + 1)" "c + 1 < 1000000"
      using "1.prems" n by (cases "written c"; cases "1000000 \<le> c + 1") auto
    then show ?case
    proof cases
      case 3
      then have ih: "c + 1 \<le> ?n \<and> ?n \<le> 1000000 \<and> (\<forall>i. c + 1 \<le> i \<and> i < ?n \<longrightarrow> written i) \<and> (?n < 1000000 \<longrightarrow> \<not> written ?n)"
        using "1.IH" [of "c + 1"] by simp
      moreover have "i = c \<or> c + 1 \<le> i" if "c \<le> i" for i using that by auto
      ultimately show ?thesis using 3(1) by auto
    next
      case 2
      have "written i" if "c \<le> i" "i < ?n" for i
      proof -
        have "i = c" using that 2(2) by simp
        then show ?thesis using 2(1) by simp
      qed
      then show ?thesis using 2(2,3) by simp
    qed (use "1.prems" in auto)
  qed
  from this [of 0] show ?thesis by simp
qed

theorem bench_stops_witness: "benchLoop (\<lambda>n. n < 3) 0 = 3"
proof -
  have "3 \<le> benchLoop (\<lambda>n. n < 3) 0" using bench_stops [of "\<lambda>n. n < 3"] by auto
  moreover have "benchLoop (\<lambda>n. n < 3) 0 \<le> 3"
    using bench_stops [of "\<lambda>n. n < 3"] by (metis (no_types, lifting) less_irrefl not_less)
  ultimately show ?thesis by simp
qed

text \<open>The packets of the load generator carry no transaction: they are counted as invalid.\<close>

lemma bench_invalid:
  "gob benchPacket = None \<Longrightarrow>
     processPacket C gob m K ks t0 t1 t2 s benchPacket = s\<lparr>isInvalid := isInvalid s + 1\<rparr>"
  by (simp add: processPacket_def verifyPacket_def SafeDecodeTransaction_def SafeDecode_def deliver_take Let_def split: option.split)

text \<open>Asking for TLS does not guarantee it. With \<open>SUPERNOVA_ENABLE_TLS\<close> set but a certificate or
  key file missing, the API (passwords, keys and mnemonics in its requests and answers) is served over plain
  HTTP on the same port; TLS is used exactly when it is enabled and both files are named.\<close>

theorem tls_fallback:
  "(serveMode cfg = ServeTLS (cfgAPIPort cfg) (cfgTLSCertFile cfg) (cfgTLSKeyFile cfg)
     \<longleftrightarrow> cfgEnableTLS cfg \<and> cfgTLSCertFile cfg \<noteq> [] \<and> cfgTLSKeyFile cfg \<noteq> [])
   \<and> serveMode (loadConfig None ((\<lambda>_. [])(''SUPERNOVA_ENABLE_TLS'' := ''true''))) = ServeHTTP '':8000''"
  by (auto simp: serveMode_def loadConfig_def override_def readUDPPort_def defaultConfig_def)

end
