(* ===== verification/Spec2Isabelle.thy ===== *)
theory Spec2Isabelle
  imports Node_Races Cmd_Tools
begin

text \<open>
  \<^bold>\<open>Verification of the NovaCoin 3.0 node\<close>

  The program is a proof-of-stake node in Go. Transactions come in over UDP (\<open>core/tpu/ingest.go\<close>), from peers
  (\<open>core/p2p\<close>) or over HTTP (\<open>explorer.go\<close>, with the encrypted wallets of \<open>core/wallet\<close>) and wait in the mempool
  (\<open>core/tpu/mempool.go\<close>). The miner of \<open>main.go\<close> packs them into vertices of a DAG (\<open>core/pulse\<close>), which are
  announced to the peers; a receiving node validates a vertex (\<open>core/staking\<close>), stores it, punishes double
  signatures and pays the block reward on the account store (\<open>core/execution\<close>). Accounts and vertices
  live in one Badger database.

  \<^bold>\<open>Theories and sources.\<close> Definitions keep the names of the Go functions; one theory holds one component, its
  operations first, then its lemmas, properties and witnesses.

    \<^item> \<open>Nova_Prelude\<close>: machine words, byte arrays, big-endian encodings, signed arithmetic, orders of map iteration,
      sums over all addresses; the locales \<open>op_system\<close> (an invariant kept by every operation is kept by every run)
      and \<open>monotone_system\<close> (a preorder that every operation climbs is climbed by every run).
    \<^item> \<open>Safe_Math\<close> (\<open>core/math/safe.go\<close>), \<open>Tx_Types\<close> (\<open>core/types/transaction.go\<close>), \<open>Hex_Codec\<close> (Go's hex codec),
      \<open>Net_Decode\<close> (\<open>core/network/safedecode.go\<close>), \<open>Bounded_Cache\<close> (\<open>core/cache/lru.go\<close>), \<open>Merkle_Crypto\<close>
      (\<open>core/crypto\<close>): the libraries of the node.
    \<^item> \<open>Ledger_State\<close> (\<open>core/execution/state.go\<close>): the write-through account store; \<open>view\<close> is the account that a
      manager shows at an address, whether cached or stored. \<open>Executor\<close> (\<open>core/execution/executor.go\<close>): all
      seven transaction types, the nonce check, batches and the block reward, with an abstract ledger over natural
      numbers that \<open>Execute\<close> refines.
    \<^item> \<open>Pulse_Vertex\<close>, \<open>Pulse_Store\<close>, \<open>Finality\<close> (\<open>core/pulse\<close>) and \<open>Staking\<close> (\<open>core/staking\<close>): vertices and their
      hash, the DAG with its tips and persistence, confirmation counting, block validation, slashing.
    \<^item> \<open>Mempool\<close>, \<open>Ingest\<close> (\<open>core/tpu\<close>): the pool; the receive loop, worker pool and shutdown as an inductive step
      relation in which every interleaving of the goroutines is a run.
    \<^item> \<open>Reputation\<close>, \<open>P2P_Server\<close>, \<open>Peer_Session\<close> (\<open>core/p2p\<close>): peer scores and bans, the handlers of all messages,
      the life of a connection.
    \<^item> \<open>Wallet\<close> (\<open>core/wallet/wallet.go\<close>): mnemonics, key derivation, encryption, files, signing.
    \<^item> \<open>Explorer_Index\<close>, \<open>Explorer_Api\<close> (\<open>explorer.go\<close>): the index behind the read-only endpoints; the endpoints that
      submit transactions and manage wallets.
    \<^item> \<open>Node_Genesis\<close>, \<open>Node_Miner\<close> (\<open>main.go\<close>, \<open>cmd/wallet\<close>): configuration, genesis, grants, mining, command line.
      \<open>Node_System\<close>: start-up and the running node, the composition of server, miner, API and pool on their
      shared state. \<open>Node_Races\<close>: \<open>handleBlock\<close> and a mining round cut into stages, and all their interleavings.
      \<open>Cmd_Tools\<close>: \<open>cmd/gateway\<close>, \<open>cmd/bench\<close>, the command dispatch, \<open>transport.go\<close>, \<open>core/store\<close>.

  \<^bold>\<open>Interfaces.\<close> Besides the two locales of the prelude: \<open>account_cell\<close> (\<open>Ledger_State\<close>), the contract of a getter and a
  setter of an account field, interpreted for balance, stake, grant and nonce; \<open>recency_cache\<close> (\<open>Bounded_Cache\<close>), the
  contract between the cache and the index built on it; \<open>tx_intake\<close> (\<open>Mempool\<close>), the contract of everything that feeds
  the pool, interpreted for the pool's own operations and for the node with all its entry points.

  \<^bold>\<open>How the code is modelled.\<close> A struct is a record, a method a function that takes the record and returns it updated;
  an error is a value of a sum or option type, and a panic or an early return is a branch. A method that
  holds its mutex throughout is one atomic step; where the code releases it in between (grants, rate limits, the ingest
  pipeline) the parts are separate definitions and the theorems say what interleaving does to them. Some compositions of
  such methods hold no lock from end to end and are still one function each: \<open>handleBlock\<close>, \<open>mineTick\<close>, and \<open>Execute\<close> and
  \<open>ApplyBlockReward\<close>, which read and write an account in separate calls. The theorems about them, and about the
  runs of the node built on them, speak of handlers that run one after the other. For \<open>handleBlock\<close> and \<open>mineTick\<close> the theory
  \<open>Node_Races\<close> has the stages between which another goroutine can run, a proof that the stages in sequence are the
  handler, and theorems on all interleavings of stages; inside a stage the calls are not interrupted. \<open>uint64\<close> and
  \<open>int64\<close> keep their 64 bits and wrap; theorems on overflow are stated with natural numbers. What the code
  takes from outside is an argument: the clock (one argument per reading of it; the readings of the reputation manager within one message
  are one), random bytes, the order in which a Go map
  is iterated (any enumeration of its keys), the outcome of socket and file operations. \<open>float64\<close> figures that are only
  displayed are kept as the expression that is evaluated.

  Code that is not part of the repository is a parameter: the database (record \<open>badger\<close>), gob encoding (\<open>codec\<close>,
  \<open>vertex_gob\<close>), Ed25519 and SHA-256 (\<open>crypto\<close>), PBKDF2 and AES-GCM (\<open>vault\<close>). Their documented behaviour is a
  named hypothesis (\<open>badger_ok\<close> and \<open>reliable_db\<close>, \<open>ed25519_ok\<close>, \<open>vault_ok\<close>), and each theorem that uses
  one has a witness with a concrete instance (\<open>mem_badger\<close>, \<open>demo_crypto\<close>, \<open>demo_vault\<close> and so on).

  Recursion is structural or has a termination proof. The one loop that is not obviously finite, the eviction
  loop of the LRU cache, is a \<open>partial_function\<close> in the option type, and a theorem shows that it returns. No fuel is used.

  \<^bold>\<open>What the theorems show.\<close>

    \<^item> Ledger: the executor implements the abstract ledger on every branch, roll-backs included; only the charged fee leaves
      the supply; a transaction runs at most once; unbonding funds stay locked for 14 days; others' accounts are untouched;
      the reward follows the halving schedule; the store is durable and its cache invisible.
    \<^item> Blocks: what a handled block does, case by case; a block that is in the DAG is not paid again; the tips are exactly the
      vertices that no vertex named since they arrived, which are the childless ones when parents arrive first; finality is exact and permanent; the hash determines a vertex up to a stated ambiguity.
    \<^item> Network and pool: capacity and uniqueness of the pool, its admission rule, fee order of batches; only
      verified transactions pass the UDP path; the rate limiter equals a per-address reference; slots, scores, bans.
    \<^item> Wallets and API: a locked wallet signs nothing and its password or mnemonic restores the same key; no request changes
      an account; every transaction that the API puts into the pool carries a valid signature of its sender.
    \<^item> Concurrency: no interleaving of block messages and mining rounds executes a transaction or loses a vertex, but two
      read loops that test the DAG at the same time both pay the author of a block, and a block that arrives during a
      mining round leaves two tips; \<open>Stop\<close> of the ingest server can make its receive loop panic.
    \<^item> The node as a whole (this theory): no run executes a transaction, the only way for an unsigned transaction into the pool
      is a peer's message, and what a restart keeps and loses.

  Several theorems state, at full generality, behaviour that the documentation contradicts (an honest miner's
  second block is slashed, a mined block is paid by everyone but its miner, transactions from peers are not verified,
  queued transactions are never executed).

  \<^bold>\<open>Not modelled.\<close> Flag parsing and signal handling of the standard library; log output and JSON text; HTTP routing
  and the websocket upgrade (the handlers are modelled); TLS itself; sleeping and tickers, of which a step of the model
  is one tick; the end of the process. Two goroutines writing a map without a lock is a data race that the model does not
  express: the DAG's callback, for example, is taken to see a consistent vertex.
\<close>

section \<open>The running node\<close>

text \<open>C8: a running node never executes a transaction. Whatever sequence of connections, messages,
  mined blocks, API requests, pool operations and grants it goes through, no account changes its nonce, its
  delegations or its unbonding funds, no balance goes down and no stake goes up: blocks are recorded
  and their authors rewarded, but a transfer that was queued, mined and announced moves nothing.\<close>

theorem ledger_frozen:
  assumes "sm_wf K (svState (ndServer nd))" and "K = neBadger E"
    and "A = view K (svState (ndServer nd))"
    and "A' = view K (svState (ndServer (foldl (node_step E V g1) nd evs)))"
  shows "accNonce (A' a) = accNonce (A a) \<and> accDelegations (A' a) = accDelegations (A a)
    \<and> accUnbondingBalance (A' a) = accUnbondingBalance (A a) \<and> accUnbondingRelease (A' a) = accUnbondingRelease (A a)
    \<and> accBalance (A a) \<le> accBalance (A' a) \<and> accStake (A' a) \<le> accStake (A a)"
  using node_run [of E nd V g1 evs] assms by (simp add: unspent_def)

text \<open>The transfer of the witness is one that the executor would carry out.\<close>

abbreviation demo_node :: "(bytes \<rightharpoonup> Account) Node" where
  "demo_node \<equiv> \<lparr>ndServer = demo_server, ndWallet = NewManager [] ''./wallets'' fmempty, ndGranted = {||}\<rparr>"

theorem ledger_frozen_witness:
  "fst (Execute mem_badger demo_sm sample_tx 0)
   \<and> accNonce (view mem_badger (svState (ndServer (foldl (node_step demo_env demo_vault True) demo_node
        [EvPool key_order (MpAdd 0 0 sample_tx), EvMine (\<lambda>_. Some []) 5 [array32 [7, 7]] [''peer''] (be_bytes 32 (2 :: addr))]))) 1) = 0"
  using ledger_frozen [of mem_badger demo_node demo_env "view mem_badger demo_sm" _ demo_vault True
      "[EvPool key_order (MpAdd 0 0 sample_tx), EvMine (\<lambda>_. Some []) 5 [array32 [7, 7]] [''peer''] (be_bytes 32 (2 :: addr))]" 1,
      OF _ _ _ refl]
  by (simp add: demo_transfer demo_wf demo_env_simps demo_nonce del: foldl_Cons be_bytes.simps)

text \<open>C9: the only way for an unsigned transaction into the pool. A node is started with no wallet files
  and runs through any events, in which the UDP ingest adds signed transactions only (as it does). Then every
  pending transaction is correctly signed by its sender, unless a peer sent exactly it in a \<open>MsgTx\<close>
  message: no sequence of API requests, blocks, DAG synchronisations or mining rounds brings in another one.\<close>

theorem pool_provenance:
  assumes "startNode E [] fmempty rnd cfg mx key db = (g1, nd)" and "C = neCrypto E"
    and "sm_wf (neBadger E) (NewStateManager db)" and "ed25519_ok C" and "vault_ok V"
    and "\<And>ord t1 t2 tx'. EvPool ord (MpAdd t1 t2 tx') \<in> set evs \<Longrightarrow> sig_ok C tx'"
    and "tx \<in> pool_txs (svMempool (ndServer (foldl (node_step E V g1) nd evs)))"
  shows "sig_ok C tx \<or> (\<exists>it now p msg. EvConn (CnMessage it now p msg) \<in> set evs \<and> msgType msg = MsgTx
    \<and> SafeDecodeTransaction (decTx (neCodec E)) (bufSize (neCodec E)) (msgPayload msg) = Inr tx)"
proof -
  have ns: "node_sound E V nd" using startNode_sound [OF assms(1)] assms(2-5) by simp
  have "tx \<in> pool_txs (svMempool (ndServer nd)) \<union> (\<Union>e\<in>set evs. node_offered E e)"
    by (rule subsetD [OF node_intake.provenance [OF ns] assms(7)])
  then obtain e where e: "e \<in> set evs" "tx \<in> node_offered E e" using startNode_state(2) [OF assms(1)] by auto
  from node_offeredD [OF e(2)] show ?thesis
  proof (elim disjE exE conjE)
    fix ord t1 t2
    assume "e = EvPool ord (MpAdd t1 t2 tx)"
    then show ?thesis using assms(6) e(1) by blast
  next
    fix it now p msg
    assume "e = EvConn (CnMessage it now p msg)" "tx \<in> msg_offered E msg"
    then show ?thesis using e(1) unfolding msg_offered_def by blast
  qed (simp add: sig_ok_signed assms(2))
qed

lemma demo_env_ids: "genesisIDs (neCrypto demo_env) demo_entropy demo_config = ([1, 2, 3], [4, 5])"
  using demo_ids by (simp add: demo_env_simps genesisIDs_def genesisID_def length_crypto_def)

abbreviation demo_start_node :: "(bytes \<rightharpoonup> Account) option \<Rightarrow> bool \<times> (bytes \<rightharpoonup> Account) Node" where
  "demo_start_node \<equiv> startNode demo_env [] fmempty demo_entropy demo_config 10 []"

lemma demo_fresh: "sm_wf mem_badger (NewStateManager (Some Map.empty))"
  using synced_new [OF mem_badger_reliable] by (simp add: synced_def)

text \<open>A peer sends an unsigned transaction to a node that has just started; it is pending.\<close>

abbreviation demo_tx_event :: node_event where
  "demo_tx_event \<equiv> EvConn (CnMessage \<lparr>itPool = [], itExpiry = 1000000000000, itAdded = 1000000000000, itPeers = [], itKnown = [], itVertices = []\<rparr> 1000000000000 demo_peer
     \<lparr>msgType = MsgTx, msgPayload = []\<rparr>)"

lemma demo_pending:
  "sample_tx \<in> pool_txs (svMempool (ndServer (foldl (node_step demo_env demo_vault g1) (snd (demo_start_node (Some Map.empty))) [demo_tx_event])))"
proof -
  let ?nd = "snd (demo_start_node (Some Map.empty))"
  note st = startNode_state [OF surjective_pairing, of demo_env "[]" fmempty demo_entropy demo_config 10 "[]" "Some Map.empty"]
  have "accNonce (view mem_badger (svState (ndServer ?nd)) 1) = 0"
    using st(1) view_bigBang(2) [OF demo_fresh demo_env_ids] by (simp add: demo_env_simps demo_start zeroAccount_def)
  then have "acceptable mem_badger 1000000000000 NewMempool (Some (svState (ndServer ?nd))) sample_tx"
    by (simp add: acceptable_def sample_tx_def IsExpired_def UnixNano_def NewMempool_def TxMaxAge_def word_sless_alt Let_def)
  note pend = added_pending [OF this]
  have m: "svMempool (ndServer ?nd) = Some NewMempool" using st(2) by simp
  have "sample_tx \<in> pool_txs (svMempool (handleTx demo_env [] 1000000000000 1000000000000 1000000000000 (ndServer ?nd) demo_peer []))"
    by (auto simp: handleTx_def m ValidatePayloadSize_def SafeDecodeTransaction_def SafeDecode_def demo_env_simps demo_codec_def
        setRep_def Let_def split: prod.split dest: pend)
  then show ?thesis by (simp add: handleMessage_def ValidatePayloadSize_def)
qed

theorem pool_provenance_witness:
  "\<not> sig_ok length_crypto sample_tx \<and> (\<exists>it now p msg. EvConn (CnMessage it now p msg) \<in> set [demo_tx_event] \<and> msgType msg = MsgTx)"
proof -
  have "\<not> sig_ok length_crypto sample_tx" by (simp add: sig_ok_def sample_tx_def)
  then show ?thesis
    using pool_provenance [where tx = sample_tx and evs = "[demo_tx_event]", OF surjective_pairing refl _ _ demo_vault_ok _ demo_pending]
    by (simp add: demo_env_simps demo_fresh length_crypto_ok)
qed

text \<open>C17: what a restart keeps. A node is started over a database on which transactions commit, runs
  through any events, and is started again over the database it leaves (with any configuration). Every
  account that the new configuration does not name as a genesis or community validator is as the run left it,
  every write of the run having reached the database; of the named ones, balance and stake are reset to the
  allocation. The pending transactions, the peers, the record of who signed and was slashed, the grants
  made and all vertices of the DAG are gone.\<close>

theorem node_restart:
  assumes "K = neBadger E" and "reliable_db K d" and "startNode E names files rnd cfg mx key (Some d) = (g1, nd0)"
    and "nd = foldl (node_step E V g1) nd0 evs"
    and "startNode E names' files' rnd' cfg' mx' key' (storeDB (svState (ndServer nd))) = (g2, nd')"
    and "genesisIDs (neCrypto E) rnd' cfg' = (gens, users)"
    and "A = view K (svState (ndServer nd))"
  shows "view K (svState (ndServer nd')) = (\<lambda>a.
       if a \<in> set users then (A a)\<lparr>accBalance := userBalance, accStake := userStake\<rparr>
       else if a \<in> set gens then (A a)\<lparr>accBalance := genBalance, accStake := genStake\<rparr>
       else A a)
    \<and> svMempool (ndServer nd') = Some NewMempool \<and> svPeers (ndServer nd') = fmempty
    \<and> svSlasher (ndServer nd') = Some (NewSlasher None) \<and> ndGranted nd' = {||}
    \<and> (\<exists>dag. svDAG (ndServer nd') = Some dag \<and> (\<forall>h. \<not> HasVertex dag h))"
proof -
  have "synced K (svState (ndServer nd0))" using startNode_synced [OF assms(3)] assms(1,2) by simp
  then have s: "synced K (svState (ndServer nd))"
    using node_run [of E nd0 V g1 evs] assms(1,4) by (simp add: synced_def)
  then obtain d' where d': "storeDB (svState (ndServer nd)) = Some d'" "reliable_db K d'" by (auto simp: synced_def)
  then have "sm_wf K (NewStateManager (storeDB (svState (ndServer nd))))" using synced_new [OF d'(2)] by (simp add: synced_def)
  from view_bigBang(2) [OF this assms(6)] view_restart [OF s]
  show ?thesis using startNode_state [OF assms(5)] assms(1,7) by (auto simp: HasVertex_def)
qed

text \<open>A block of validator 2 arrives; after the restart its reward is gone again, for 2 is a genesis validator.\<close>

abbreviation demo_ran :: "(bytes \<rightharpoonup> Account) Node" where
  "demo_ran \<equiv> foldl (node_step demo_env demo_vault (fst (demo_start_node (Some Map.empty)))) (snd (demo_start_node (Some Map.empty)))
     [EvConn (CnMessage \<lparr>itPool = [], itExpiry = 1000000000000, itAdded = 1000000000000, itPeers = [], itKnown = [], itVertices = []\<rparr> 6 demo_peer \<lparr>msgType = MsgBlock, msgPayload = [1]\<rparr>)]"

theorem node_restart_witness:
  "accBalance (view mem_badger (svState (ndServer (snd (demo_start_node (storeDB (svState (ndServer demo_ran))))))) 2) = genBalance"
  using node_restart [where E = demo_env and d = Map.empty and evs = "[EvConn (CnMessage \<lparr>itPool = [], itExpiry = 1000000000000, itAdded = 1000000000000, itPeers = [], itKnown = [], itVertices = []\<rparr> 6 demo_peer \<lparr>msgType = MsgBlock, msgPayload = [1]\<rparr>)]",
      OF refl _ surjective_pairing refl surjective_pairing demo_env_ids refl]
  by (simp add: demo_env_simps mem_badger_reliable del: foldl_Cons)

end
